(* ===== verification/Prelude.thy ===== *)
theory Prelude
  imports Complex_Main "HOL-Library.AList" "HOL-Library.Word"
begin

text \<open>
  Shared vocabulary of the development: the JavaScript values and library operations the
  sources use (JSON values, \<open>Map\<close> as an insertion-ordered association list, \<open>trim\<close>,
  \<open>join\<close>, \<open>findIndex\<close>, decimal printing), the collections of rewrite rules the component
  theories fill, and the list lemmas they share.

  A JavaScript string is a \<^typ>\<open>string\<close>: a list of code units, restricted to the units 0 to
  255 that a \<^typ>\<open>char\<close> can hold; \<open>length\<close> counts code units as the source's
  \<open>.length\<close> does.
\<close>

named_theorems session_simps \<open>rewrite rules of the session tree and its store\<close>
named_theorems loop_rules \<open>Hoare rules of the effect monad and of the agent loop's operations\<close>
named_theorems sched_simps \<open>rewrite rules of the tool schedule\<close>

section \<open>JSON values\<close>

text \<open>
  A value of type \<open>unknown\<close>. A number is kept as the numeral that prints it: no modelled code
  computes with a number found inside a JSON value.
\<close>

datatype json =
    JUndefined
  | JNull
  | JBool bool
  | JNum string
  | JStr string
  | JArr "json list"
  | JObj "(string \<times> json) list"

fun js_typeof :: "json \<Rightarrow> string" where
  "js_typeof JUndefined = ''undefined''"
| "js_typeof JNull = ''object''"
| "js_typeof (JBool _) = ''boolean''"
| "js_typeof (JNum _) = ''number''"
| "js_typeof (JStr _) = ''string''"
| "js_typeof (JArr _) = ''object''"
| "js_typeof (JObj _) = ''object''"

text \<open>Property access \<open>record[key]\<close> on a plain object: a missing property is \<open>undefined\<close>.\<close>

definition js_prop :: "(string \<times> json) list \<Rightarrow> string \<Rightarrow> json" where
  "js_prop fields key = (case map_of fields key of None \<Rightarrow> JUndefined | Some v \<Rightarrow> v)"

section \<open>Strings\<close>

definition is_js_space :: "char \<Rightarrow> bool" where
  "is_js_space c = (of_char c \<in> {9, 10, 11, 12, 13, 32, 160 :: nat})"

definition js_trim :: "string \<Rightarrow> string" where
  "js_trim s = rev (dropWhile is_js_space (rev (dropWhile is_js_space s)))"

text \<open>ASCII case folding, as the flag \<open>i\<close> of a regular expression compares letters.\<close>

definition ascii_lower :: "char \<Rightarrow> char" where
  "ascii_lower c = (let n = (of_char c :: nat) in if 65 \<le> n \<and> n \<le> 90 then char_of (n + 32) else c)"

definition js_lower :: "string \<Rightarrow> string" where
  "js_lower s = map ascii_lower s"

fun js_join :: "'a list \<Rightarrow> 'a list list \<Rightarrow> 'a list" where
  "js_join sep [] = []"
| "js_join sep [x] = x"
| "js_join sep (x # y # xs) = x @ sep @ js_join sep (y # xs)"

abbreviation (input) newline :: string where
  "newline \<equiv> [CHR 10]"

abbreviation (input) blank_line :: string where
  "blank_line \<equiv> [CHR 10, CHR 10]"

text \<open>Decimal printing of an integer, as in a template literal.\<close>

fun show_nat :: "nat \<Rightarrow> string" where
  "show_nat n =
     (if n < 10 then [char_of (48 + n)] else show_nat (n div 10) @ [char_of (48 + n mod 10)])"

declare show_nat.simps [simp del]

definition show_int :: "int \<Rightarrow> string" where
  "show_int i = (if i < 0 then ''-'' @ show_nat (nat (- i)) else show_nat (nat i))"

section \<open>Array operations\<close>

text \<open>\<open>Array.prototype.findIndex\<close>, with \<open>None\<close> for -1.\<close>

fun find_index :: "('a \<Rightarrow> bool) \<Rightarrow> 'a list \<Rightarrow> nat option" where
  "find_index P [] = None"
| "find_index P (x # xs) = (if P x then Some 0 else map_option Suc (find_index P xs))"

text \<open>The search from the last element towards the first that several loops make.\<close>

definition find_last_index :: "('a \<Rightarrow> bool) \<Rightarrow> 'a list \<Rightarrow> nat option" where
  "find_last_index P xs = map_option (\<lambda>i. length xs - 1 - i) (find_index P (rev xs))"

definition js_last :: "'a list \<Rightarrow> 'a option" where
  "js_last xs = (if xs = [] then None else Some (last xs))"

definition js_at :: "'a list \<Rightarrow> nat \<Rightarrow> 'a option" where
  "js_at xs i = (if i < length xs then Some (xs ! i) else None)"

definition js_slice :: "nat \<Rightarrow> nat \<Rightarrow> 'a list \<Rightarrow> 'a list" where
  "js_slice i j xs = take (j - i) (drop i xs)"

section \<open>Shared lemmas\<close>

lemma find_index_SomeD: "find_index P xs = Some i \<Longrightarrow> i < length xs \<and> P (xs ! i)"
  by (induction xs arbitrary: i) (auto split: if_splits)

lemma find_index_Some_before: "find_index P xs = Some i \<Longrightarrow> j < i \<Longrightarrow> \<not> P (xs ! j)"
proof (induction xs arbitrary: i j)
  case (Cons x xs)
  then show ?case by (cases j) (auto split: if_splits)
qed simp

lemma find_index_SomeI: "i < length xs \<Longrightarrow> P (xs ! i) \<Longrightarrow> (\<And>j. j < i \<Longrightarrow> \<not> P (xs ! j)) \<Longrightarrow> find_index P xs = Some i"
proof (induction xs arbitrary: i)
  case (Cons x xs)
  show ?case
  proof (cases i)
    case (Suc k)
    have "find_index P xs = Some k" using Cons.prems Suc by (intro Cons.IH) force+
    then show ?thesis using Cons.prems(3) [of 0] Suc by simp
  qed (use Cons.prems in simp)
qed simp

lemma find_index_None_iff: "find_index P xs = None \<longleftrightarrow> (\<forall>x\<in>set xs. \<not> P x)"
  by (induction xs) auto

lemma find_last_index_SomeD:
  assumes "find_last_index P xs = Some i"
  shows "i < length xs \<and> P (xs ! i)"
proof -
  obtain k where k: "find_index P (rev xs) = Some k" and i: "i = length xs - 1 - k"
    using assms by (auto simp: find_last_index_def)
  then show ?thesis using find_index_SomeD[OF k] by (auto simp: rev_nth)
qed

lemma find_last_index_after:
  assumes "find_last_index P xs = Some i" and "i < j" and "j < length xs"
  shows "\<not> P (xs ! j)"
proof -
  obtain k where k: "find_index P (rev xs) = Some k" and i: "i = length xs - 1 - k"
    using assms(1) by (auto simp: find_last_index_def)
  have len: "k < length xs" using find_index_SomeD[OF k] by simp
  have "\<not> P (rev xs ! (length xs - 1 - j))"
    by (rule find_index_Some_before[OF k]) (use assms(2,3) i len in simp)
  then show ?thesis using assms(3) by (simp add: rev_nth)
qed

lemma find_last_index_None_iff: "find_last_index P xs = None \<longleftrightarrow> (\<forall>x\<in>set xs. \<not> P x)"
  by (simp add: find_last_index_def find_index_None_iff)

lemma js_last_append [simp]: "js_last (xs @ [x]) = Some x"
  by (simp add: js_last_def)

lemma js_last_Nil [simp]: "js_last [] = None"
  by (simp add: js_last_def)

lemma js_last_in_set: "js_last xs = Some x \<Longrightarrow> x \<in> set xs"
  by (auto simp: js_last_def split: if_splits)

lemma js_at_Some_iff: "js_at xs i = Some x \<longleftrightarrow> i < length xs \<and> xs ! i = x"
  by (auto simp: js_at_def)

lemma length_js_slice [simp]: "length (js_slice i j xs) = min (j - i) (length xs - i)"
  by (simp add: js_slice_def)

lemma js_slice_append:
  assumes "i \<le> j" and "j \<le> k"
  shows "js_slice i j xs @ js_slice j k xs = js_slice i k xs"
proof -
  have "take (k - i) (drop i xs) =
      take (j - i) (drop i xs) @ take (k - i - (j - i)) (drop (j - i) (drop i xs))"
    by (metis assms add.commute le_add_diff_inverse2 diff_le_mono take_add)
  then show ?thesis using assms by (simp add: js_slice_def add.commute)
qed

lemma js_slice_full [simp]: "js_slice 0 (length xs) xs = xs"
  by (simp add: js_slice_def)

lemma map_filter_append:
  "List.map_filter f (xs @ ys) = List.map_filter f xs @ List.map_filter f ys"
  by (simp add: map_filter_def)

lemma AList_update_fresh: "k \<notin> fst ` set m \<Longrightarrow> AList.update k v m = m @ [(k, v)]"
  by (induction m) auto

section \<open>JSON text\<close>

text \<open>
  \<open>JSON.stringify\<close>: a property whose value is \<open>undefined\<close> is left out of an object and printed
  as \<open>null\<close> in an array. At the top level \<open>undefined\<close> has no text; a template literal prints it
  as the word.
\<close>

definition hex_digit :: "nat \<Rightarrow> char" where
  "hex_digit n = char_of (if n < 10 then 48 + n else 87 + n)"

definition json_escape :: "char \<Rightarrow> string" where
  "json_escape c = (let n = (of_char c :: nat) in
     if n = 34 then [CHR 92, CHR 34] else if n = 92 then [CHR 92, CHR 92]
     else if n = 8 then [CHR 92, CHR ''b''] else if n = 9 then [CHR 92, CHR ''t'']
     else if n = 10 then [CHR 92, CHR ''n''] else if n = 12 then [CHR 92, CHR ''f'']
     else if n = 13 then [CHR 92, CHR ''r'']
     else if n < 32 then [CHR 92] @ ''u00'' @ [hex_digit (n div 16), hex_digit (n mod 16)]
     else [c])"

definition json_quote :: "string \<Rightarrow> string" where
  "json_quote s = [CHR 34] @ concat (map json_escape s) @ [CHR 34]"

fun json_stringify :: "json \<Rightarrow> string" where
  "json_stringify JUndefined = ''undefined''"
| "json_stringify JNull = ''null''"
| "json_stringify (JBool b) = (if b then ''true'' else ''false'')"
| "json_stringify (JNum n) = n"
| "json_stringify (JStr s) = json_quote s"
| "json_stringify (JArr vs) =
     ''['' @ js_join '','' (map (\<lambda>v. if v = JUndefined then ''null'' else json_stringify v) vs) @ '']''"
| "json_stringify (JObj kvs) =
     ''{'' @ js_join '',''
       (map (\<lambda>(k, v). json_quote k @ '':'' @ json_stringify v) (filter (\<lambda>(k, v). v \<noteq> JUndefined) kvs)) @ ''}''"

end
