(* ===== verification/Messages.thy ===== *)
theory Messages
  imports Prelude
begin

text \<open>
  The message types of \<open>packages/ai/src/types.ts\<close>, the coding agent's own message types and
  their conversion to provider messages (\<open>packages/coding-agent/src/core/messages.ts\<close>), and
  the tool and event types of \<open>packages/agent/src/types.ts\<close>.

  Optional fields no modelled function reads (signatures, response ids, diagnostics) are kept
  together as one JSON value. Timestamps are milliseconds since the epoch; an ISO string and the
  number \<open>new Date(iso).getTime()\<close> are the same value here.
\<close>

section \<open>Content blocks and provider messages\<close>

datatype part =
    TextPart (part_text: string) (part_signature: "string option")
  | ImagePart (part_data: string) (part_mimeType: string)

datatype user_content = CString string | CParts "part list"

record tool_call =
  tc_id :: string
  tc_name :: string
  tc_arguments :: "(string \<times> json) list"
  tc_thoughtSignature :: "string option"

datatype block =
    TextBlock string "string option"
  | ThinkingBlock string "string option" bool
  | ToolCallBlock tool_call

record usage_cost =
  cost_input :: rat
  cost_output :: rat
  cost_cacheRead :: rat
  cost_cacheWrite :: rat
  cost_total :: rat

record usage =
  u_input :: nat
  u_output :: nat
  u_cacheRead :: nat
  u_cacheWrite :: nat
  u_totalTokens :: nat
  u_cost :: usage_cost

datatype stop_reason = StopStop | StopLength | StopToolUse | StopError | StopAborted

record user_message =
  um_content :: user_content
  um_timestamp :: int

record assistant_message =
  am_content :: "block list"
  am_api :: string
  am_provider :: string
  am_model :: string
  am_extra :: json
  am_usage :: usage
  am_stopReason :: stop_reason
  am_errorMessage :: "string option"
  am_timestamp :: int

record tool_result_message =
  tr_toolCallId :: string
  tr_toolName :: string
  tr_content :: "part list"
  tr_details :: json
  tr_isError :: bool
  tr_timestamp :: int

section \<open>The coding agent's message types\<close>

record bash_execution_message =
  be_command :: string
  be_output :: string
  be_exitCode :: "int option"
  be_cancelled :: bool
  be_truncated :: bool
  be_fullOutputPath :: "string option"
  be_timestamp :: int
  be_excludeFromContext :: bool

record custom_message =
  cm_customType :: string
  cm_content :: user_content
  cm_display :: bool
  cm_details :: json
  cm_timestamp :: int

record branch_summary_message =
  bs_summary :: string
  bs_fromId :: string
  bs_timestamp :: int

record compaction_summary_message =
  cs_summary :: string
  cs_tokensBefore :: nat
  cs_timestamp :: int

text \<open>
  \<open>HookMsg\<close> is the role \<open>hookMessage\<close> that session files older than version 3 carry and
  the migration renames; no later code produces it.
\<close>

datatype agent_message =
    UserMsg user_message
  | AssistantMsg assistant_message
  | ToolResultMsg tool_result_message
  | BashExecutionMsg bash_execution_message
  | CustomMsg custom_message
  | BranchSummaryMsg branch_summary_message
  | CompactionSummaryMsg compaction_summary_message
  | HookMsg custom_message

fun is_llm_message :: "agent_message \<Rightarrow> bool" where
  "is_llm_message (UserMsg _) = True"
| "is_llm_message (AssistantMsg _) = True"
| "is_llm_message (ToolResultMsg _) = True"
| "is_llm_message _ = False"

fun is_assistant :: "agent_message \<Rightarrow> bool" where
  "is_assistant (AssistantMsg _) = True"
| "is_assistant _ = False"

fun tool_calls_of :: "block list \<Rightarrow> tool_call list" where
  "tool_calls_of [] = []"
| "tool_calls_of (ToolCallBlock tc # bs) = tc # tool_calls_of bs"
| "tool_calls_of (_ # bs) = tool_calls_of bs"

section \<open>Tool results and loop events\<close>

record agent_tool_result =
  atr_content :: "part list"
  atr_details :: json
  atr_terminate :: "bool option"

text \<open>
  \<open>EvUpdate\<close> groups the nine incremental events, from \<open>text_start\<close> to \<open>toolcall_end\<close>:
  the agent loop handles them in one branch and reads only their \<open>partial\<close> message.
\<close>

datatype update_kind =
    TextStart nat
  | TextDelta nat string
  | TextEnd nat string
  | ThinkingStart nat
  | ThinkingDelta nat string
  | ThinkingEnd nat string
  | ToolcallStart nat
  | ToolcallDelta nat string
  | ToolcallEnd nat tool_call

datatype assistant_event =
    EvStart assistant_message
  | EvUpdate update_kind assistant_message
  | EvDone stop_reason assistant_message
  | EvError stop_reason assistant_message

datatype agent_event =
    AgentStart
  | AgentEnd "agent_message list"
  | TurnStart
  | TurnEnd agent_message "tool_result_message list"
  | MessageStart agent_message
  | MessageUpdate assistant_event agent_message
  | MessageEnd agent_message
  | ToolExecutionStart string string "(string \<times> json) list"
  | ToolExecutionUpdate string string "(string \<times> json) list" agent_tool_result
  | ToolExecutionEnd string string agent_tool_result bool

section \<open>Conversion to provider messages\<close>

definition stripIdempotentPrefix :: "string \<Rightarrow> string" where
  "stripIdempotentPrefix text =
     (if js_lower (take 12 text) = ''[idempotent]'' then dropWhile is_js_space (drop 12 text)
      else text)"

fun strip_part :: "part \<Rightarrow> part" where
  "strip_part (TextPart t sig) =
     (let text = stripIdempotentPrefix t in if text = t then TextPart t sig else TextPart text sig)"
| "strip_part (ImagePart d m) = ImagePart d m"

definition stripIdempotentToolResult :: "tool_result_message \<Rightarrow> tool_result_message" where
  "stripIdempotentToolResult m =
     (let content = map strip_part (tr_content m)
      in if content \<noteq> tr_content m then m\<lparr>tr_content := content\<rparr> else m)"

definition COMPACTION_SUMMARY_PREFIX :: string where
  "COMPACTION_SUMMARY_PREFIX =
     ''The conversation history before this point was compacted into the following summary:'' @
     blank_line @ ''<summary>'' @ newline"

definition COMPACTION_SUMMARY_SUFFIX :: string where
  "COMPACTION_SUMMARY_SUFFIX = newline @ ''</summary>''"

definition BRANCH_SUMMARY_PREFIX :: string where
  "BRANCH_SUMMARY_PREFIX =
     ''The following is a summary of a branch that this conversation came back from:'' @
     blank_line @ ''<summary>'' @ newline"

definition BRANCH_SUMMARY_SUFFIX :: string where
  "BRANCH_SUMMARY_SUFFIX = ''</summary>''"

definition fence :: string where
  "fence = replicate 3 (CHR 96)"

definition bashExecutionToText :: "bash_execution_message \<Rightarrow> string" where
  "bashExecutionToText msg =
     ''Ran '' @ [CHR 96] @ be_command msg @ [CHR 96] @ newline @
     (if be_output msg \<noteq> '''' then fence @ newline @ be_output msg @ newline @ fence
      else ''(no output)'') @
     (if be_cancelled msg then blank_line @ ''(command cancelled)''
      else (case be_exitCode msg of
          Some code \<Rightarrow>
            (if code \<noteq> 0 then blank_line @ ''Command exited with code '' @ show_int code else '''')
        | None \<Rightarrow> '''')) @
     (case be_fullOutputPath msg of
        Some path \<Rightarrow>
          (if be_truncated msg \<and> path \<noteq> ''''
           then blank_line @ ''[Output truncated. Full output: '' @ path @ '']'' else '''')
      | None \<Rightarrow> '''')"

definition createBranchSummaryMessage :: "string \<Rightarrow> string \<Rightarrow> int \<Rightarrow> agent_message" where
  "createBranchSummaryMessage summary fromId ts =
     BranchSummaryMsg \<lparr>bs_summary = summary, bs_fromId = fromId, bs_timestamp = ts\<rparr>"

definition createCompactionSummaryMessage :: "string \<Rightarrow> nat \<Rightarrow> int \<Rightarrow> agent_message" where
  "createCompactionSummaryMessage summary tokensBefore ts =
     CompactionSummaryMsg \<lparr>cs_summary = summary, cs_tokensBefore = tokensBefore, cs_timestamp = ts\<rparr>"

definition createCustomMessage ::
  "string \<Rightarrow> user_content \<Rightarrow> bool \<Rightarrow> json \<Rightarrow> int \<Rightarrow> agent_message" where
  "createCustomMessage customType content display details ts =
     CustomMsg \<lparr>cm_customType = customType, cm_content = content, cm_display = display,
       cm_details = details, cm_timestamp = ts\<rparr>"

definition text_user_message :: "string \<Rightarrow> int \<Rightarrow> agent_message" where
  "text_user_message text ts =
     UserMsg \<lparr>um_content = CParts [TextPart text None], um_timestamp = ts\<rparr>"

fun convert_message :: "agent_message \<Rightarrow> agent_message option" where
  "convert_message (BashExecutionMsg m) =
     (if be_excludeFromContext m then None
      else Some (text_user_message (bashExecutionToText m) (be_timestamp m)))"
| "convert_message (CustomMsg m) =
     Some (UserMsg \<lparr>um_content =
         (case cm_content m of CString s \<Rightarrow> CParts [TextPart s None] | CParts ps \<Rightarrow> CParts ps),
       um_timestamp = cm_timestamp m\<rparr>)"
| "convert_message (BranchSummaryMsg m) =
     Some (text_user_message (BRANCH_SUMMARY_PREFIX @ bs_summary m @ BRANCH_SUMMARY_SUFFIX)
       (bs_timestamp m))"
| "convert_message (CompactionSummaryMsg m) =
     Some (text_user_message (COMPACTION_SUMMARY_PREFIX @ cs_summary m @ COMPACTION_SUMMARY_SUFFIX)
       (cs_timestamp m))"
| "convert_message (UserMsg m) = Some (UserMsg m)"
| "convert_message (AssistantMsg m) = Some (AssistantMsg m)"
| "convert_message (ToolResultMsg m) = Some (ToolResultMsg (stripIdempotentToolResult m))"
| "convert_message (HookMsg m) = None"

definition convertToLlm :: "agent_message list \<Rightarrow> agent_message list" where
  "convertToLlm messages = List.map_filter convert_message messages"

section \<open>Lemmas\<close>

lemma convert_message_is_llm: "convert_message m = Some m' \<Longrightarrow> is_llm_message m'"
  by (cases m) (auto simp: text_user_message_def split: if_splits)

lemma convertToLlm_append: "convertToLlm (xs @ ys) = convertToLlm xs @ convertToLlm ys"
  by (simp add: convertToLlm_def map_filter_append)

lemma strip_part_text [simp]: "strip_part (TextPart t sig) = TextPart (stripIdempotentPrefix t) sig"
  by (simp add: Let_def)

lemma stripIdempotentToolResult_content [simp]:
  "tr_content (stripIdempotentToolResult m) = map strip_part (tr_content m)"
  by (simp add: stripIdempotentToolResult_def Let_def)

lemma stripIdempotentToolResult_id [simp]:
  "tr_toolCallId (stripIdempotentToolResult m) = tr_toolCallId m"
  "tr_isError (stripIdempotentToolResult m) = tr_isError m"
  by (simp_all add: stripIdempotentToolResult_def Let_def)

lemma tool_calls_of_append: "tool_calls_of (xs @ ys) = tool_calls_of xs @ tool_calls_of ys"
  by (induction xs rule: tool_calls_of.induct) auto

lemma tool_calls_of_iff: "tc \<in> set (tool_calls_of bs) \<longleftrightarrow> ToolCallBlock tc \<in> set bs"
  by (induction bs rule: tool_calls_of.induct) auto

end
