(* ===== verification/Session.thy ===== *)
theory Session
  imports Messages
begin

text \<open>
  Session entries, their migrations and the session context
  (\<open>packages/coding-agent/src/core/session-manager.ts\<close>, the functions outside the class).

  A session is an append-only list of entries, each naming its parent; a leaf selects the path
  from the root that becomes the model's context. The walk from a leaf to the root is a loop that
  ends only when the parent chain does, so it is a \<^theory_text>\<open>partial_function\<close>: \<open>None\<close> is a
  walk that never ends.
\<close>

definition CURRENT_SESSION_VERSION :: nat where
  "CURRENT_SESSION_VERSION = 3"

record session_header =
  sh_version :: "nat option"
  sh_id :: string
  sh_timestamp :: int
  sh_cwd :: string
  sh_parentSession :: "string option"

record compaction_data =
  cp_summary :: string
  cp_firstKeptEntryId :: string
  cp_firstKeptEntryIndex :: "nat option" \<comment> \<open>only in files of version 1\<close>
  cp_tokensBefore :: nat
  cp_details :: json
  cp_fromHook :: bool

datatype entry_body =
    EMessage agent_message
  | EThinkingLevelChange string
  | EModelChange string string
  | ECompaction compaction_data
  | EBranchSummary string string json bool
  | ECustom string json
  | ECustomMessage string user_content json bool
  | ELabel string "string option"
  | ESessionInfo "string option"
  | EPromptMeta nat string "string option"

record session_entry =
  entry_id :: string
  parentId :: "string option"
  entry_timestamp :: int
  entry_body :: entry_body

datatype file_entry = FHeader session_header | FEntry session_entry

record session_context =
  ctx_messages :: "agent_message list"
  ctx_thinkingLevel :: string
  ctx_model :: "(string \<times> string) option"

fun is_compaction :: "entry_body \<Rightarrow> bool" where
  "is_compaction (ECompaction _) = True"
| "is_compaction _ = False"

fun is_label :: "entry_body \<Rightarrow> bool" where
  "is_label (ELabel _ _) = True"
| "is_label _ = False"

fun is_header :: "file_entry \<Rightarrow> bool" where
  "is_header (FHeader _) = True"
| "is_header (FEntry _) = False"

fun entryIsAssistant :: "file_entry \<Rightarrow> bool" where
  "entryIsAssistant (FEntry e) =
     (case entry_body e of EMessage m \<Rightarrow> is_assistant m | _ \<Rightarrow> False)"
| "entryIsAssistant (FHeader _) = False"

definition session_entries :: "file_entry list \<Rightarrow> session_entry list" where
  "session_entries fs = List.map_filter (\<lambda>f. case f of FHeader _ \<Rightarrow> None | FEntry e \<Rightarrow> Some e) fs"

section \<open>Identifiers\<close>

definition is_alnum :: "char \<Rightarrow> bool" where
  "is_alnum c = (let n = (of_char c :: nat) in
     (48 \<le> n \<and> n \<le> 57) \<or> (65 \<le> n \<and> n \<le> 90) \<or> (97 \<le> n \<and> n \<le> 122))"

definition is_id_char :: "char \<Rightarrow> bool" where
  "is_id_char c = (is_alnum c \<or> c \<in> {CHR ''.'', CHR ''_'', CHR ''-''})"

text \<open>
  The anchored expression \<open>[A-Za-z0-9](?:[A-Za-z0-9._-]*[A-Za-z0-9])?\<close>: a non-empty string of
  identifier characters whose first and last characters are alphanumeric.
\<close>

definition assertValidSessionId :: "string \<Rightarrow> string + unit" where
  "assertValidSessionId sid =
     (if sid \<noteq> [] \<and> is_alnum (hd sid) \<and> is_alnum (last sid) \<and> list_all is_id_char sid then Inr ()
      else Inl (''Session id must be non-empty, contain only alphanumeric characters, '' @
        [CHR 39] @ ''-'' @ [CHR 39] @ '', '' @ [CHR 39] @ ''_'' @ [CHR 39] @ '', and '' @
        [CHR 39] @ ''.'' @ [CHR 39] @ '', and start and end with an alphanumeric character''))"

text \<open>
  \<open>randomUUID\<close> is the operating system's random source: the parameter \<open>uuid n\<close> is the result
  of the \<open>n\<close>-th call, and the counter of calls is threaded through the operations that draw.
\<close>

fun generateId_loop :: "(nat \<Rightarrow> string) \<Rightarrow> (string \<Rightarrow> bool) \<Rightarrow> nat \<Rightarrow> nat \<Rightarrow> string \<times> nat" where
  "generateId_loop uuid has 0 n = (uuid n, Suc n)"
| "generateId_loop uuid has (Suc k) n =
     (let i = take 8 (uuid n)
      in if \<not> has i then (i, Suc n) else generateId_loop uuid has k (Suc n))"

definition generateId :: "(nat \<Rightarrow> string) \<Rightarrow> (string \<Rightarrow> bool) \<Rightarrow> nat \<Rightarrow> string \<times> nat" where
  "generateId uuid has n = generateId_loop uuid has 100 n"

section \<open>Migrations\<close>

text \<open>
  The migration draws every id with an empty reserved set: the set \<open>ids\<close> of the source is never
  added to, so the collision check never rejects a draw.
\<close>

definition migrate_compaction_index :: "file_entry list \<Rightarrow> compaction_data \<Rightarrow> compaction_data" where
  "migrate_compaction_index entries c =
     (case cp_firstKeptEntryIndex c of
        None \<Rightarrow> c
      | Some k \<Rightarrow>
          (let c' = (case js_at entries k of
               Some (FEntry target) \<Rightarrow> c\<lparr>cp_firstKeptEntryId := entry_id target\<rparr>
             | _ \<Rightarrow> c)
           in c'\<lparr>cp_firstKeptEntryIndex := None\<rparr>))"

definition migrateV1_step ::
  "(nat \<Rightarrow> string) \<Rightarrow> nat \<Rightarrow> file_entry list \<times> string option \<times> nat
     \<Rightarrow> file_entry list \<times> string option \<times> nat" where
  "migrateV1_step uuid i = (\<lambda>(entries, prevId, n).
     (case entries ! i of
        FHeader h \<Rightarrow> (entries[i := FHeader (h\<lparr>sh_version := Some 2\<rparr>)], prevId, n)
      | FEntry e \<Rightarrow>
          (let (nid, n') = generateId uuid (\<lambda>_. False) n;
               e1 = e\<lparr>entry_id := nid, parentId := prevId\<rparr>;
               entries1 = entries[i := FEntry e1];
               e2 = (case entry_body e1 of
                  ECompaction c \<Rightarrow> e1\<lparr>entry_body := ECompaction (migrate_compaction_index entries1 c)\<rparr>
                | _ \<Rightarrow> e1)
           in (entries1[i := FEntry e2], Some nid, n'))))"

definition migrateV1ToV2 :: "(nat \<Rightarrow> string) \<Rightarrow> file_entry list \<Rightarrow> nat \<Rightarrow> file_entry list \<times> nat" where
  "migrateV1ToV2 uuid entries n =
     (let (entries', _, n') = fold (migrateV1_step uuid) [0..<length entries] (entries, None, n)
      in (entries', n'))"

fun rename_hook_role :: "agent_message \<Rightarrow> agent_message" where
  "rename_hook_role (HookMsg m) = CustomMsg m"
| "rename_hook_role m = m"

fun migrateV2_entry :: "file_entry \<Rightarrow> file_entry" where
  "migrateV2_entry (FHeader h) = FHeader (h\<lparr>sh_version := Some 3\<rparr>)"
| "migrateV2_entry (FEntry e) =
     (case entry_body e of
        EMessage m \<Rightarrow> FEntry (e\<lparr>entry_body := EMessage (rename_hook_role m)\<rparr>)
      | _ \<Rightarrow> FEntry e)"

definition migrateV2ToV3 :: "file_entry list \<Rightarrow> file_entry list" where
  "migrateV2ToV3 entries = map migrateV2_entry entries"

fun find_header :: "file_entry list \<Rightarrow> session_header option" where
  "find_header [] = None"
| "find_header (FHeader h # fs) = Some h"
| "find_header (FEntry _ # fs) = find_header fs"

definition session_version :: "file_entry list \<Rightarrow> nat" where
  "session_version entries =
     (case find_header entries of
        None \<Rightarrow> 1
      | Some h \<Rightarrow> (case sh_version h of None \<Rightarrow> 1 | Some v \<Rightarrow> v))"

definition migrateToCurrentVersion ::
  "(nat \<Rightarrow> string) \<Rightarrow> file_entry list \<Rightarrow> nat \<Rightarrow> bool \<times> file_entry list \<times> nat" where
  "migrateToCurrentVersion uuid entries n =
     (let version = session_version entries in
      if CURRENT_SESSION_VERSION \<le> version then (False, entries, n)
      else
        let (es, n') = (if version < 2 then migrateV1ToV2 uuid entries n else (entries, n));
            es' = (if version < 3 then migrateV2ToV3 es else es)
        in (True, es', n'))"

section \<open>Reading a session file\<close>

text \<open>
  A file is a list of lines. A line that is blank or not JSON is skipped, so a line is either the
  entry it parses to or malformed.
\<close>

datatype file_line = Line file_entry | Malformed

fun parseSessionEntryLine :: "file_line \<Rightarrow> file_entry option" where
  "parseSessionEntryLine (Line f) = Some f"
| "parseSessionEntryLine Malformed = None"

definition parseSessionEntries :: "file_line list \<Rightarrow> file_entry list" where
  "parseSessionEntries content = List.map_filter parseSessionEntryLine content"

definition loadEntriesFromFile :: "file_line list option \<Rightarrow> file_entry list" where
  "loadEntriesFromFile file =
     (case file of
        None \<Rightarrow> []
      | Some content \<Rightarrow>
          (let entries = parseSessionEntries content in
           case entries of
             [] \<Rightarrow> entries
           | header # _ \<Rightarrow> (if is_header header then entries else [])))"

section \<open>Building the session context\<close>

text \<open>\<open>current.parentId ? byId.get(current.parentId) : undefined\<close>: an empty id is falsy.\<close>

definition parent_of :: "(string \<Rightarrow> session_entry option) \<Rightarrow> session_entry \<Rightarrow> session_entry option" where
  "parent_of get e =
     (case parentId e of None \<Rightarrow> None | Some p \<Rightarrow> (if p = '''' then None else get p))"

partial_function (option) walk ::
  "(string \<Rightarrow> session_entry option) \<Rightarrow> session_entry option \<Rightarrow> session_entry list
     \<Rightarrow> session_entry list option" where
  "walk get current path =
     (case current of
        None \<Rightarrow> Some path
      | Some e \<Rightarrow> walk get (parent_of get e) (e # path))"

declare walk.simps [code]

record context_settings =
  cs_thinkingLevel :: string
  cs_model :: "(string \<times> string) option"
  cs_compaction :: "(string \<times> int \<times> compaction_data) option"

definition initial_settings :: context_settings where
  "initial_settings = \<lparr>cs_thinkingLevel = ''off'', cs_model = None, cs_compaction = None\<rparr>"

definition settings_step :: "session_entry \<Rightarrow> context_settings \<Rightarrow> context_settings" where
  "settings_step e s =
     (case entry_body e of
        EThinkingLevelChange level \<Rightarrow> s\<lparr>cs_thinkingLevel := level\<rparr>
      | EModelChange provider modelId \<Rightarrow> s\<lparr>cs_model := Some (provider, modelId)\<rparr>
      | EMessage (AssistantMsg m) \<Rightarrow> s\<lparr>cs_model := Some (am_provider m, am_model m)\<rparr>
      | ECompaction c \<Rightarrow> s\<lparr>cs_compaction := Some (entry_id e, entry_timestamp e, c)\<rparr>
      | _ \<Rightarrow> s)"

definition entry_messages :: "session_entry \<Rightarrow> agent_message list" where
  "entry_messages e =
     (case entry_body e of
        EMessage m \<Rightarrow> [m]
      | ECustomMessage customType content details display \<Rightarrow>
          [createCustomMessage customType content display details (entry_timestamp e)]
      | EBranchSummary fromId summary _ _ \<Rightarrow>
          (if summary \<noteq> '''' then [createBranchSummaryMessage summary fromId (entry_timestamp e)]
           else [])
      | _ \<Rightarrow> [])"

text \<open>
  The loop over the entries before the compaction: it appends nothing until it meets
  \<open>firstKeptEntryId\<close>, and every entry from there on.
\<close>

fun kept_messages :: "string \<Rightarrow> bool \<Rightarrow> session_entry list \<Rightarrow> agent_message list" where
  "kept_messages firstKept found [] = []"
| "kept_messages firstKept found (e # es) =
     (let found' = (found \<or> entry_id e = firstKept)
      in (if found' then entry_messages e else []) @ kept_messages firstKept found' es)"

definition path_messages :: "session_entry list \<Rightarrow> agent_message list" where
  "path_messages path =
     (case cs_compaction (fold settings_step path initial_settings) of
        None \<Rightarrow> concat (map entry_messages path)
      | Some (cid, ts, c) \<Rightarrow>
          (let idx = (case find_index (\<lambda>e. is_compaction (entry_body e) \<and> entry_id e = cid) path of
                 Some k \<Rightarrow> int k | None \<Rightarrow> -1)
           in createCompactionSummaryMessage (cp_summary c) (cp_tokensBefore c) ts #
              kept_messages (cp_firstKeptEntryId c) False (take (nat idx) path) @
              concat (map entry_messages (drop (nat (idx + 1)) path))))"

definition path_context :: "session_entry list \<Rightarrow> session_context" where
  "path_context path =
     (let s = fold settings_step path initial_settings
      in \<lparr>ctx_messages = path_messages path, ctx_thinkingLevel = cs_thinkingLevel s,
          ctx_model = cs_model s\<rparr>)"

definition empty_context :: session_context where
  "empty_context = \<lparr>ctx_messages = [], ctx_thinkingLevel = ''off'', ctx_model = None\<rparr>"

text \<open>The argument \<open>leafId?: string | null\<close>.\<close>

datatype leaf_arg = LeafUndefined | LeafNull | LeafId string

text \<open>
  \<open>byId\<close> is the optional third argument; without it the index is built from the entries, a later
  entry replacing an earlier one with the same id.
\<close>

definition index_entries :: "session_entry list \<Rightarrow> (string \<times> session_entry) list" where
  "index_entries entries = fold (\<lambda>e. AList.update (entry_id e) e) entries []"

definition buildSessionContext ::
  "session_entry list \<Rightarrow> leaf_arg \<Rightarrow> (string \<times> session_entry) list option \<Rightarrow> session_context option" where
  "buildSessionContext entries leafId byId =
     (let get = map_of (case byId of Some m \<Rightarrow> m | None \<Rightarrow> index_entries entries) in
      case leafId of
        LeafNull \<Rightarrow> Some empty_context
      | _ \<Rightarrow>
          (let found = (case leafId of LeafId i \<Rightarrow> (if i \<noteq> '''' then get i else None) | _ \<Rightarrow> None);
               leaf = (case found of Some e \<Rightarrow> Some e | None \<Rightarrow> js_last entries)
           in case leaf of
                None \<Rightarrow> Some empty_context
              | Some e \<Rightarrow> map_option path_context (walk get (Some e) [])))"

definition getLatestCompactionEntry :: "session_entry list \<Rightarrow> session_entry option" where
  "getLatestCompactionEntry entries =
     map_option (\<lambda>i. entries ! i) (find_last_index (\<lambda>e. is_compaction (entry_body e)) entries)"

definition buildPromptIdByUserTimestamp :: "session_entry list \<Rightarrow> (int \<times> string) list" where
  "buildPromptIdByUserTimestamp branch =
     fst (fold (\<lambda>e (m, pending).
       (case entry_body e of
          EPromptMeta _ promptId _ \<Rightarrow> (m, Some promptId)
        | EMessage (UserMsg u) \<Rightarrow>
            (case pending of
               Some pid \<Rightarrow> (if pid \<noteq> '''' then (AList.update (um_timestamp u) pid m, None) else (m, pending))
             | None \<Rightarrow> (m, pending))
        | _ \<Rightarrow> (m, pending))) branch ([], None))"

section \<open>Walking to the root\<close>

text \<open>
  What the walk returns, as a property of the returned list: it starts at an entry without a
  parent, and each entry is the parent of the next.
\<close>

definition root_path :: "(string \<Rightarrow> session_entry option) \<Rightarrow> session_entry list \<Rightarrow> bool" where
  "root_path get path \<longleftrightarrow> path \<noteq> [] \<and> parent_of get (hd path) = None \<and>
     (\<forall>k. Suc k < length path \<longrightarrow> parent_of get (path ! Suc k) = Some (path ! k))"

lemma walk_None [simp]: "walk get None path = Some path"
  by (simp add: walk.simps)

lemma walk_Some: "walk get (Some e) path = walk get (parent_of get e) (e # path)"
  by (subst walk.simps) simp

text \<open>
  A walk that returns pushes the ancestors in front of the accumulator, whatever the accumulator
  is, and reads only the parents of the entries it returns.
\<close>

lemma walk_agree_aux:
  assumes ret: "walk get current path = Some r"
  shows "\<exists>p. r = p @ path \<and> ((\<forall>e\<in>set p. parent_of get' e = parent_of get e) \<longrightarrow>
    (\<forall>acc. walk get' current acc = Some (p @ acc)))"
proof -
  have "get = get \<longrightarrow> (\<exists>p. r = p @ path \<and> ((\<forall>e\<in>set p. parent_of get' e = parent_of get e) \<longrightarrow>
      (\<forall>acc. walk get' current acc = Some (p @ acc))))"
  proof (rule walk.raw_induct [where P = "\<lambda>g current path r. g = get \<longrightarrow>
      (\<exists>p. r = p @ path \<and> ((\<forall>e\<in>set p. parent_of get' e = parent_of get e) \<longrightarrow>
        (\<forall>acc. walk get' current acc = Some (p @ acc))))", OF _ ret], intro impI)
    fix f g current path r
    assume IH: "\<And>g current path r. f g current path = Some r \<Longrightarrow> g = get \<longrightarrow>
        (\<exists>p. r = p @ path \<and> ((\<forall>e\<in>set p. parent_of get' e = parent_of get e) \<longrightarrow>
          (\<forall>acc. walk get' current acc = Some (p @ acc))))"
      and eq: "(case current of None \<Rightarrow> Some path | Some e \<Rightarrow> f g (parent_of g e) (e # path)) = Some r"
      and g: "g = get"
    show "\<exists>p. r = p @ path \<and> ((\<forall>e\<in>set p. parent_of get' e = parent_of get e) \<longrightarrow>
        (\<forall>acc. walk get' current acc = Some (p @ acc)))"
    proof (cases current)
      case None
      then show ?thesis using eq by simp
    next
      case (Some e)
      then obtain p where p: "r = p @ e # path"
        and agree: "(\<forall>e\<in>set p. parent_of get' e = parent_of get e) \<longrightarrow>
          (\<forall>acc. walk get' (parent_of get e) acc = Some (p @ acc))"
        using IH [of g "parent_of g e" "e # path" r] eq g by auto
      show ?thesis
        using p agree Some by (intro exI [of _ "p @ [e]"]) (auto simp: walk_Some)
    qed
  qed
  then show ?thesis by simp
qed

lemma walk_acc: "walk get current [] = Some p \<Longrightarrow> walk get current acc = Some (p @ acc)"
  using walk_agree_aux [of get current "[]" p get] by auto

lemma walk_agree:
  assumes "walk get current [] = Some p" and "\<forall>e\<in>set p. parent_of get' e = parent_of get e"
  shows "walk get' current [] = Some p"
  using walk_agree_aux [OF assms(1), of get'] assms(2) by auto

lemma walk_root [session_simps]: "parent_of get e = None \<Longrightarrow> walk get (Some e) acc = Some (e # acc)"
  by (simp add: walk_Some)

lemma walk_child [session_simps]:
  "parent_of get e = Some q \<Longrightarrow> walk get (Some q) [] = Some p \<Longrightarrow> walk get (Some e) [] = Some (p @ [e])"
  by (subst walk_Some) (simp add: walk_acc)

lemma root_path_singleton: "parent_of get e = None \<Longrightarrow> root_path get [e]"
  by (simp add: root_path_def)

lemma root_path_snoc:
  assumes "root_path get p" and "parent_of get e = Some (last p)"
  shows "root_path get (p @ [e])"
proof -
  have ne: "p \<noteq> []" using assms(1) by (simp add: root_path_def)
  have "parent_of get ((p @ [e]) ! Suc k) = Some ((p @ [e]) ! k)" if "Suc k < length (p @ [e])" for k
  proof (cases "Suc k < length p")
    case True
    then show ?thesis using assms(1) by (simp add: root_path_def nth_append)
  next
    case False
    then have k: "Suc k = length p" using that by simp
    then have "(p @ [e]) ! k = last p" using ne by (simp add: nth_append last_conv_nth flip: k)
    then show ?thesis using assms(2) k by (simp add: nth_append)
  qed
  then show ?thesis using assms(1) ne by (simp add: root_path_def)
qed

text \<open>
  The contract a store of entries gives the walk: while its invariant holds, a lookup returns the
  entry with that id, and a parent that is stored comes before its child in some order. That is
  enough for the walk to return. A \<open>closed_forest\<close> also stores every parent it names, so that
  adding entries cannot change a walk.
\<close>

locale parent_forest =
  fixes invar :: "'st \<Rightarrow> bool"
    and lookup :: "'st \<Rightarrow> string \<Rightarrow> session_entry option"
    and rank :: "'st \<Rightarrow> string \<Rightarrow> nat"
  assumes lookup_id: "invar s \<Longrightarrow> lookup s i = Some e \<Longrightarrow> entry_id e = i"
    and rank_parent: "invar s \<Longrightarrow> lookup s i = Some e \<Longrightarrow> parentId e = Some p \<Longrightarrow>
      lookup s p = Some q \<Longrightarrow> p \<noteq> '''' \<Longrightarrow> rank s p < rank s i"
begin

lemma parent_of_lookup:
  assumes "invar s" and "lookup s i = Some e"
  shows "parent_of (lookup s) e = None \<or>
    (\<exists>p q. parentId e = Some p \<and> lookup s p = Some q \<and> parent_of (lookup s) e = Some q
      \<and> rank s p < rank s i)"
  using rank_parent [OF assms] by (cases "parentId e") (auto simp: parent_of_def)

lemma walk_returns:
  assumes "invar s" and "lookup s i = Some e"
  shows "\<exists>p. walk (lookup s) (Some e) [] = Some p \<and> root_path (lookup s) p \<and> last p = e \<and>
    (\<forall>x\<in>set p. lookup s (entry_id x) = Some x \<and> rank s (entry_id x) \<le> rank s i)"
  using assms
proof (induction "rank s i" arbitrary: i e rule: less_induct)
  case less
  have id: "entry_id e = i" using lookup_id less.prems by blast
  from parent_of_lookup [OF less.prems] show ?case
  proof (elim disjE exE conjE)
    assume "parent_of (lookup s) e = None"
    then show ?thesis using id less.prems(2)
      by (intro exI [of _ "[e]"]) (simp add: walk_root root_path_singleton)
  next
    fix q r
    assume q: "lookup s q = Some r" and par: "parent_of (lookup s) e = Some r"
      and lt: "rank s q < rank s i"
    obtain p where p: "walk (lookup s) (Some r) [] = Some p" "root_path (lookup s) p" "last p = r"
      and mem: "\<forall>x\<in>set p. lookup s (entry_id x) = Some x \<and> rank s (entry_id x) \<le> rank s q"
      using less.hyps [OF lt less.prems(1) q] by blast
    have "root_path (lookup s) (p @ [e])" using root_path_snoc [OF p(2)] par p(3) by simp
    then show ?thesis using walk_child [OF par p(1)] mem lt id less.prems(2)
      by (intro exI [of _ "p @ [e]"]) auto
  qed
qed

lemma walk_total: "invar s \<Longrightarrow> lookup s i = Some e \<Longrightarrow> walk (lookup s) (Some e) [] \<noteq> None"
  using walk_returns by fastforce

lemma walk_last: "invar s \<Longrightarrow> lookup s i = Some e \<Longrightarrow> walk (lookup s) (Some e) [] = Some p \<Longrightarrow> last p = e"
  using walk_returns by fastforce

lemma walk_root_path:
  "invar s \<Longrightarrow> lookup s i = Some e \<Longrightarrow> walk (lookup s) (Some e) [] = Some p \<Longrightarrow> root_path (lookup s) p"
  using walk_returns by fastforce

lemma walk_members:
  assumes "invar s" and "lookup s i = Some e" and "walk (lookup s) (Some e) [] = Some p"
    and "x \<in> set p"
  shows "lookup s (entry_id x) = Some x \<and> rank s (entry_id x) \<le> rank s i"
  using walk_returns [OF assms(1,2)] assms(3,4) by auto

end

locale closed_forest = parent_forest +
  assumes parent_stored: "invar s \<Longrightarrow> lookup s i = Some e \<Longrightarrow> parentId e = Some p \<Longrightarrow>
    p \<noteq> '''' \<and> lookup s p \<noteq> None"
begin

lemma walk_extend:
  assumes "invar s" and "lookup s i = Some e" and "walk (lookup s) (Some e) [] = Some p"
    and ext: "\<And>j x. lookup s j = Some x \<Longrightarrow> get j = Some x"
  shows "walk get (Some e) [] = Some p"
proof (rule walk_agree [OF assms(3)], rule ballI)
  fix x assume "x \<in> set p"
  then have x: "lookup s (entry_id x) = Some x" using walk_members [OF assms(1-3)] by blast
  show "parent_of get x = parent_of (lookup s) x"
  proof (cases "parentId x")
    case None
    then show ?thesis by (simp add: parent_of_def)
  next
    case (Some q)
    then obtain y where "lookup s q = Some y" using parent_stored [OF assms(1) x] by auto
    then show ?thesis using Some ext by (simp add: parent_of_def)
  qed
qed

lemma walk_first_is_root:
  assumes "invar s" and "lookup s i = Some e" and "walk (lookup s) (Some e) [] = Some p"
  shows "parentId (hd p) = None"
proof -
  have rp: "root_path (lookup s) p" using walk_root_path assms by blast
  then have "hd p \<in> set p" and none: "parent_of (lookup s) (hd p) = None"
    by (simp_all add: root_path_def)
  then have "lookup s (entry_id (hd p)) = Some (hd p)" using walk_members [OF assms] by blast
  then show ?thesis using none parent_stored [OF assms(1)]
    by (cases "parentId (hd p)") (fastforce simp: parent_of_def)+
qed

end

section \<open>Messages along a path\<close>

lemma settings_compaction_step:
  "cs_compaction (settings_step e s) =
     (case entry_body e of ECompaction c \<Rightarrow> Some (entry_id e, entry_timestamp e, c) | _ \<Rightarrow> cs_compaction s)"
  by (auto simp: settings_step_def split: entry_body.splits agent_message.splits)

lemma settings_compaction_in_path:
  "cs_compaction (fold settings_step path s) = Some (cid, ts, c) \<Longrightarrow>
     cs_compaction s = Some (cid, ts, c) \<or>
     (\<exists>e\<in>set path. entry_body e = ECompaction c \<and> entry_id e = cid \<and> entry_timestamp e = ts)"
proof (induction path arbitrary: s)
  case (Cons e path)
  from Cons.IH [of "settings_step e s"] Cons.prems show ?case
    by (cases "entry_body e") (auto simp: settings_compaction_step)
qed simp

lemma find_index_append_Some: "find_index P xs = Some k \<Longrightarrow> find_index P (xs @ ys) = Some k"
  by (induction xs arbitrary: k) (auto split: if_splits)

lemma find_index_append_None:
  "find_index P xs = None \<Longrightarrow> find_index P (xs @ ys) = map_option ((+) (length xs)) (find_index P ys)"
  by (induction xs) (cases "find_index P ys", auto split: if_splits)+

lemma path_messages_snoc [session_simps]:
  assumes "\<not> is_compaction (entry_body e)"
  shows "path_messages (path @ [e]) = path_messages path @ entry_messages e"
proof -
  have same: "cs_compaction (fold settings_step (path @ [e]) initial_settings) =
      cs_compaction (fold settings_step path initial_settings)"
    using assms by (cases "entry_body e") (simp_all add: settings_compaction_step)
  show ?thesis
  proof (cases "cs_compaction (fold settings_step path initial_settings)")
    case None
    then show ?thesis using same by (simp add: path_messages_def)
  next
    case (Some t)
    obtain cid ts c where t: "t = (cid, ts, c)" by (cases t) auto
    let ?P = "\<lambda>e. is_compaction (entry_body e) \<and> entry_id e = cid"
    have "cs_compaction initial_settings = None" by (simp add: initial_settings_def)
    then obtain x where "x \<in> set path" and "?P x"
      using settings_compaction_in_path [of path initial_settings cid ts c] Some t by auto
    then obtain k where k: "find_index ?P path = Some k"
      using find_index_None_iff [of ?P path] by auto
    then have "k < length path" using find_index_SomeD by blast
    moreover have "find_index ?P (path @ [e]) = Some k" using k by (rule find_index_append_Some)
    ultimately show ?thesis using k Some t same
      by (simp add: path_messages_def nat_add_distrib)
  qed
qed

lemma path_messages_snoc_compaction [session_simps]:
  assumes "entry_body e = ECompaction c" and "\<forall>x\<in>set path. entry_id x \<noteq> entry_id e"
  shows "path_messages (path @ [e]) =
    createCompactionSummaryMessage (cp_summary c) (cp_tokensBefore c) (entry_timestamp e) #
    kept_messages (cp_firstKeptEntryId c) False path"
proof -
  let ?P = "\<lambda>x. is_compaction (entry_body x) \<and> entry_id x = entry_id e"
  have "find_index ?P path = None" using assms(2) by (auto simp: find_index_None_iff)
  then have "find_index ?P (path @ [e]) = Some (length path)"
    using assms(1) by (simp add: find_index_append_None)
  moreover have "cs_compaction (fold settings_step (path @ [e]) initial_settings) =
      Some (entry_id e, entry_timestamp e, c)"
    using assms(1) by (simp add: settings_compaction_step)
  ultimately show ?thesis by (simp add: path_messages_def nat_add_distrib)
qed

lemma path_messages_no_compaction:
  assumes "\<forall>e\<in>set path. \<not> is_compaction (entry_body e)"
  shows "path_messages path = concat (map entry_messages path)"
  using assms
  by (induction path rule: rev_induct)
    (auto simp: path_messages_snoc path_messages_def [of "[]"] initial_settings_def)

lemma kept_messages_found [simp]: "kept_messages k True path = concat (map entry_messages path)"
  by (induction path) auto

lemma kept_messages_split:
  assumes "\<forall>x\<in>set pre. entry_id x \<noteq> entry_id e"
  shows "kept_messages (entry_id e) False (pre @ e # post) = concat (map entry_messages (e # post))"
  using assms by (induction pre) auto

lemma kept_messages_absent:
  "\<forall>x\<in>set path. entry_id x \<noteq> k \<Longrightarrow> kept_messages k False path = []"
  by (induction path) auto

end
