(* ===== verification/SessionManager.thy ===== *)
theory SessionManager
  imports Session
begin

text \<open>
  The class \<open>SessionManager\<close> of \<open>packages/coding-agent/src/core/session-manager.ts\<close>: its
  fields, the disk it writes to, and one definition per method that changes state. The invariant
  relates the entry list, the index, the labels and the file, and every operation keeps it.

  The disk is a map from paths to lines. \<open>sm_appendFd\<close> is the path the append descriptor was
  opened on, and \<open>sm_draws\<close> counts the calls of \<open>randomUUID\<close>. An operation that reads the
  clock takes the time as an argument, and one that creates a session takes the id
  \<open>createSessionId\<close> returns; the environment record holds the random source and the rendering
  of a time in a file name. A method returns either the message of the error it throws or its
  value, together with the state it leaves behind in both cases.
\<close>

record sm_env =
  env_uuid :: "nat \<Rightarrow> string"
  env_fileTimestamp :: "int \<Rightarrow> string"

record sm_state =
  sm_sessionId :: string
  sm_sessionFile :: "string option"
  sm_sessionDir :: string
  sm_cwd :: string
  sm_persist :: bool
  sm_flushed :: bool
  sm_hasAssistant :: bool
  sm_appendFd :: "string option"
  sm_closeTimer :: bool
  sm_fileEntries :: "file_entry list"
  sm_byId :: "(string \<times> session_entry) list"
  sm_labelsById :: "(string \<times> string) list"
  sm_labelTimestampsById :: "(string \<times> int) list"
  sm_leafId :: "string option"
  sm_fs :: "string \<rightharpoonup> file_line list"
  sm_draws :: nat

type_synonym 'a sm_result = "(string + 'a) \<times> sm_state"

abbreviation get_entry :: "sm_state \<Rightarrow> string \<Rightarrow> session_entry option" where
  "get_entry s \<equiv> map_of (sm_byId s)"

definition getEntries :: "sm_state \<Rightarrow> session_entry list" where
  "getEntries s = session_entries (sm_fileEntries s)"

section \<open>Files\<close>

definition join_path :: "string \<Rightarrow> string \<Rightarrow> string" where
  "join_path dir name = (if dir = '''' then name else dir @ ''/'' @ name)"

definition session_path :: "sm_env \<Rightarrow> string \<Rightarrow> int \<Rightarrow> string \<Rightarrow> string" where
  "session_path env dir now sid =
     join_path dir (env_fileTimestamp env now @ ''_'' @ sid @ ''.jsonl'')"

definition closeAppendFd :: "sm_state \<Rightarrow> sm_state" where
  "closeAppendFd s = s\<lparr>sm_closeTimer := False, sm_appendFd := None\<rparr>"

definition writeJsonlChunk :: "file_line list \<Rightarrow> sm_state \<Rightarrow> sm_state" where
  "writeJsonlChunk chunk s =
     (case sm_sessionFile s of
        None \<Rightarrow> s
      | Some file \<Rightarrow>
          (let fd = (case sm_appendFd s of Some q \<Rightarrow> q | None \<Rightarrow> file);
               old = (case sm_fs s fd of Some ls \<Rightarrow> ls | None \<Rightarrow> [])
           in s\<lparr>sm_appendFd := Some fd, sm_fs := (sm_fs s)(fd \<mapsto> old @ chunk),
                sm_closeTimer := True\<rparr>))"

text \<open>The callback of \<open>setImmediate\<close>, and \<open>dispose\<close>.\<close>

definition closeTimerFires :: "sm_state \<Rightarrow> sm_state" where
  "closeTimerFires s = (if sm_closeTimer s then closeAppendFd s else s)"

definition dispose :: "sm_state \<Rightarrow> sm_state" where
  "dispose s = closeAppendFd s"

definition rewriteFile :: "sm_state \<Rightarrow> sm_state" where
  "rewriteFile s =
     (case sm_sessionFile s of
        Some file \<Rightarrow>
          (if sm_persist s
           then (let s1 = closeAppendFd s
                 in s1\<lparr>sm_fs := (sm_fs s1)(file \<mapsto> map Line (sm_fileEntries s1))\<rparr>)
           else s)
      | None \<Rightarrow> s)"

text \<open>\<open>openSync(path, "wx")\<close> fails when the file exists; the error leaves the method.\<close>

definition eexist :: string where
  "eexist = ''EEXIST: file already exists''"

definition persistBatch :: "session_entry list \<Rightarrow> sm_state \<Rightarrow> unit sm_result" where
  "persistBatch entries s =
     (case sm_sessionFile s of
        None \<Rightarrow> (Inr (), s)
      | Some file \<Rightarrow>
          (if \<not> sm_persist s \<or> entries = [] then (Inr (), s)
           else if \<not> sm_hasAssistant s then
             (if sm_flushed s then (Inr (), writeJsonlChunk (map (Line \<circ> FEntry) entries) s)
              else (Inr (), s\<lparr>sm_flushed := False\<rparr>))
           else if \<not> sm_flushed s then
             (let s1 = closeAppendFd s in
              case sm_fs s1 file of
                Some _ \<Rightarrow> (Inl eexist, s1)
              | None \<Rightarrow>
                  (Inr (), s1\<lparr>sm_fs := (sm_fs s1)(file \<mapsto> map Line (sm_fileEntries s1)),
                     sm_flushed := True\<rparr>))
           else (Inr (), writeJsonlChunk (map (Line \<circ> FEntry) entries) s)))"

section \<open>Index\<close>

text \<open>The label bookkeeping that \<open>_buildIndex\<close> and \<open>appendLabelChange\<close> share.\<close>

definition set_label :: "string \<Rightarrow> string option \<Rightarrow> int \<Rightarrow> sm_state \<Rightarrow> sm_state" where
  "set_label targetId label ts s =
     (case label of
        Some l \<Rightarrow>
          (if l \<noteq> '''' then s\<lparr>sm_labelsById := AList.update targetId l (sm_labelsById s),
               sm_labelTimestampsById := AList.update targetId ts (sm_labelTimestampsById s)\<rparr>
           else s\<lparr>sm_labelsById := AList.delete targetId (sm_labelsById s),
               sm_labelTimestampsById := AList.delete targetId (sm_labelTimestampsById s)\<rparr>)
      | None \<Rightarrow> s\<lparr>sm_labelsById := AList.delete targetId (sm_labelsById s),
             sm_labelTimestampsById := AList.delete targetId (sm_labelTimestampsById s)\<rparr>)"

definition index_entry :: "file_entry \<Rightarrow> sm_state \<Rightarrow> sm_state" where
  "index_entry f s =
     (case f of
        FHeader _ \<Rightarrow> s
      | FEntry e \<Rightarrow>
          (let s1 = s\<lparr>sm_byId := AList.update (entry_id e) e (sm_byId s),
                      sm_leafId := Some (entry_id e),
                      sm_hasAssistant := (sm_hasAssistant s \<or> entryIsAssistant f)\<rparr>
           in case entry_body e of
                ELabel targetId label \<Rightarrow> set_label targetId label (entry_timestamp e) s1
              | _ \<Rightarrow> s1))"

definition buildIndex :: "sm_state \<Rightarrow> sm_state" where
  "buildIndex s =
     fold index_entry (sm_fileEntries s)
       (s\<lparr>sm_byId := [], sm_labelsById := [], sm_labelTimestampsById := [], sm_leafId := None,
          sm_hasAssistant := False\<rparr>)"

section \<open>Creating and opening sessions\<close>

record new_session_options =
  opt_id :: "string option"
  opt_parentSession :: "string option"

definition newSession ::
  "sm_env \<Rightarrow> new_session_options \<Rightarrow> int \<Rightarrow> string \<Rightarrow> sm_state \<Rightarrow> string option sm_result" where
  "newSession env options now newId s0 =
     (let s = closeAppendFd s0 in
      case (case opt_id options of None \<Rightarrow> Inr () | Some i \<Rightarrow> assertValidSessionId i) of
        Inl e \<Rightarrow> (Inl e, s)
      | Inr _ \<Rightarrow>
          (let sid = (case opt_id options of Some i \<Rightarrow> i | None \<Rightarrow> newId);
               header = \<lparr>sh_version = Some CURRENT_SESSION_VERSION, sh_id = sid,
                  sh_timestamp = now, sh_cwd = sm_cwd s,
                  sh_parentSession = opt_parentSession options\<rparr>;
               s1 = s\<lparr>sm_sessionId := sid, sm_fileEntries := [FHeader header], sm_byId := [],
                  sm_labelsById := [], sm_leafId := None, sm_flushed := False,
                  sm_hasAssistant := False\<rparr>;
               s2 = (if sm_persist s1
                     then s1\<lparr>sm_sessionFile := Some (session_path env (sm_sessionDir s1) now sid)\<rparr>
                     else s1)
           in (Inr (sm_sessionFile s2), s2)))"

definition default_options :: new_session_options where
  "default_options = \<lparr>opt_id = None, opt_parentSession = None\<rparr>"

definition setSessionFile ::
  "sm_env \<Rightarrow> string \<Rightarrow> int \<Rightarrow> string \<Rightarrow> sm_state \<Rightarrow> unit sm_result" where
  "setSessionFile env file now newId s0 =
     (let s = (closeAppendFd s0)\<lparr>sm_sessionFile := Some file\<rparr> in
      case sm_fs s file of
        Some _ \<Rightarrow>
          (let entries = loadEntriesFromFile (sm_fs s file) in
           if entries = [] then
             (let s1 = snd (newSession env default_options now newId
                              (s\<lparr>sm_fileEntries := entries\<rparr>));
                  s2 = rewriteFile (s1\<lparr>sm_sessionFile := Some file\<rparr>)
              in (Inr (), s2\<lparr>sm_flushed := True\<rparr>))
           else
             (let sid = (case find_header entries of Some h \<Rightarrow> sh_id h | None \<Rightarrow> newId);
                  (migrated, entries', draws') =
                    migrateToCurrentVersion (env_uuid env) entries (sm_draws s);
                  s1 = s\<lparr>sm_fileEntries := entries', sm_sessionId := sid, sm_draws := draws'\<rparr>;
                  s2 = (if migrated then rewriteFile s1 else s1)
              in (Inr (), (buildIndex s2)\<lparr>sm_flushed := True\<rparr>)))
      | None \<Rightarrow>
          (let s1 = snd (newSession env default_options now newId s)
           in (Inr (), s1\<lparr>sm_sessionFile := Some file\<rparr>)))"

definition blank_state :: "string \<Rightarrow> string \<Rightarrow> bool \<Rightarrow> (string \<rightharpoonup> file_line list) \<Rightarrow> nat \<Rightarrow> sm_state" where
  "blank_state cwd dir persist fs draws =
     \<lparr>sm_sessionId = [], sm_sessionFile = None, sm_sessionDir = dir, sm_cwd = cwd,
      sm_persist = persist, sm_flushed = False, sm_hasAssistant = False, sm_appendFd = None,
      sm_closeTimer = False, sm_fileEntries = [], sm_byId = [], sm_labelsById = [],
      sm_labelTimestampsById = [], sm_leafId = None, sm_fs = fs, sm_draws = draws\<rparr>"

text \<open>The constructor, over the directory and working directory it has normalised.\<close>

definition construct ::
  "sm_env \<Rightarrow> string option \<Rightarrow> new_session_options \<Rightarrow> int \<Rightarrow> string \<Rightarrow> sm_state \<Rightarrow> unit sm_result" where
  "construct env sessionFile options now newId s =
     (case sessionFile of
        Some file \<Rightarrow>
          (if file \<noteq> [] then setSessionFile env file now newId s
           else (let (r, t) = newSession env options now newId s in (map_sum id (\<lambda>_. ()) r, t)))
      | None \<Rightarrow> (let (r, t) = newSession env options now newId s in (map_sum id (\<lambda>_. ()) r, t)))"

section \<open>Appending\<close>

definition push_entry :: "session_entry \<Rightarrow> sm_state \<Rightarrow> sm_state" where
  "push_entry e s =
     s\<lparr>sm_fileEntries := sm_fileEntries s @ [FEntry e],
       sm_byId := AList.update (entry_id e) e (sm_byId s),
       sm_leafId := Some (entry_id e),
       sm_hasAssistant := (sm_hasAssistant s \<or> entryIsAssistant (FEntry e))\<rparr>"

definition appendEntries :: "session_entry list \<Rightarrow> sm_state \<Rightarrow> unit sm_result" where
  "appendEntries entries s = persistBatch entries (fold push_entry entries s)"

definition draw_id :: "sm_env \<Rightarrow> (string \<Rightarrow> bool) \<Rightarrow> sm_state \<Rightarrow> string \<times> sm_state" where
  "draw_id env has s =
     (let (i, n) = generateId (env_uuid env) has (sm_draws s) in (i, s\<lparr>sm_draws := n\<rparr>))"

text \<open>The shape all single-entry append methods have: draw an id, build the entry, append it.\<close>

definition append_body :: "sm_env \<Rightarrow> int \<Rightarrow> entry_body \<Rightarrow> sm_state \<Rightarrow> string sm_result" where
  "append_body env now body s =
     (let (i, s1) = draw_id env (\<lambda>i. get_entry s i \<noteq> None) s;
          e = \<lparr>entry_id = i, parentId = sm_leafId s1, entry_timestamp = now, entry_body = body\<rparr>
      in case appendEntries [e] s1 of
           (Inl err, s2) \<Rightarrow> (Inl err, s2)
         | (Inr _, s2) \<Rightarrow> (Inr i, s2))"

definition appendMessage :: "sm_env \<Rightarrow> int \<Rightarrow> agent_message \<Rightarrow> sm_state \<Rightarrow> string sm_result" where
  "appendMessage env now message = append_body env now (EMessage message)"

definition appendThinkingLevelChange :: "sm_env \<Rightarrow> int \<Rightarrow> string \<Rightarrow> sm_state \<Rightarrow> string sm_result" where
  "appendThinkingLevelChange env now level = append_body env now (EThinkingLevelChange level)"

definition appendModelChange :: "sm_env \<Rightarrow> int \<Rightarrow> string \<Rightarrow> string \<Rightarrow> sm_state \<Rightarrow> string sm_result" where
  "appendModelChange env now provider modelId = append_body env now (EModelChange provider modelId)"

definition appendCompaction ::
  "sm_env \<Rightarrow> int \<Rightarrow> string \<Rightarrow> string \<Rightarrow> nat \<Rightarrow> json \<Rightarrow> bool \<Rightarrow> sm_state \<Rightarrow> string sm_result" where
  "appendCompaction env now summary firstKeptEntryId tokensBefore details fromHook =
     append_body env now (ECompaction \<lparr>cp_summary = summary, cp_firstKeptEntryId = firstKeptEntryId,
       cp_firstKeptEntryIndex = None, cp_tokensBefore = tokensBefore, cp_details = details,
       cp_fromHook = fromHook\<rparr>)"

definition appendSessionInfo :: "sm_env \<Rightarrow> int \<Rightarrow> string \<Rightarrow> sm_state \<Rightarrow> string sm_result" where
  "appendSessionInfo env now name = append_body env now (ESessionInfo (Some (js_trim name)))"

definition appendPromptMeta ::
  "sm_env \<Rightarrow> int \<Rightarrow> nat \<Rightarrow> string \<Rightarrow> string option \<Rightarrow> sm_state \<Rightarrow> string sm_result" where
  "appendPromptMeta env now promptNumber promptId preview =
     append_body env now (EPromptMeta promptNumber promptId preview)"

definition appendCustomMessageEntry ::
  "sm_env \<Rightarrow> int \<Rightarrow> string \<Rightarrow> user_content \<Rightarrow> bool \<Rightarrow> json \<Rightarrow> sm_state \<Rightarrow> string sm_result" where
  "appendCustomMessageEntry env now customType content display details =
     append_body env now (ECustomMessage customType content details display)"

fun custom_entries ::
  "sm_env \<Rightarrow> int \<Rightarrow> (string \<times> json) list \<Rightarrow> string list \<Rightarrow> string option \<Rightarrow> nat
     \<Rightarrow> session_entry list \<times> nat" where
  "custom_entries env now [] reserved parent n = ([], n)"
| "custom_entries env now ((customType, data) # rs) reserved parent n =
     (let (i, n1) = generateId (env_uuid env) (\<lambda>j. j \<in> set reserved) n;
          e = \<lparr>entry_id = i, parentId = parent, entry_timestamp = now, entry_body = ECustom customType data\<rparr>;
          (es, n2) = custom_entries env now rs (i # reserved) (Some i) n1
      in (e # es, n2))"

definition appendCustomEntries ::
  "sm_env \<Rightarrow> int \<Rightarrow> (string \<times> json) list \<Rightarrow> sm_state \<Rightarrow> string list sm_result" where
  "appendCustomEntries env now records s =
     (if records = [] then (Inr [], s)
      else
        let (es, n) = custom_entries env now records (map fst (sm_byId s)) (sm_leafId s) (sm_draws s)
        in case appendEntries es (s\<lparr>sm_draws := n\<rparr>) of
             (Inl err, s2) \<Rightarrow> (Inl err, s2)
           | (Inr _, s2) \<Rightarrow> (Inr (map entry_id es), s2))"

definition appendCustomEntry :: "sm_env \<Rightarrow> int \<Rightarrow> string \<Rightarrow> json \<Rightarrow> sm_state \<Rightarrow> string sm_result" where
  "appendCustomEntry env now customType data s =
     (case appendCustomEntries env now [(customType, data)] s of
        (Inl err, s1) \<Rightarrow> (Inl err, s1)
      | (Inr is, s1) \<Rightarrow> (Inr (hd is), s1))"

definition appendLabelChange ::
  "sm_env \<Rightarrow> int \<Rightarrow> string \<Rightarrow> string option \<Rightarrow> sm_state \<Rightarrow> string sm_result" where
  "appendLabelChange env now targetId label s =
     (if get_entry s targetId = None then (Inl (''Entry '' @ targetId @ '' not found''), s)
      else case append_body env now (ELabel targetId label) s of
             (Inl err, s1) \<Rightarrow> (Inl err, s1)
           | (Inr i, s1) \<Rightarrow> (Inr i, set_label targetId label now s1))"

section \<open>Moving the leaf\<close>

definition branch :: "string \<Rightarrow> sm_state \<Rightarrow> unit sm_result" where
  "branch branchFromId s =
     (if get_entry s branchFromId = None then (Inl (''Entry '' @ branchFromId @ '' not found''), s)
      else (Inr (), s\<lparr>sm_leafId := Some branchFromId\<rparr>))"

definition resetLeaf :: "sm_state \<Rightarrow> sm_state" where
  "resetLeaf s = s\<lparr>sm_leafId := None\<rparr>"

definition branchWithSummary ::
  "sm_env \<Rightarrow> int \<Rightarrow> string option \<Rightarrow> string \<Rightarrow> json \<Rightarrow> bool \<Rightarrow> sm_state \<Rightarrow> string sm_result" where
  "branchWithSummary env now branchFromId summary details fromHook s =
     (case branchFromId of
        Some i \<Rightarrow>
          (if get_entry s i = None then (Inl (''Entry '' @ i @ '' not found''), s)
           else append_body env now (EBranchSummary i summary details fromHook)
                  (s\<lparr>sm_leafId := Some i\<rparr>))
      | None \<Rightarrow>
          append_body env now (EBranchSummary ''root'' summary details fromHook)
            (s\<lparr>sm_leafId := None\<rparr>))"

section \<open>Reading\<close>

definition getBranch :: "string option \<Rightarrow> sm_state \<Rightarrow> session_entry list option" where
  "getBranch fromId s =
     (let startId = (case fromId of Some i \<Rightarrow> Some i | None \<Rightarrow> sm_leafId s);
          start = (case startId of Some i \<Rightarrow> (if i \<noteq> '''' then get_entry s i else None) | None \<Rightarrow> None)
      in walk (get_entry s) start [])"

definition sm_buildSessionContext :: "sm_state \<Rightarrow> session_context option" where
  "sm_buildSessionContext s =
     buildSessionContext (getEntries s)
       (case sm_leafId s of None \<Rightarrow> LeafNull | Some i \<Rightarrow> LeafId i) (Some (sm_byId s))"

definition getChildren :: "string \<Rightarrow> sm_state \<Rightarrow> session_entry list" where
  "getChildren pid s = filter (\<lambda>e. parentId e = Some pid) (map snd (sm_byId s))"

definition getNextPromptNumber :: "sm_state \<Rightarrow> nat" where
  "getNextPromptNumber s =
     fold (\<lambda>e m. case entry_body e of EPromptMeta k _ _ \<Rightarrow> (if m < k then k else m) | _ \<Rightarrow> m)
       (getEntries s) 0 + 1"

definition getSessionName :: "sm_state \<Rightarrow> string option" where
  "getSessionName s =
     (case List.find (\<lambda>e. case entry_body e of ESessionInfo _ \<Rightarrow> True | _ \<Rightarrow> False) (rev (getEntries s)) of
        Some e \<Rightarrow>
          (case entry_body e of
             ESessionInfo (Some n) \<Rightarrow> (if js_trim n = '''' then None else Some (js_trim n))
           | _ \<Rightarrow> None)
      | None \<Rightarrow> None)"

text \<open>Entries of one custom type: prompt traces, checkpoints and audit steps are stored this way.\<close>

definition custom_data :: "string \<Rightarrow> session_entry \<Rightarrow> json option" where
  "custom_data customType e =
     (case entry_body e of ECustom t d \<Rightarrow> (if t = customType then Some d else None) | _ \<Rightarrow> None)"

definition getLatestEditBatchCheckpoint :: "sm_state \<Rightarrow> json" where
  "getLatestEditBatchCheckpoint s =
     (case List.map_filter (custom_data ''trek:edit_batch_checkpoint'') (rev (getEntries s)) of
        [] \<Rightarrow> JUndefined | d # _ \<Rightarrow> d)"

definition hasSystemPromptTrace :: "sm_state \<Rightarrow> bool" where
  "hasSystemPromptTrace s = list_ex (\<lambda>e. custom_data ''trek:system_prompt'' e \<noteq> None) (getEntries s)"

definition getReproducibilityTrace :: "sm_state \<Rightarrow> json" where
  "getReproducibilityTrace s =
     (case List.map_filter (custom_data ''trek:reproducibility'') (getEntries s) of
        [] \<Rightarrow> JUndefined | d # _ \<Rightarrow> d)"

definition getAuditSteps :: "sm_state \<Rightarrow> json list" where
  "getAuditSteps s =
     filter (\<lambda>d. d \<noteq> JUndefined) (List.map_filter (custom_data ''trek:audit_step'') (getEntries s))"

section \<open>Extracting a branch\<close>

fun label_entries ::
  "sm_env \<Rightarrow> (string \<times> string \<times> int) list \<Rightarrow> string list \<Rightarrow> string option \<Rightarrow> nat
     \<Rightarrow> session_entry list \<times> nat" where
  "label_entries env [] ids parent n = ([], n)"
| "label_entries env ((targetId, label, ts) # ls) ids parent n =
     (let (i, n1) = generateId (env_uuid env) (\<lambda>j. j \<in> set ids) n;
          e = \<lparr>entry_id = i, parentId = parent, entry_timestamp = ts,
               entry_body = ELabel targetId (Some label)\<rparr>;
          (es, n2) = label_entries env ls (i # ids) (Some i) n1
      in (e # es, n2))"

definition labels_to_write :: "sm_state \<Rightarrow> string list \<Rightarrow> (string \<times> string \<times> int) list" where
  "labels_to_write s ids =
     map (\<lambda>(t, l). (t, l, case map_of (sm_labelTimestampsById s) t of Some ts \<Rightarrow> ts | None \<Rightarrow> 0))
       (filter (\<lambda>(t, l). t \<in> set ids) (sm_labelsById s))"

text \<open>
  Every labelled entry has a label time (\<open>label_inv\<close> below), so the default time 0 is never
  used.

  The in-memory and the persisted branch build the same label entries; they differ in the session
  file, the header's parent and in writing the file.
\<close>

definition createBranchedSession ::
  "sm_env \<Rightarrow> string \<Rightarrow> int \<Rightarrow> string \<Rightarrow> sm_state \<Rightarrow> string option sm_result option" where
  "createBranchedSession env leafId now newId s =
     (case getBranch (Some leafId) s of
        None \<Rightarrow> None
      | Some path \<Rightarrow> Some (
          if path = [] then (Inl (''Entry '' @ leafId @ '' not found''), s)
          else
            let pathWithoutLabels = filter (\<lambda>e. \<not> is_label (entry_body e)) path;
                newSessionFile = session_path env (sm_sessionDir s) now newId;
                header = \<lparr>sh_version = Some CURRENT_SESSION_VERSION, sh_id = newId,
                  sh_timestamp = now, sh_cwd = sm_cwd s,
                  sh_parentSession = (if sm_persist s then sm_sessionFile s else None)\<rparr>;
                ids = map entry_id pathWithoutLabels;
                lastId = (case js_last ids of Some i \<Rightarrow> (if i = '''' then None else Some i) | None \<Rightarrow> None);
                (ls, n) = label_entries env (labels_to_write s ids) ids lastId (sm_draws s);
                entries' = FHeader header # map FEntry pathWithoutLabels @ map FEntry ls
            in if sm_persist s then
                 let s1 = (closeAppendFd s)\<lparr>sm_fileEntries := entries', sm_sessionId := newId,
                            sm_sessionFile := Some newSessionFile, sm_draws := n\<rparr>;
                     s2 = buildIndex s1;
                     s3 = (if sm_hasAssistant s2 then (rewriteFile s2)\<lparr>sm_flushed := True\<rparr>
                           else s2\<lparr>sm_flushed := False\<rparr>)
                 in (Inr (Some newSessionFile), s3)
               else
                 (Inr None, buildIndex (s\<lparr>sm_fileEntries := entries', sm_sessionId := newId,
                    sm_draws := n\<rparr>))))"

section \<open>The invariant\<close>

text \<open>
  Entries are well-formed when ids are non-empty and distinct and every parent is an earlier entry.
\<close>

fun closed_from :: "string set \<Rightarrow> session_entry list \<Rightarrow> bool" where
  "closed_from seen [] = True"
| "closed_from seen (e # es) =
     (entry_id e \<notin> seen \<and> entry_id e \<noteq> '''' \<and>
      set_option (parentId e) \<subseteq> seen \<and> closed_from (insert (entry_id e) seen) es)"

definition wf_entries :: "session_entry list \<Rightarrow> bool" where
  "wf_entries es = closed_from {} es"

definition tree_inv :: "sm_state \<Rightarrow> bool" where
  "tree_inv s \<longleftrightarrow>
     (\<exists>h. sm_fileEntries s = FHeader h # map FEntry (getEntries s)) \<and>
     wf_entries (getEntries s) \<and>
     sm_byId s = map (\<lambda>e. (entry_id e, e)) (getEntries s) \<and>
     set_option (sm_leafId s) \<subseteq> entry_id ` set (getEntries s) \<and>
     sm_hasAssistant s = (\<exists>e\<in>set (getEntries s). entryIsAssistant (FEntry e))"

definition label_step :: "session_entry \<Rightarrow> (string \<times> string) list \<Rightarrow> (string \<times> string) list" where
  "label_step e labels =
     (case entry_body e of
        ELabel t (Some l) \<Rightarrow> (if l \<noteq> '''' then AList.update t l labels else AList.delete t labels)
      | ELabel t None \<Rightarrow> AList.delete t labels
      | _ \<Rightarrow> labels)"

definition replay_labels :: "session_entry list \<Rightarrow> (string \<times> string) list" where
  "replay_labels es = fold label_step es []"

definition labels_timed :: "sm_state \<Rightarrow> bool" where
  "labels_timed s \<longleftrightarrow>
     fst ` set (sm_labelsById s) \<subseteq> fst ` set (sm_labelTimestampsById s)"

definition label_inv :: "sm_state \<Rightarrow> bool" where
  "label_inv s \<longleftrightarrow> sm_labelsById s = replay_labels (getEntries s) \<and> labels_timed s"

text \<open>
  A flushed session's file parses to exactly the entries in memory. Before the first flush the
  file does not exist and no assistant message has been appended.
\<close>

definition disk_inv :: "sm_state \<Rightarrow> bool" where
  "disk_inv s \<longleftrightarrow> (sm_persist s \<longrightarrow>
     (\<exists>p. sm_sessionFile s = Some p \<and>
        (if sm_flushed s
         then (\<exists>ls. sm_fs s p = Some ls \<and> parseSessionEntries ls = sm_fileEntries s)
         else sm_fs s p = None \<and> \<not> sm_hasAssistant s) \<and>
        (sm_appendFd s = None \<or> sm_appendFd s = Some p \<and> sm_flushed s)))"

definition sm_inv :: "sm_state \<Rightarrow> bool" where
  "sm_inv s \<longleftrightarrow> tree_inv s \<and> label_inv s \<and> disk_inv s"

subsection \<open>Lists of entries\<close>

lemma session_entries_simps [simp]:
  "session_entries [] = []"
  "session_entries (FHeader h # fs) = session_entries fs"
  "session_entries (FEntry e # fs) = e # session_entries fs"
  "session_entries (fs @ gs) = session_entries fs @ session_entries gs"
  by (simp_all add: session_entries_def map_filter_append)

lemma session_entries_map [simp]: "session_entries (map FEntry es) = es"
  by (induction es) simp_all

lemma closed_from_append:
  "closed_from seen (xs @ ys) \<longleftrightarrow> closed_from seen xs \<and> closed_from (entry_id ` set xs \<union> seen) ys"
  by (induction xs arbitrary: seen) auto

lemma closed_from_disjoint: "closed_from seen es \<Longrightarrow> e \<in> set es \<Longrightarrow> entry_id e \<notin> seen \<and> entry_id e \<noteq> ''''"
  by (induction es arbitrary: seen) auto

lemma closed_from_distinct: "closed_from seen es \<Longrightarrow> distinct (map entry_id es)"
  by (induction es arbitrary: seen) (auto dest: closed_from_disjoint)

lemma closed_from_parent:
  assumes "closed_from seen (xs @ e # ys)" and "parentId e = Some p"
  shows "p \<in> entry_id ` set xs \<union> seen"
  using assms by (simp add: closed_from_append)

lemma wf_entries_snoc:
  "wf_entries (es @ [e]) \<longleftrightarrow> wf_entries es \<and> entry_id e \<notin> entry_id ` set es \<and> entry_id e \<noteq> '''' \<and>
     set_option (parentId e) \<subseteq> entry_id ` set es"
  by (simp add: wf_entries_def closed_from_append)

lemma wf_entries_distinct: "wf_entries es \<Longrightarrow> distinct (map entry_id es)"
  by (simp add: wf_entries_def closed_from_distinct)

lemma map_of_entries:
  assumes "distinct (map entry_id es)"
  shows "map_of (map (\<lambda>e. (entry_id e, e)) es) i = Some e \<longleftrightarrow> e \<in> set es \<and> entry_id e = i"
proof -
  have "distinct (map fst (map (\<lambda>e. (entry_id e, e)) es))" using assms by (simp add: comp_def)
  from map_of_eq_Some_iff [OF this] show ?thesis by auto
qed

lemma map_of_entries_None:
  "map_of (map (\<lambda>e. (entry_id e, e)) es) i = None \<longleftrightarrow> i \<notin> entry_id ` set es"
  by (simp add: map_of_eq_None_iff image_image)

text \<open>The position of an entry is the rank that orders parents before children.\<close>

definition entry_rank :: "sm_state \<Rightarrow> string \<Rightarrow> nat" where
  "entry_rank s i = (case find_index (\<lambda>e. entry_id e = i) (getEntries s) of Some k \<Rightarrow> k | None \<Rightarrow> 0)"

lemma find_index_entry_id:
  assumes "distinct (map entry_id (xs @ e # ys))"
  shows "find_index (\<lambda>x. entry_id x = entry_id e) (xs @ e # ys) = Some (length xs)"
  using assms by (induction xs) auto

lemma tree_inv_lookup:
  assumes "tree_inv s"
  shows "get_entry s i = Some e \<longleftrightarrow> e \<in> set (getEntries s) \<and> entry_id e = i"
proof -
  have "sm_byId s = map (\<lambda>e. (entry_id e, e)) (getEntries s)"
    and "distinct (map entry_id (getEntries s))"
    using assms wf_entries_distinct by (auto simp: tree_inv_def)
  then show ?thesis by (simp add: map_of_entries)
qed

lemma tree_inv_lookup_None:
  "tree_inv s \<Longrightarrow> get_entry s i = None \<longleftrightarrow> i \<notin> entry_id ` set (getEntries s)"
  by (simp add: tree_inv_def map_of_entries_None)

lemma tree_inv_parent:
  assumes inv: "tree_inv s" and e: "get_entry s i = Some e" and p: "parentId e = Some p"
  shows "\<exists>q. p \<noteq> '''' \<and> get_entry s p = Some q \<and> entry_rank s p < entry_rank s i"
proof -
  have wf: "closed_from {} (getEntries s)" and dist: "distinct (map entry_id (getEntries s))"
    using inv wf_entries_distinct by (auto simp: tree_inv_def wf_entries_def)
  have mem: "e \<in> set (getEntries s)" "entry_id e = i" using e tree_inv_lookup [OF inv] by auto
  then obtain xs ys where split: "getEntries s = xs @ e # ys" by (meson split_list)
  then have "p \<in> entry_id ` set xs" using closed_from_parent wf p by fastforce
  then obtain q xs1 xs2 where q: "entry_id q = p" "xs = xs1 @ q # xs2" by (metis imageE split_list)
  have "entry_rank s p = length xs1"
    using find_index_entry_id [of xs1 q "xs2 @ e # ys"] dist split q by (simp add: entry_rank_def)
  moreover have "entry_rank s i = length xs"
    using find_index_entry_id [of xs e ys] dist split mem(2) by (simp add: entry_rank_def)
  moreover have "q \<in> set (getEntries s)" using split q by simp
  then have "get_entry s p = Some q" using tree_inv_lookup [OF inv] q(1) by blast
  moreover have "p \<noteq> ''''" using closed_from_disjoint [OF wf, of q] q split by auto
  ultimately show ?thesis using q(2) by simp
qed

text \<open>The manager's index is a closed forest: its walks return and later appends keep them.\<close>

interpretation sm: closed_forest tree_inv get_entry entry_rank
proof unfold_locales
  fix s i e assume "tree_inv s" and "get_entry s i = Some e"
  then show "entry_id e = i" using tree_inv_lookup by blast
next
  fix s i e p q
  assume "tree_inv s" "get_entry s i = Some e" "parentId e = Some p" "get_entry s p = Some q"
  then show "entry_rank s p < entry_rank s i" using tree_inv_parent by blast
next
  fix s i e p assume "tree_inv s" "get_entry s i = Some e" "parentId e = Some p"
  then show "p \<noteq> '''' \<and> get_entry s p \<noteq> None" using tree_inv_parent by blast
qed

subsection \<open>Appending keeps the invariant\<close>

lemma parse_append [simp]:
  "parseSessionEntries (xs @ ys) = parseSessionEntries xs @ parseSessionEntries ys"
  by (simp add: parseSessionEntries_def map_filter_append)

lemma parse_line_Cons [simp]: "parseSessionEntries (Line f # ls) = f # parseSessionEntries ls"
  by (simp add: parseSessionEntries_def)

lemma parse_Nil [simp]: "parseSessionEntries [] = []"
  by (simp add: parseSessionEntries_def)

lemma parse_lines [simp]: "parseSessionEntries (map Line fs) = fs"
  by (induction fs) (simp_all add: parseSessionEntries_def)

lemma parse_entry_lines [simp]: "parseSessionEntries (map (Line \<circ> FEntry) es) = map FEntry es"
  by (induction es) (simp_all add: parseSessionEntries_def)

lemma push_entry_getEntries [simp]: "getEntries (push_entry e s) = getEntries s @ [e]"
  by (simp add: push_entry_def getEntries_def)

lemma push_entry_frame [simp]:
  "sm_persist (push_entry e s) = sm_persist s"
  "sm_sessionFile (push_entry e s) = sm_sessionFile s"
  "sm_flushed (push_entry e s) = sm_flushed s"
  "sm_appendFd (push_entry e s) = sm_appendFd s"
  "sm_fs (push_entry e s) = sm_fs s"
  "sm_labelsById (push_entry e s) = sm_labelsById s"
  "sm_labelTimestampsById (push_entry e s) = sm_labelTimestampsById s"
  "sm_leafId (push_entry e s) = Some (entry_id e)"
  "sm_fileEntries (push_entry e s) = sm_fileEntries s @ [FEntry e]"
  "sm_hasAssistant (push_entry e s) = (sm_hasAssistant s \<or> entryIsAssistant (FEntry e))"
  by (simp_all add: push_entry_def)

lemma push_entry_tree_inv:
  assumes "tree_inv s" and "wf_entries (getEntries s @ [e])"
  shows "tree_inv (push_entry e s)"
proof -
  have "entry_id e \<notin> fst ` set (sm_byId s)"
    using assms by (auto simp: tree_inv_def wf_entries_snoc)
  then show ?thesis
    using assms by (auto simp: tree_inv_def push_entry_def getEntries_def AList_update_fresh)
qed

lemma wf_entries_prefix: "wf_entries (xs @ ys) \<Longrightarrow> wf_entries xs"
  by (simp add: wf_entries_def closed_from_append)

lemma fold_push_tree_inv:
  assumes "tree_inv s" and "wf_entries (getEntries s @ es)"
  shows "tree_inv (fold push_entry es s)"
  using assms
proof (induction es arbitrary: s)
  case (Cons e es)
  have wf: "wf_entries ((getEntries s @ [e]) @ es)" using Cons.prems(2) by simp
  then have "tree_inv (push_entry e s)"
    using push_entry_tree_inv Cons.prems(1) wf_entries_prefix by blast
  then show ?case using Cons.IH [of "push_entry e s"] wf by simp
qed simp

lemma fold_push_frame [simp]:
  "getEntries (fold push_entry es s) = getEntries s @ es"
  "sm_persist (fold push_entry es s) = sm_persist s"
  "sm_sessionFile (fold push_entry es s) = sm_sessionFile s"
  "sm_flushed (fold push_entry es s) = sm_flushed s"
  "sm_appendFd (fold push_entry es s) = sm_appendFd s"
  "sm_fs (fold push_entry es s) = sm_fs s"
  "sm_labelsById (fold push_entry es s) = sm_labelsById s"
  "sm_labelTimestampsById (fold push_entry es s) = sm_labelTimestampsById s"
  "sm_fileEntries (fold push_entry es s) = sm_fileEntries s @ map FEntry es"
  by (induction es arbitrary: s) simp_all

lemma fold_push_leaf:
  "sm_leafId (fold push_entry es s) = (if es = [] then sm_leafId s else Some (entry_id (last es)))"
  by (induction es arbitrary: s) simp_all

lemma fold_push_assistant:
  "sm_hasAssistant (fold push_entry es s) =
     (sm_hasAssistant s \<or> (\<exists>e\<in>set es. entryIsAssistant (FEntry e)))"
  by (induction es arbitrary: s) auto

text \<open>Writing changes the descriptor, the timer, the flag and the disk, and nothing else.\<close>

definition same_memory :: "sm_state \<Rightarrow> sm_state \<Rightarrow> bool" where
  "same_memory s t \<longleftrightarrow>
     sm_sessionId t = sm_sessionId s \<and> sm_sessionFile t = sm_sessionFile s \<and>
     sm_sessionDir t = sm_sessionDir s \<and> sm_cwd t = sm_cwd s \<and> sm_persist t = sm_persist s \<and>
     sm_hasAssistant t = sm_hasAssistant s \<and> sm_fileEntries t = sm_fileEntries s \<and>
     sm_byId t = sm_byId s \<and> sm_labelsById t = sm_labelsById s \<and>
     sm_labelTimestampsById t = sm_labelTimestampsById s \<and> sm_leafId t = sm_leafId s \<and>
     sm_draws t = sm_draws s"

lemma same_memory_inv:
  "same_memory s t \<Longrightarrow> tree_inv t = tree_inv s"
  "same_memory s t \<Longrightarrow> label_inv t = label_inv s"
  "same_memory s t \<Longrightarrow> getEntries t = getEntries s"
  by (simp_all only: same_memory_def tree_inv_def label_inv_def labels_timed_def getEntries_def)

lemma same_memory_refl [simp]: "same_memory s s"
  by (simp add: same_memory_def)

lemma closeAppendFd_same [simp]: "same_memory s (closeAppendFd s)"
  by (simp add: same_memory_def closeAppendFd_def)

lemma writeJsonlChunk_same [simp]: "same_memory s (writeJsonlChunk ls s)"
  by (simp add: same_memory_def writeJsonlChunk_def Let_def split: option.split)

lemma persistBatch_same: "persistBatch es s = (r, t) \<Longrightarrow> same_memory s t"
  by (auto simp: persistBatch_def Let_def same_memory_def closeAppendFd_def writeJsonlChunk_def
      split: option.splits if_splits)

text \<open>
  After the entries have been pushed, \<open>_persistBatch\<close> succeeds and brings the file back in step
  with memory: it appends to a flushed file, and creates the file once an assistant message exists.
\<close>

lemma persistBatch_disk:
  assumes inv: "disk_inv s" and t: "t = fold push_entry es s"
  shows "\<exists>t'. persistBatch es t = (Inr (), t') \<and> disk_inv t'"
proof (cases "sm_persist s \<and> es \<noteq> []")
  case False
  then have "persistBatch es t = (Inr (), t)"
    using t by (auto simp: persistBatch_def split: option.split)
  then show ?thesis using False inv t by (cases "es = []") (auto simp: disk_inv_def)
next
  case True
  with inv obtain p where p: "sm_sessionFile s = Some p"
    and fd: "sm_appendFd s = None \<or> sm_appendFd s = Some p \<and> sm_flushed s"
    and disk: "if sm_flushed s then \<exists>ls. sm_fs s p = Some ls \<and> parseSessionEntries ls = sm_fileEntries s
      else sm_fs s p = None \<and> \<not> sm_hasAssistant s"
    by (auto simp: disk_inv_def)
  show ?thesis
  proof (cases "sm_flushed s")
    case True
    then have "persistBatch es t = (Inr (), writeJsonlChunk (map (Line \<circ> FEntry) es) t)"
      using \<open>sm_persist s \<and> es \<noteq> []\<close> p t by (simp add: persistBatch_def)
    moreover have "disk_inv (writeJsonlChunk (map (Line \<circ> FEntry) es) t)"
      using disk fd p t True by (auto simp: disk_inv_def writeJsonlChunk_def)
    ultimately show ?thesis by blast
  next
    case False
    then show ?thesis
      using \<open>sm_persist s \<and> es \<noteq> []\<close> p t disk fd
      by (auto simp: persistBatch_def Let_def closeAppendFd_def disk_inv_def)
  qed
qed

lemma replay_labels_append:
  "\<forall>e\<in>set ys. \<not> is_label (entry_body e) \<Longrightarrow> replay_labels (xs @ ys) = replay_labels xs"
proof (induction ys rule: rev_induct)
  case (snoc y ys)
  then have "replay_labels (xs @ ys @ [y]) = label_step y (replay_labels (xs @ ys))"
    by (simp add: replay_labels_def)
  also have "\<dots> = replay_labels (xs @ ys)"
    using snoc.prems by (cases "entry_body y") (auto simp: label_step_def)
  finally show ?case using snoc by simp
qed simp

lemma appendEntries_ok:
  assumes "sm_inv s" and "wf_entries (getEntries s @ es)"
  shows "\<exists>t. appendEntries es s = (Inr (), t) \<and> same_memory (fold push_entry es s) t \<and>
    tree_inv t \<and> disk_inv t"
proof -
  obtain t where t: "persistBatch es (fold push_entry es s) = (Inr (), t)" "disk_inv t"
    using persistBatch_disk assms(1) by (force simp: sm_inv_def)
  then have "same_memory (fold push_entry es s) t" by (blast dest: persistBatch_same)
  moreover have "tree_inv t"
    using calculation same_memory_inv(1) fold_push_tree_inv assms by (auto simp: sm_inv_def)
  ultimately show ?thesis using t by (simp add: appendEntries_def)
qed

lemma appendEntries_label_inv:
  assumes "label_inv s" and "same_memory (fold push_entry es s) t"
    and "\<forall>e\<in>set es. \<not> is_label (entry_body e)"
  shows "label_inv t"
proof -
  have "sm_labelsById t = sm_labelsById s" and "sm_labelTimestampsById t = sm_labelTimestampsById s"
    and "replay_labels (getEntries t) = replay_labels (getEntries s)"
    using assms(2,3) same_memory_inv(3) [OF assms(2)]
    by (simp_all add: replay_labels_append same_memory_def)
  then show ?thesis using assms(1) unfolding label_inv_def labels_timed_def by metis
qed

subsection \<open>Fresh ids\<close>

text \<open>
  What the code relies on of \<open>randomUUID\<close>: it never returns the empty string, and of the 101
  values one call of \<open>generateId\<close> may look at, one is usable (a free prefix among the first
  hundred, or a free full id).
\<close>

definition draws_fresh :: "(nat \<Rightarrow> string) \<Rightarrow> (string \<Rightarrow> bool) \<Rightarrow> nat \<Rightarrow> bool" where
  "draws_fresh uuid has n \<longleftrightarrow> (\<forall>k\<le>100. uuid (n + k) \<noteq> '''') \<and>
     ((\<exists>k<100. \<not> has (take 8 (uuid (n + k)))) \<or> \<not> has (uuid (n + 100)))"

lemma generateId_loop_fresh:
  assumes "\<forall>j\<le>k. uuid (n + j) \<noteq> ''''"
    and "(\<exists>j<k. \<not> has (take 8 (uuid (n + j)))) \<or> \<not> has (uuid (n + k))"
  shows "\<not> has (fst (generateId_loop uuid has k n)) \<and> fst (generateId_loop uuid has k n) \<noteq> ''''"
  using assms
proof (induction k arbitrary: n)
  case (Suc k)
  show ?case
  proof (cases "has (take 8 (uuid n))")
    case True
    have "\<forall>j\<le>k. uuid (Suc n + j) \<noteq> ''''" using Suc.prems(1) by (metis Suc_le_mono add_Suc_shift)
    moreover have "(\<exists>j<k. \<not> has (take 8 (uuid (Suc n + j)))) \<or> \<not> has (uuid (Suc n + k))"
      using Suc.prems(2) True by (metis Nat.add_0_right add_Suc_shift less_Suc_eq_0_disj)
    ultimately show ?thesis using Suc.IH [of "Suc n"] True by (simp add: Let_def)
  next
    case False
    have "uuid n \<noteq> ''''" using Suc.prems(1) by (metis Nat.add_0_right le0)
    then show ?thesis using False by (simp add: Let_def)
  qed
qed simp

lemma generateId_fresh:
  "draws_fresh uuid has n \<Longrightarrow>
     \<not> has (fst (generateId uuid has n)) \<and> fst (generateId uuid has n) \<noteq> ''''"
  unfolding draws_fresh_def generateId_def by (rule generateId_loop_fresh) auto

definition sm_fresh :: "sm_env \<Rightarrow> sm_state \<Rightarrow> bool" where
  "sm_fresh env s = draws_fresh (env_uuid env) (\<lambda>i. get_entry s i \<noteq> None) (sm_draws s)"

abbreviation next_id :: "sm_env \<Rightarrow> sm_state \<Rightarrow> string" where
  "next_id env s \<equiv> fst (generateId (env_uuid env) (\<lambda>i. get_entry s i \<noteq> None) (sm_draws s))"

definition next_entry :: "sm_env \<Rightarrow> int \<Rightarrow> entry_body \<Rightarrow> sm_state \<Rightarrow> session_entry" where
  "next_entry env now body s =
     \<lparr>entry_id = next_id env s, parentId = sm_leafId s, entry_timestamp = now, entry_body = body\<rparr>"

lemma wf_next_entry:
  assumes "tree_inv s" and "sm_fresh env s"
  shows "wf_entries (getEntries s @ [next_entry env now body s])"
proof -
  have "get_entry s (next_id env s) = None" and "next_id env s \<noteq> ''''"
    using generateId_fresh assms(2) unfolding sm_fresh_def by blast+
  then have "next_id env s \<notin> entry_id ` set (getEntries s)"
    using tree_inv_lookup_None [OF assms(1)] by blast
  then show ?thesis using assms(1) \<open>next_id env s \<noteq> ''''\<close>
    by (auto simp: wf_entries_snoc next_entry_def tree_inv_def split: option.splits)
qed

lemma sm_inv_draws [simp]:
  "sm_inv (s\<lparr>sm_draws := n\<rparr>) = sm_inv s"
  "tree_inv (s\<lparr>sm_draws := n\<rparr>) = tree_inv s"
  "label_inv (s\<lparr>sm_draws := n\<rparr>) = label_inv s"
  "disk_inv (s\<lparr>sm_draws := n\<rparr>) = disk_inv s"
  "getEntries (s\<lparr>sm_draws := n\<rparr>) = getEntries s"
  by (simp_all add: sm_inv_def tree_inv_def label_inv_def labels_timed_def disk_inv_def getEntries_def)

text \<open>
  The one fact the append methods rest on: with a fresh id they return it, and the state is the
  old one with the new entry pushed, on disk as in memory.
\<close>

lemma append_body_ok:
  assumes "sm_inv s" and "sm_fresh env s"
  shows "\<exists>t n. append_body env now body s = (Inr (next_id env s), t) \<and>
    same_memory (push_entry (next_entry env now body s) (s\<lparr>sm_draws := n\<rparr>)) t \<and>
    tree_inv t \<and> disk_inv t"
proof -
  obtain i n where g: "generateId (env_uuid env) (\<lambda>i. get_entry s i \<noteq> None) (sm_draws s) = (i, n)"
    by fastforce
  let ?s = "s\<lparr>sm_draws := n\<rparr>" and ?e = "next_entry env now body s"
  have "wf_entries (getEntries ?s @ [?e])" using wf_next_entry assms by (simp add: sm_inv_def)
  then obtain t where t: "appendEntries [?e] ?s = (Inr (), t)"
      "same_memory (push_entry ?e ?s) t" "tree_inv t" "disk_inv t"
    using appendEntries_ok [of ?s "[?e]"] assms(1) by auto
  have "append_body env now body s = (Inr (next_id env s), t)"
    using t(1) g by (simp add: append_body_def draw_id_def next_entry_def)
  then show ?thesis using t by blast
qed

end
