(* ===== verification/SessionSteps.thy ===== *)
theory SessionSteps
  imports SessionManager
begin

text \<open>
  The session manager as a state machine: one rule per operation of the class, with what each
  operation needs of its environment (fresh random ids, an unused file name, a well-formed file to
  open), and the proof that every step keeps the invariant of theory \<open>SessionManager\<close>.
\<close>

section \<open>Sequences of generated ids\<close>

fun ids_fresh :: "(nat \<Rightarrow> string) \<Rightarrow> nat \<Rightarrow> string list \<Rightarrow> nat \<Rightarrow> bool" where
  "ids_fresh uuid 0 reserved n = True"
| "ids_fresh uuid (Suc k) reserved n =
     (draws_fresh uuid (\<lambda>j. j \<in> set reserved) n \<and>
      (let (i, n') = generateId uuid (\<lambda>j. j \<in> set reserved) n
       in ids_fresh uuid k (i # reserved) n'))"

lemma custom_entries_closed:
  assumes "ids_fresh (env_uuid env) (length rs) reserved n" and "set_option parent \<subseteq> set reserved"
  shows "closed_from (set reserved) (fst (custom_entries env now rs reserved parent n)) \<and>
    (\<forall>e\<in>set (fst (custom_entries env now rs reserved parent n)). \<not> is_label (entry_body e))"
  using assms
proof (induction env now rs reserved parent n rule: custom_entries.induct)
  case (2 env now customType data rs reserved parent n)
  obtain i n' where g: "generateId (env_uuid env) (\<lambda>j. j \<in> set reserved) n = (i, n')" by fastforce
  have "i \<notin> set reserved" and "i \<noteq> ''''"
    using generateId_fresh [of "env_uuid env" "\<lambda>j. j \<in> set reserved" n] "2.prems"(1) g by simp_all
  moreover have "closed_from (set (i # reserved)) (fst (custom_entries env now rs (i # reserved) (Some i) n'))
      \<and> (\<forall>e\<in>set (fst (custom_entries env now rs (i # reserved) (Some i) n')). \<not> is_label (entry_body e))"
    using "2.IH" [OF g [symmetric] refl] "2.prems"(1) g by simp
  ultimately show ?case using "2.prems"(2) g by (simp add: case_prod_beta)
qed simp

lemma label_entries_closed:
  assumes "ids_fresh (env_uuid env) (length ls) reserved n" and "set_option parent \<subseteq> set reserved"
  shows "closed_from (set reserved) (fst (label_entries env ls reserved parent n))"
  using assms
proof (induction env ls reserved parent n rule: label_entries.induct)
  case (2 env targetId label ts ls reserved parent n)
  obtain i n' where g: "generateId (env_uuid env) (\<lambda>j. j \<in> set reserved) n = (i, n')" by fastforce
  have "i \<notin> set reserved" and "i \<noteq> ''''"
    using generateId_fresh [of "env_uuid env" "\<lambda>j. j \<in> set reserved" n] "2.prems"(1) g by simp_all
  moreover have "closed_from (set (i # reserved)) (fst (label_entries env ls (i # reserved) (Some i) n'))"
    using "2.IH" [OF g [symmetric] refl] "2.prems"(1) g by simp
  ultimately show ?case using "2.prems"(2) g by (simp add: case_prod_beta)
qed simp

lemma label_entries_labels:
  "e \<in> set (fst (label_entries env ls reserved parent n)) \<Longrightarrow> is_label (entry_body e)"
  by (induction env ls reserved parent n rule: label_entries.induct) (auto simp: Let_def split: prod.splits)

section \<open>Rebuilding the index\<close>

lemma set_label_frame [simp]:
  "sm_sessionId (set_label t l ts s) = sm_sessionId s"
  "sm_sessionFile (set_label t l ts s) = sm_sessionFile s"
  "sm_sessionDir (set_label t l ts s) = sm_sessionDir s"
  "sm_cwd (set_label t l ts s) = sm_cwd s"
  "sm_persist (set_label t l ts s) = sm_persist s"
  "sm_flushed (set_label t l ts s) = sm_flushed s"
  "sm_hasAssistant (set_label t l ts s) = sm_hasAssistant s"
  "sm_appendFd (set_label t l ts s) = sm_appendFd s"
  "sm_fileEntries (set_label t l ts s) = sm_fileEntries s"
  "sm_byId (set_label t l ts s) = sm_byId s"
  "sm_leafId (set_label t l ts s) = sm_leafId s"
  "sm_fs (set_label t l ts s) = sm_fs s"
  "sm_draws (set_label t l ts s) = sm_draws s"
  by (simp_all add: set_label_def split: option.split)

lemma set_label_inv [simp]:
  "tree_inv (set_label t l ts s) = tree_inv s"
  "disk_inv (set_label t l ts s) = disk_inv s"
  by (simp_all only: tree_inv_def disk_inv_def getEntries_def set_label_frame)

lemma set_label_labels:
  "entry_body e = ELabel t l \<Longrightarrow> sm_labelsById (set_label t l ts s) = label_step e (sm_labelsById s)"
  by (simp add: set_label_def label_step_def split: option.split)

lemma set_label_timed:
  assumes "labels_timed s"
  shows "labels_timed (set_label t l ts s)"
proof -
  have del: "fst ` set (AList.delete t xs) = fst ` set xs - {t}" for xs :: "(string \<times> 'b) list"
    using delete_keys [of t xs] by (metis image_set set_removeAll)
  show ?thesis using assms by (auto simp: labels_timed_def set_label_def dom_update del split: option.split)
qed

lemma index_entry_frame [simp]:
  "sm_sessionId (index_entry f s) = sm_sessionId s"
  "sm_sessionFile (index_entry f s) = sm_sessionFile s"
  "sm_sessionDir (index_entry f s) = sm_sessionDir s"
  "sm_cwd (index_entry f s) = sm_cwd s"
  "sm_persist (index_entry f s) = sm_persist s"
  "sm_flushed (index_entry f s) = sm_flushed s"
  "sm_appendFd (index_entry f s) = sm_appendFd s"
  "sm_fileEntries (index_entry f s) = sm_fileEntries s"
  "sm_fs (index_entry f s) = sm_fs s"
  "sm_draws (index_entry f s) = sm_draws s"
  by (simp_all add: index_entry_def Let_def split: file_entry.split entry_body.split)

lemma index_entry_values:
  "sm_byId (index_entry (FEntry e) s) = AList.update (entry_id e) e (sm_byId s)"
  "sm_leafId (index_entry (FEntry e) s) = Some (entry_id e)"
  "sm_hasAssistant (index_entry (FEntry e) s) = (sm_hasAssistant s \<or> entryIsAssistant (FEntry e))"
  by (simp_all add: index_entry_def Let_def split: entry_body.split)

lemma index_entry_labels:
  "sm_labelsById (index_entry (FEntry e) s) = label_step e (sm_labelsById s)"
  by (cases "entry_body e")
    (simp_all add: index_entry_def Let_def set_label_labels, simp_all add: label_step_def)

lemma index_entry_timed:
  assumes "labels_timed s"
  shows "labels_timed (index_entry f s)"
proof (cases f)
  case (FEntry e)
  let ?s = "s\<lparr>sm_byId := AList.update (entry_id e) e (sm_byId s), sm_leafId := Some (entry_id e),
      sm_hasAssistant := (sm_hasAssistant s \<or> entryIsAssistant f)\<rparr>"
  have "labels_timed ?s" using assms by (simp add: labels_timed_def)
  then show ?thesis using FEntry
    by (cases "entry_body e") (simp_all add: index_entry_def set_label_timed del: entryIsAssistant.simps)
qed (use assms in \<open>simp add: index_entry_def\<close>)

lemma fold_index_frame [simp]:
  "sm_sessionId (fold index_entry fs s) = sm_sessionId s"
  "sm_sessionFile (fold index_entry fs s) = sm_sessionFile s"
  "sm_sessionDir (fold index_entry fs s) = sm_sessionDir s"
  "sm_cwd (fold index_entry fs s) = sm_cwd s"
  "sm_persist (fold index_entry fs s) = sm_persist s"
  "sm_flushed (fold index_entry fs s) = sm_flushed s"
  "sm_appendFd (fold index_entry fs s) = sm_appendFd s"
  "sm_fileEntries (fold index_entry fs s) = sm_fileEntries s"
  "sm_fs (fold index_entry fs s) = sm_fs s"
  "sm_draws (fold index_entry fs s) = sm_draws s"
  by (induction fs arbitrary: s) simp_all

lemma buildIndex_frame [simp]:
  "sm_sessionId (buildIndex s) = sm_sessionId s"
  "sm_sessionFile (buildIndex s) = sm_sessionFile s"
  "sm_sessionDir (buildIndex s) = sm_sessionDir s"
  "sm_cwd (buildIndex s) = sm_cwd s"
  "sm_persist (buildIndex s) = sm_persist s"
  "sm_flushed (buildIndex s) = sm_flushed s"
  "sm_appendFd (buildIndex s) = sm_appendFd s"
  "sm_fileEntries (buildIndex s) = sm_fileEntries s"
  "sm_fs (buildIndex s) = sm_fs s"
  "sm_draws (buildIndex s) = sm_draws s"
  by (simp_all add: buildIndex_def)

lemma buildIndex_getEntries [simp]: "getEntries (buildIndex s) = getEntries s"
  by (simp add: getEntries_def)

lemma fold_index_values:
  fixes s es
  defines "t \<equiv> fold index_entry (map FEntry es) s"
  assumes "sm_byId s = map (\<lambda>e. (entry_id e, e)) pre" and "closed_from (entry_id ` set pre) es"
    and "labels_timed s"
  shows "sm_byId t = map (\<lambda>e. (entry_id e, e)) (pre @ es) \<and>
    sm_leafId t = (if es = [] then sm_leafId s else Some (entry_id (last es))) \<and>
    sm_hasAssistant t = (sm_hasAssistant s \<or> (\<exists>e\<in>set es. entryIsAssistant (FEntry e))) \<and>
    sm_labelsById t = fold label_step es (sm_labelsById s) \<and>
    labels_timed t"
  using assms(2-) unfolding t_def
proof (induction es arbitrary: s pre)
  case (Cons e es)
  let ?s = "index_entry (FEntry e) s"
  have "entry_id e \<notin> fst ` set (sm_byId s)" using Cons.prems(1,2) by auto
  then have by_id: "sm_byId ?s = map (\<lambda>e. (entry_id e, e)) (pre @ [e])"
    using Cons.prems(1) by (simp add: index_entry_values AList_update_fresh)
  have "closed_from (entry_id ` set (pre @ [e])) es" using Cons.prems(2) by simp
  from Cons.IH [OF by_id this index_entry_timed [OF Cons.prems(3)]] show ?case
    by (simp add: index_entry_values index_entry_labels disj_assoc del: entryIsAssistant.simps)
qed simp

lemma buildIndex_inv:
  assumes "sm_fileEntries s = FHeader h # map FEntry es" and "wf_entries es"
  shows "tree_inv (buildIndex s)" and "label_inv (buildIndex s)"
    and "sm_leafId (buildIndex s) = (if es = [] then None else Some (entry_id (last es)))"
proof -
  let ?s0 = "s\<lparr>sm_byId := [], sm_labelsById := [], sm_labelTimestampsById := [], sm_leafId := None,
      sm_hasAssistant := False\<rparr>"
  have eq: "buildIndex s = fold index_entry (map FEntry es) ?s0"
    using assms(1) by (simp add: buildIndex_def index_entry_def)
  have es: "getEntries (buildIndex s) = es" using assms(1) by (simp add: getEntries_def)
  have "labels_timed ?s0" by (simp add: labels_timed_def)
  then have v: "sm_byId (buildIndex s) = map (\<lambda>e. (entry_id e, e)) es"
      "sm_leafId (buildIndex s) = (if es = [] then None else Some (entry_id (last es)))"
      "sm_hasAssistant (buildIndex s) = (\<exists>e\<in>set es. entryIsAssistant (FEntry e))"
      "sm_labelsById (buildIndex s) = fold label_step es []" "labels_timed (buildIndex s)"
    using fold_index_values [of ?s0 "[]" es] assms(2)
    by (simp_all add: eq wf_entries_def del: entryIsAssistant.simps split: if_splits)
  show "sm_leafId (buildIndex s) = (if es = [] then None else Some (entry_id (last es)))" by (rule v(2))
  show "label_inv (buildIndex s)" unfolding label_inv_def es replay_labels_def using v(4,5) by simp
  show "tree_inv (buildIndex s)"
    unfolding tree_inv_def es using v(1-3) assms by auto
qed

section \<open>Operations that keep the invariant\<close>

lemma disk_inv_close: "disk_inv s \<Longrightarrow> disk_inv (closeAppendFd s)"
  by (auto simp: disk_inv_def closeAppendFd_def)

lemma sm_inv_close [intro]: "sm_inv s \<Longrightarrow> sm_inv (closeAppendFd s)"
  using same_memory_inv [OF closeAppendFd_same] disk_inv_close by (simp add: sm_inv_def)

lemma sm_inv_timer: "sm_inv s \<Longrightarrow> sm_inv (closeTimerFires s)"
  by (auto simp: closeTimerFires_def)

lemma append_body_inv:
  assumes "sm_inv s" and "sm_fresh env s" and "\<not> is_label body" and "append_body env now body s = (r, t)"
  shows "sm_inv t"
proof -
  obtain n where t: "same_memory (push_entry (next_entry env now body s) (s\<lparr>sm_draws := n\<rparr>)) t"
      "tree_inv t" "disk_inv t"
    using append_body_ok [OF assms(1,2), of now body] assms(4) by auto
  have "label_inv t"
    by (rule appendEntries_label_inv [where s = "s\<lparr>sm_draws := n\<rparr>" and es = "[next_entry env now body s]"])
      (use assms t in \<open>simp_all add: sm_inv_def next_entry_def\<close>)
  then show ?thesis using t by (simp add: sm_inv_def)
qed

lemma appendLabelChange_inv:
  assumes "sm_inv s" and "sm_fresh env s" and "appendLabelChange env now target label s = (r, t)"
  shows "sm_inv t"
proof (cases "get_entry s target = None")
  case True
  then show ?thesis using assms by (simp add: appendLabelChange_def)
next
  case False
  let ?e = "next_entry env now (ELabel target label) s"
  obtain n t1 where t1: "append_body env now (ELabel target label) s = (Inr (next_id env s), t1)"
      "same_memory (push_entry ?e (s\<lparr>sm_draws := n\<rparr>)) t1" "tree_inv t1" "disk_inv t1"
    using append_body_ok [OF assms(1,2)] by blast
  then have t: "t = set_label target label now t1"
    using assms(3) False by (simp add: appendLabelChange_def)
  have es: "getEntries t1 = getEntries s @ [?e]" and "sm_labelsById t1 = sm_labelsById s"
      and "sm_labelTimestampsById t1 = sm_labelTimestampsById s"
    using same_memory_inv(3) [OF t1(2)] t1(2) by (simp_all add: same_memory_def)
  moreover have "labels_timed t1" using calculation assms(1)
    unfolding sm_inv_def label_inv_def labels_timed_def by metis
  moreover have "sm_labelsById (set_label target label now t1) = label_step ?e (sm_labelsById t1)"
    by (rule set_label_labels) (simp add: next_entry_def)
  ultimately have "label_inv t"
    using assms(1) t set_label_timed [of t1]
    by (simp add: label_inv_def sm_inv_def replay_labels_def getEntries_def)
  then show ?thesis using t1(3,4) t by (simp add: sm_inv_def)
qed

lemma appendCustomEntries_inv:
  assumes "sm_inv s"
    and "ids_fresh (env_uuid env) (length rs) (map fst (sm_byId s)) (sm_draws s)"
    and "appendCustomEntries env now rs s = (r, t)"
  shows "sm_inv t"
proof (cases "rs = []")
  case True
  then show ?thesis using assms by (simp add: appendCustomEntries_def)
next
  case False
  obtain es n where es: "custom_entries env now rs (map fst (sm_byId s)) (sm_leafId s) (sm_draws s) = (es, n)"
    by fastforce
  have ids: "set (map fst (sm_byId s)) = entry_id ` set (getEntries s)"
    using assms(1) by (auto simp: sm_inv_def tree_inv_def image_image)
  then have "set_option (sm_leafId s) \<subseteq> set (map fst (sm_byId s))"
    using assms(1) by (simp add: sm_inv_def tree_inv_def)
  from custom_entries_closed [OF assms(2) this, of now] ids es
  have closed: "closed_from (entry_id ` set (getEntries s)) es"
    and nolabel: "\<forall>e\<in>set es. \<not> is_label (entry_body e)" by auto
  have "wf_entries (getEntries (s\<lparr>sm_draws := n\<rparr>) @ es)"
    using closed assms(1) by (simp add: wf_entries_def closed_from_append sm_inv_def tree_inv_def)
  then obtain u where u: "appendEntries es (s\<lparr>sm_draws := n\<rparr>) = (Inr (), u)"
      "same_memory (fold push_entry es (s\<lparr>sm_draws := n\<rparr>)) u" "tree_inv u" "disk_inv u"
    using appendEntries_ok assms(1) sm_inv_draws(1) by blast
  have "label_inv u"
    by (rule appendEntries_label_inv [OF _ u(2) nolabel]) (use assms(1) in \<open>simp add: sm_inv_def\<close>)
  moreover have "t = u" using assms(3) False es u(1) by (auto simp: appendCustomEntries_def)
  ultimately show ?thesis using u by (simp add: sm_inv_def)
qed

lemma sm_inv_leaf:
  assumes "sm_inv s" and "set_option l \<subseteq> entry_id ` set (getEntries s)"
  shows "sm_inv (s\<lparr>sm_leafId := l\<rparr>)"
proof -
  have "tree_inv (s\<lparr>sm_leafId := l\<rparr>)"
    using assms by (simp add: sm_inv_def tree_inv_def getEntries_def)
  moreover have "label_inv (s\<lparr>sm_leafId := l\<rparr>) = label_inv s" "disk_inv (s\<lparr>sm_leafId := l\<rparr>) = disk_inv s"
    by (simp_all add: label_inv_def labels_timed_def disk_inv_def getEntries_def)
  ultimately show ?thesis using assms(1) by (simp add: sm_inv_def)
qed

lemma sm_fresh_leaf [simp]: "sm_fresh env (s\<lparr>sm_leafId := l\<rparr>) = sm_fresh env s"
  by (simp add: sm_fresh_def)

lemma stored_id:
  "sm_inv s \<Longrightarrow> get_entry s i \<noteq> None \<Longrightarrow> i \<in> entry_id ` set (getEntries s)"
  using tree_inv_lookup_None by (auto simp: sm_inv_def)

lemma branch_inv: "sm_inv s \<Longrightarrow> branch i s = (r, t) \<Longrightarrow> sm_inv t"
  using stored_id [of s i] sm_inv_leaf [of s "Some i"] by (auto simp: branch_def split: if_splits)

lemma resetLeaf_inv: "sm_inv s \<Longrightarrow> sm_inv (resetLeaf s)"
  using sm_inv_leaf [of s None] by (simp add: resetLeaf_def)

lemma branchWithSummary_inv:
  assumes "sm_inv s" and "sm_fresh env s"
    and "branchWithSummary env now from summary details fromHook s = (r, t)"
  shows "sm_inv t"
proof -
  let ?body = "EBranchSummary (case from of Some i \<Rightarrow> i | None \<Rightarrow> ''root'') summary details fromHook"
  consider (missing) i where "from = Some i" "get_entry s i = None"
    | (found) "sm_inv (s\<lparr>sm_leafId := from\<rparr>)" "append_body env now ?body (s\<lparr>sm_leafId := from\<rparr>) = (r, t)"
    using assms sm_inv_leaf [OF assms(1), of "from"] stored_id [OF assms(1)]
    by (cases "from") (auto simp: branchWithSummary_def split: if_splits)
  then show ?thesis
  proof cases
    case missing
    then show ?thesis using assms by (simp add: branchWithSummary_def)
  next
    case found
    show ?thesis by (rule append_body_inv [OF found(1) _ _ found(2)]) (use assms(2) in simp_all)
  qed
qed

text \<open>A session that holds only its header satisfies the invariant when its file is unused.\<close>

lemma header_only_inv:
  assumes "sm_fileEntries t = [FHeader h]" "sm_byId t = []" "sm_labelsById t = []"
    "sm_leafId t = None" "\<not> sm_hasAssistant t"
  shows "tree_inv t" and "label_inv t"
  using assms
  by (simp_all add: tree_inv_def label_inv_def labels_timed_def getEntries_def wf_entries_def
      replay_labels_def)

lemma empty_session_inv:
  assumes "sm_fileEntries t = [FHeader h]" "sm_byId t = []" "sm_labelsById t = []"
    "sm_leafId t = None" "\<not> sm_hasAssistant t" "\<not> sm_flushed t" "sm_appendFd t = None"
    "sm_persist t \<longrightarrow> (\<exists>p. sm_sessionFile t = Some p \<and> sm_fs t p = None)"
  shows "sm_inv t"
  using assms header_only_inv [OF assms(1-5)] by (simp add: sm_inv_def disk_inv_def)

abbreviation new_session_id :: "new_session_options \<Rightarrow> string \<Rightarrow> string" where
  "new_session_id options newId \<equiv> (case opt_id options of Some i \<Rightarrow> i | None \<Rightarrow> newId)"

lemma newSession_cases:
  assumes "newSession env options now newId s = (r, t)"
  obtains (invalid) e where "r = Inl e" "t = closeAppendFd s" "opt_id options \<noteq> None"
  | (created) h where "r = Inr (sm_sessionFile t)" "sm_fileEntries t = [FHeader h]" "sm_byId t = []"
      "sm_labelsById t = []" "sm_leafId t = None" "\<not> sm_hasAssistant t" "\<not> sm_flushed t"
      "sm_appendFd t = None" "sm_persist t = sm_persist s" "sm_fs t = sm_fs s"
      "sm_sessionDir t = sm_sessionDir s" "sm_draws t = sm_draws s"
      "sm_sessionFile t = (if sm_persist s
         then Some (session_path env (sm_sessionDir s) now (new_session_id options newId))
         else sm_sessionFile s)"
proof (cases "case opt_id options of None \<Rightarrow> Inr () | Some i \<Rightarrow> assertValidSessionId i")
  case (Inl e)
  then show ?thesis using assms invalid by (auto simp: newSession_def split: option.splits)
next
  case (Inr u)
  show ?thesis
    by (rule created)
      (use assms Inr in \<open>auto simp: newSession_def Let_def closeAppendFd_def split: if_splits\<close>)
qed

lemma newSession_inv:
  assumes "sm_inv s \<or> opt_id options = None"
    and "sm_persist s \<longrightarrow>
      sm_fs s (session_path env (sm_sessionDir s) now (new_session_id options newId)) = None"
    and "newSession env options now newId s = (r, t)"
  shows "sm_inv t"
  using assms(3)
proof (cases rule: newSession_cases)
  case invalid
  then show ?thesis using assms(1) by auto
next
  case created
  then show ?thesis using assms(2) by (intro empty_session_inv) auto
qed

section \<open>Opening a file and extracting a branch\<close>

text \<open>A file can be opened when what it holds, once migrated, is a header and a well-formed tree.\<close>

definition loads_wf :: "sm_env \<Rightarrow> string \<Rightarrow> sm_state \<Rightarrow> bool" where
  "loads_wf env file s \<longleftrightarrow>
     (let entries = loadEntriesFromFile (sm_fs s file);
          (_, entries', _) = migrateToCurrentVersion (env_uuid env) entries (sm_draws s)
      in entries \<noteq> [] \<longrightarrow> (\<exists>h es. entries' = FHeader h # map FEntry es \<and> wf_entries es))"

lemma loadEntries_parse:
  "loadEntriesFromFile (Some ls) \<noteq> [] \<Longrightarrow> loadEntriesFromFile (Some ls) = parseSessionEntries ls"
  by (auto simp: loadEntriesFromFile_def Let_def split: list.splits if_splits)

lemma rewriteFile_frame [simp]:
  "sm_fileEntries (rewriteFile s) = sm_fileEntries s"
  "sm_sessionFile (rewriteFile s) = sm_sessionFile s"
  "sm_persist (rewriteFile s) = sm_persist s"
  "sm_flushed (rewriteFile s) = sm_flushed s"
  "sm_hasAssistant (rewriteFile s) = sm_hasAssistant s"
  "sm_draws (rewriteFile s) = sm_draws s"
  "sm_byId (rewriteFile s) = sm_byId s"
  "sm_labelsById (rewriteFile s) = sm_labelsById s"
  "sm_leafId (rewriteFile s) = sm_leafId s"
  "sm_appendFd s = None \<Longrightarrow> sm_appendFd (rewriteFile s) = None"
  by (simp_all add: rewriteFile_def closeAppendFd_def Let_def split: option.split)

lemma rewriteFile_fs:
  "sm_persist s \<Longrightarrow> sm_sessionFile s = Some p \<Longrightarrow>
     sm_fs (rewriteFile s) p = Some (map Line (sm_fileEntries s))"
  by (simp add: rewriteFile_def closeAppendFd_def Let_def)

lemma rewriteFile_same: "same_memory s (rewriteFile s)"
  by (simp add: same_memory_def rewriteFile_def closeAppendFd_def Let_def split: option.split)

lemma inv_flushed_frame [simp]:
  "tree_inv (s\<lparr>sm_flushed := b\<rparr>) = tree_inv s"
  "label_inv (s\<lparr>sm_flushed := b\<rparr>) = label_inv s"
  by (simp_all add: tree_inv_def label_inv_def labels_timed_def getEntries_def)

lemma sm_inv_flushed:
  assumes "tree_inv s" and "label_inv s" and "sm_appendFd s = None"
    and "sm_persist s \<longrightarrow> (\<exists>p ls. sm_sessionFile s = Some p \<and> sm_fs s p = Some ls \<and>
      parseSessionEntries ls = sm_fileEntries s)"
  shows "sm_inv (s\<lparr>sm_flushed := True\<rparr>)"
proof -
  have "disk_inv (s\<lparr>sm_flushed := True\<rparr>)" using assms(3,4) by (auto simp: disk_inv_def)
  then show ?thesis using assms(1,2) by (simp add: sm_inv_def)
qed

text \<open>The three ways a file is opened: no file, a file without a usable header, a session.\<close>

lemma setSessionFile_inv:
  assumes "loads_wf env file s" and "setSessionFile env file now newId s = (r, t)"
  shows "sm_inv t"
proof (cases "sm_fs s file")
  case None
  let ?s = "(closeAppendFd s)\<lparr>sm_sessionFile := Some file\<rparr>"
  obtain r1 t1 where n: "newSession env default_options now newId ?s = (r1, t1)" by fastforce
  then have t: "t = t1\<lparr>sm_sessionFile := Some file\<rparr>"
    using assms(2) None by (simp add: setSessionFile_def closeAppendFd_def Let_def)
  from n show ?thesis
  proof (cases rule: newSession_cases)
    case created
    then show ?thesis using t None by (intro empty_session_inv) (auto simp: closeAppendFd_def)
  qed (simp add: default_options_def)
next
  case (Some ls)
  let ?s = "(closeAppendFd s)\<lparr>sm_sessionFile := Some file\<rparr>"
  let ?entries = "loadEntriesFromFile (sm_fs s file)"
  show ?thesis
  proof (cases "?entries = []")
    case True
    obtain r1 t1 where n: "newSession env default_options now newId (?s\<lparr>sm_fileEntries := []\<rparr>) = (r1, t1)"
      by fastforce
    let ?t = "rewriteFile (t1\<lparr>sm_sessionFile := Some file\<rparr>)"
    have t: "t = ?t\<lparr>sm_flushed := True\<rparr>"
      using assms(2) Some True n by (simp add: setSessionFile_def closeAppendFd_def Let_def)
    from n show ?thesis
    proof (cases rule: newSession_cases)
      case created
      then have "tree_inv ?t" "label_inv ?t" by (auto intro!: header_only_inv)
      then show ?thesis using created rewriteFile_fs [of "t1\<lparr>sm_sessionFile := Some file\<rparr>" "file"]
        unfolding t by (intro sm_inv_flushed) auto
    qed (simp add: default_options_def)
  next
    case False
    obtain m es' d where mig: "migrateToCurrentVersion (env_uuid env) ?entries (sm_draws s) = (m, es', d)"
      by (metis prod_cases3)
    then obtain h es where es': "es' = FHeader h # map FEntry es" and wf: "wf_entries es"
      using assms(1) False by (auto simp: loads_wf_def)
    define u where "u = ?s\<lparr>sm_fileEntries := es', sm_sessionId := case find_header ?entries of
        Some h \<Rightarrow> sh_id h | None \<Rightarrow> newId, sm_draws := d\<rparr>"
    define v where "v = (if m then rewriteFile u else u)"
    have t: "t = (buildIndex v)\<lparr>sm_flushed := True\<rparr>"
      using assms(2) Some False mig
      by (auto simp: setSessionFile_def closeAppendFd_def Let_def v_def u_def)
    have v: "sm_fileEntries v = FHeader h # map FEntry es" "sm_appendFd v = None"
      "sm_sessionFile v = Some file"
      by (auto simp: v_def u_def es' closeAppendFd_def)
    have "parseSessionEntries ls = ?entries" using loadEntries_parse Some False by simp
    moreover have "es' = ?entries" if "\<not> m"
      using mig that by (auto simp: migrateToCurrentVersion_def Let_def split: if_splits prod.splits)
    ultimately have "sm_persist v \<longrightarrow> (\<exists>ls. sm_fs v file = Some ls \<and> parseSessionEntries ls = sm_fileEntries v)"
      using Some rewriteFile_fs [of u "file"] by (auto simp: v_def u_def closeAppendFd_def)
    then show ?thesis unfolding t using v buildIndex_inv(1,2) [OF v(1) wf]
      by (intro sm_inv_flushed) auto
  qed
qed

text \<open>A path from the root is itself a well-formed list of entries.\<close>

lemma wf_path:
  assumes "tree_inv s" and "get_entry s i = Some e" and "walk (get_entry s) (Some e) [] = Some p"
  shows "wf_entries p"
  using assms
proof (induction "entry_rank s i" arbitrary: i e p rule: less_induct)
  case less
  have id: "entry_id e = i" "i \<noteq> ''''"
    using tree_inv_lookup [OF less.prems(1)] less.prems(1,2) closed_from_disjoint
    by (auto simp: tree_inv_def wf_entries_def)
  show ?case
  proof (cases "parentId e")
    case None
    then have "p = [e]" using less.prems(3) by (simp add: walk_root parent_of_def)
    then show ?thesis using None id by (simp add: wf_entries_def)
  next
    case (Some q)
    obtain r where r: "q \<noteq> ''''" "get_entry s q = Some r" "entry_rank s q < entry_rank s i"
      using tree_inv_parent [OF less.prems(1,2) Some] by blast
    then have par: "parent_of (get_entry s) e = Some r" using Some by (simp add: parent_of_def)
    obtain p' where p': "walk (get_entry s) (Some r) [] = Some p'" "last p' = r" "p' \<noteq> []"
      using sm.walk_returns [OF less.prems(1) r(2)] by (auto simp: root_path_def)
    have "p = p' @ [e]" using walk_child [OF par p'(1)] less.prems(3) by simp
    moreover have "i \<notin> entry_id ` set p'"
      using sm.walk_members [OF less.prems(1) r(2) p'(1)] r(3) by fastforce
    moreover have "q \<in> entry_id ` set p'"
      using p'(2,3) sm.lookup_id [OF less.prems(1) r(2)] last_in_set by fastforce
    ultimately show ?thesis
      using less.hyps [OF r(3) less.prems(1) r(2) p'(1)] id Some by (simp add: wf_entries_snoc)
  qed
qed

lemma getBranch_walk:
  assumes "getBranch (Some i) s = Some path" and "path \<noteq> []"
  obtains e where "get_entry s i = Some e" "walk (get_entry s) (Some e) [] = Some path"
proof (cases "if i \<noteq> '''' then get_entry s i else None")
  case None
  then show ?thesis using assms by (simp add: getBranch_def Let_def)
next
  case (Some e)
  then show ?thesis using assms(1) that [of e] by (simp add: getBranch_def Let_def split: if_splits)
qed

lemma js_last_ids:
  "wf_entries es \<Longrightarrow> (case js_last (map entry_id es) of Some i \<Rightarrow> (if i = '''' then None else Some i) | None \<Rightarrow> None) =
     js_last (map entry_id es)"
  by (cases es rule: rev_cases) (simp_all add: js_last_def wf_entries_snoc)

text \<open>
  Without label entries on the path the extracted session is the path itself followed by one label
  entry per labelled entry of it.
\<close>

lemma createBranchedSession_inv:
  assumes inv: "sm_inv s" and res: "createBranchedSession env leafId now newId s = Some (r, t)"
    and path: "getBranch (Some leafId) s = Some path"
    and nolabel: "\<forall>e\<in>set path. \<not> is_label (entry_body e)"
    and fresh: "ids_fresh (env_uuid env) (length (labels_to_write s (map entry_id path)))
      (map entry_id path) (sm_draws s)"
    and unused: "sm_persist s \<longrightarrow> sm_fs s (session_path env (sm_sessionDir s) now newId) = None"
  shows "sm_inv t \<and> (path \<noteq> [] \<longrightarrow> (\<exists>ls n. getEntries t = path @ ls \<and>
    label_entries env (labels_to_write s (map entry_id path)) (map entry_id path)
      (js_last (map entry_id path)) (sm_draws s) = (ls, n) \<and>
    sm_leafId t = Some (entry_id (last (path @ ls)))))"
proof (cases "path = []")
  case True
  then show ?thesis using res path inv by (simp add: createBranchedSession_def)
next
  case False
  obtain e where e: "get_entry s leafId = Some e" "walk (get_entry s) (Some e) [] = Some path"
    using getBranch_walk [OF path False] .
  have wf: "wf_entries path" using wf_path e inv by (auto simp: sm_inv_def)
  let ?ids = "map entry_id path"
  have flt: "filter (\<lambda>e. \<not> is_label (entry_body e)) path = path" using nolabel by (simp add: filter_id_conv)
  obtain ls n where ls: "label_entries env (labels_to_write s ?ids) ?ids (js_last ?ids) (sm_draws s) = (ls, n)"
    by fastforce
  have "set_option (js_last ?ids) \<subseteq> set ?ids"
    by (cases path rule: rev_cases) (auto simp: js_last_def)
  then have "closed_from (entry_id ` set path) ls"
    using label_entries_closed [OF fresh, of "js_last ?ids"] ls by simp
  then have wfls: "wf_entries (path @ ls)" using wf by (simp add: wf_entries_def closed_from_append)
  define h where "h = \<lparr>sh_version = Some CURRENT_SESSION_VERSION, sh_id = newId, sh_timestamp = now,
      sh_cwd = sm_cwd s, sh_parentSession = (if sm_persist s then sm_sessionFile s else None)\<rparr>"
  define fname where "fname = session_path env (sm_sessionDir s) now newId"
  define u where "u = (if sm_persist s
      then (closeAppendFd s)\<lparr>sm_fileEntries := FHeader h # map FEntry (path @ ls), sm_sessionId := newId,
        sm_sessionFile := Some fname, sm_draws := n\<rparr>
      else s\<lparr>sm_fileEntries := FHeader h # map FEntry (path @ ls), sm_sessionId := newId, sm_draws := n\<rparr>)"
  have u: "sm_fileEntries u = FHeader h # map FEntry (path @ ls)" "sm_persist u = sm_persist s"
    "sm_persist s \<Longrightarrow> sm_appendFd u = None \<and> sm_sessionFile u = Some fname \<and> sm_fs u fname = None"
    using unused by (simp_all add: u_def fname_def closeAppendFd_def)
  note ix = buildIndex_inv [OF u(1) wfls]
  have es: "getEntries (buildIndex u) = path @ ls" by (simp add: getEntries_def u(1))
  have t: "t = (if \<not> sm_persist s then buildIndex u
      else if sm_hasAssistant (buildIndex u) then (rewriteFile (buildIndex u))\<lparr>sm_flushed := True\<rparr>
      else (buildIndex u)\<lparr>sm_flushed := False\<rparr>)"
    using res path False ls flt js_last_ids [OF wf]
    by (simp add: createBranchedSession_def u_def h_def fname_def Let_def split: if_splits)
  have "sm_inv t"
  proof (cases "sm_persist s \<and> sm_hasAssistant (buildIndex u)")
    case True
    let ?v = "rewriteFile (buildIndex u)"
    have "tree_inv ?v" "label_inv ?v" using ix(1,2) same_memory_inv [OF rewriteFile_same] by simp_all
    moreover have "t = ?v\<lparr>sm_flushed := True\<rparr>" using t True by simp
    ultimately show ?thesis
      using u True rewriteFile_fs [of "buildIndex u" fname] by (auto intro!: sm_inv_flushed)
  next
    case False
    have "tree_inv t" "label_inv t"
      using t False ix(1,2) by auto
    moreover have "disk_inv t" using t False u by (auto simp: disk_inv_def)
    ultimately show ?thesis by (simp add: sm_inv_def)
  qed
  moreover have "getEntries t = path @ ls" using t es by (simp add: getEntries_def)
  moreover have "sm_leafId t = Some (entry_id (last (path @ ls)))"
    using t ix(3) False by (simp split: if_splits)
  ultimately show ?thesis using ls by blast
qed

end
