(* ===== verification/SessionProps.thy ===== *)
theory SessionProps
  imports SessionSteps
begin

text \<open>
  The session manager as a state machine: the steps a running agent takes on one manager, the
  states it can reach, and what the methods mean for the conversation the model is shown (the
  context of the current leaf) and for the file on disk.
\<close>

section \<open>Steps and reachable states\<close>

text \<open>
  One step per public method that changes state. The side conditions are what the code relies on:
  usable random ids, a new session's file name that is not in use, a file that holds a session.
\<close>

inductive sm_edit :: "sm_env \<Rightarrow> sm_state \<Rightarrow> sm_state \<Rightarrow> bool" for env where
  append: "sm_fresh env s \<Longrightarrow> \<not> is_label body \<Longrightarrow> append_body env now body s = (r, t) \<Longrightarrow> sm_edit env s t"
| custom: "ids_fresh (env_uuid env) (length rs) (map fst (sm_byId s)) (sm_draws s) \<Longrightarrow>
    appendCustomEntries env now rs s = (r, t) \<Longrightarrow> sm_edit env s t"
| label: "sm_fresh env s \<Longrightarrow> appendLabelChange env now target label s = (r, t) \<Longrightarrow> sm_edit env s t"
| move: "branch i s = (r, t) \<Longrightarrow> sm_edit env s t"
| reset: "sm_edit env s (resetLeaf s)"
| summary: "sm_fresh env s \<Longrightarrow>
    branchWithSummary env now frm summary details fromHook s = (r, t) \<Longrightarrow> sm_edit env s t"
| timer: "sm_edit env s (closeTimerFires s)"
| dispose_fd: "sm_edit env s (dispose s)"

text \<open>Edits stay in one session; the other steps replace it.\<close>

inductive sm_step :: "sm_env \<Rightarrow> sm_state \<Rightarrow> sm_state \<Rightarrow> bool" for env where
  edit: "sm_edit env s t \<Longrightarrow> sm_step env s t"
| new_session: "sm_persist s \<longrightarrow>
      sm_fs s (session_path env (sm_sessionDir s) now (new_session_id options newId)) = None \<Longrightarrow>
    newSession env options now newId s = (r, t) \<Longrightarrow> sm_step env s t"
| extract_branch: "getBranch (Some leaf) s = Some path \<Longrightarrow> \<forall>e\<in>set path. \<not> is_label (entry_body e) \<Longrightarrow>
    ids_fresh (env_uuid env) (length (labels_to_write s (map entry_id path)))
      (map entry_id path) (sm_draws s) \<Longrightarrow>
    sm_persist s \<longrightarrow> sm_fs s (session_path env (sm_sessionDir s) now newId) = None \<Longrightarrow>
    createBranchedSession env leaf now newId s = Some (r, t) \<Longrightarrow> sm_step env s t"
| reopen: "loads_wf env f s \<Longrightarrow> setSessionFile env f now newId s = (r, t) \<Longrightarrow> sm_step env s t"

text \<open>A manager starts on a new session or on an existing file.\<close>

inductive sm_reachable :: "sm_env \<Rightarrow> sm_state \<Rightarrow> bool" for env where
  created: "s0 = blank_state cwd dir persist fs n \<Longrightarrow>
    persist \<longrightarrow> fs (session_path env dir now (new_session_id options newId)) = None \<Longrightarrow>
    construct env None options now newId s0 = (Inr (), s) \<Longrightarrow> sm_reachable env s"
| opened: "s0 = blank_state cwd dir persist fs n \<Longrightarrow> f \<noteq> '''' \<Longrightarrow> loads_wf env f s0 \<Longrightarrow>
    construct env (Some f) options now newId s0 = (Inr (), s) \<Longrightarrow> sm_reachable env s"
| stepped: "sm_reachable env s \<Longrightarrow> sm_step env s t \<Longrightarrow> sm_reachable env t"

lemma sm_edit_inv: "sm_edit env s t \<Longrightarrow> sm_inv s \<Longrightarrow> sm_inv t"
  by (induction rule: sm_edit.induct)
    (auto simp: dispose_def intro: append_body_inv appendCustomEntries_inv appendLabelChange_inv
      branch_inv resetLeaf_inv branchWithSummary_inv sm_inv_timer)

lemma sm_step_inv: "sm_step env s t \<Longrightarrow> sm_inv s \<Longrightarrow> sm_inv t"
proof (induction rule: sm_step.induct)
  case (new_session s now options newId r t)
  then show ?case using newSession_inv by blast
next
  case (extract_branch leaf s path now newId r t)
  then show ?case using createBranchedSession_inv by blast
qed (auto intro: sm_edit_inv setSessionFile_inv)

lemma reachable_sm_inv: "sm_reachable env s \<Longrightarrow> sm_inv s"
proof (induction rule: sm_reachable.induct)
  case (created s0 cwd dir persist fs n now options newId s)
  obtain r t where n: "newSession env options now newId s0 = (r, t)" by fastforce
  then have "r \<noteq> Inl e" "t = s" for e using created(3) by (auto simp: construct_def)
  from n show ?case
  proof (cases rule: newSession_cases)
    case created
    then show ?thesis using \<open>t = s\<close> \<open>s0 = _\<close> \<open>persist \<longrightarrow> _\<close>
      by (intro empty_session_inv) (auto simp: blank_state_def)
  qed (use \<open>r \<noteq> Inl _\<close> in blast)
next
  case (opened s0 cwd dir persist fs n f options now newId s)
  then show ?case using setSessionFile_inv by (simp add: construct_def)
qed (blast intro: sm_step_inv)

lemma reachable_parts:
  "sm_reachable env s \<Longrightarrow> tree_inv s"
  "sm_reachable env s \<Longrightarrow> label_inv s"
  "sm_reachable env s \<Longrightarrow> disk_inv s"
  by (auto dest: reachable_sm_inv simp: sm_inv_def)

section \<open>The context of the current leaf\<close>

text \<open>The messages of the current context, for a state whose walk returns.\<close>

abbreviation context_messages :: "sm_state \<Rightarrow> agent_message list option" where
  "context_messages s \<equiv> map_option ctx_messages (sm_buildSessionContext s)"

definition leaf_path :: "sm_state \<Rightarrow> session_entry list" where
  "leaf_path s = (case getBranch None s of Some p \<Rightarrow> p | None \<Rightarrow> [])"

lemma tree_inv_leaf:
  assumes "tree_inv s" and "sm_leafId s = Some i"
  obtains e where "get_entry s i = Some e" "i \<noteq> ''''" "entry_id e = i"
proof -
  obtain e where "e \<in> set (getEntries s)" "entry_id e = i"
    using assms by (auto simp: tree_inv_def)
  moreover have "i \<noteq> ''''"
    using calculation assms(1) closed_from_disjoint by (auto simp: tree_inv_def wf_entries_def)
  ultimately show ?thesis using that tree_inv_lookup [OF assms(1)] by blast
qed

lemma empty_path_context: "path_context [] = empty_context"
  by (simp add: path_context_def empty_context_def path_messages_def initial_settings_def)

text \<open>The context is the context of the path the walk finds, and the walk always returns.\<close>

lemma context_of_path:
  assumes "tree_inv s"
  shows "getBranch None s = Some (leaf_path s)" and
    "sm_buildSessionContext s = Some (path_context (leaf_path s))"
proof -
  show b: "getBranch None s = Some (leaf_path s)"
  proof (cases "sm_leafId s")
    case (Some i)
    then obtain e where e: "get_entry s i = Some e" "i \<noteq> ''''" using tree_inv_leaf assms by metis
    then show ?thesis using sm.walk_total [OF assms e(1)] Some
      by (auto simp: leaf_path_def getBranch_def Let_def)
  qed (simp add: leaf_path_def getBranch_def)
  show "sm_buildSessionContext s = Some (path_context (leaf_path s))"
  proof (cases "sm_leafId s")
    case None
    then have "leaf_path s = []" using b by (simp add: getBranch_def)
    then show ?thesis
      using None by (simp add: sm_buildSessionContext_def buildSessionContext_def empty_path_context)
  next
    case (Some i)
    then obtain e where "get_entry s i = Some e" "i \<noteq> ''''" using tree_inv_leaf assms by metis
    then show ?thesis using b Some
      by (simp add: sm_buildSessionContext_def buildSessionContext_def getBranch_def Let_def)
  qed
qed

text \<open>A pushed entry whose parent is the leaf extends the path by itself.\<close>

lemma push_leaf_path:
  assumes "tree_inv s" and "tree_inv t" and "getEntries t = getEntries s @ [e]"
    and "sm_leafId t = Some (entry_id e)" and "parentId e = sm_leafId s"
  shows "leaf_path t = leaf_path s @ [e]"
proof -
  have e: "get_entry t (entry_id e) = Some e" using assms(2,3) tree_inv_lookup by auto
  have id: "entry_id e \<noteq> ''''" using assms(2,4) tree_inv_leaf by metis
  have ext: "get_entry t j = Some x" if "get_entry s j = Some x" for j x
    using that assms(1-3) tree_inv_lookup by auto
  have "walk (get_entry t) (Some e) [] = Some (leaf_path s @ [e])"
  proof (cases "sm_leafId s")
    case None
    then have "leaf_path s = []" by (simp add: leaf_path_def getBranch_def)
    then show ?thesis using assms(5) None by (simp add: walk_root parent_of_def)
  next
    case (Some i)
    then obtain q where q: "get_entry s i = Some q" "i \<noteq> ''''" using tree_inv_leaf assms(1) by metis
    then have w: "walk (get_entry s) (Some q) [] = Some (leaf_path s)"
      using context_of_path(1) [OF assms(1)] Some by (simp add: getBranch_def)
    have "walk (get_entry t) (Some q) [] = Some (leaf_path s)"
      by (rule sm.walk_extend [OF assms(1) q(1) w ext])
    moreover have "parent_of (get_entry t) e = Some q"
      using assms(5) Some q ext by (simp add: parent_of_def)
    ultimately show ?thesis by (rule walk_child [rotated])
  qed
  then show ?thesis using e id assms(4) by (simp add: leaf_path_def getBranch_def)
qed

lemma append_body_leaf_path:
  assumes "sm_inv s" and "sm_fresh env s"
  obtains t where "append_body env now body s = (Inr (next_id env s), t)"
    "leaf_path t = leaf_path s @ [next_entry env now body s]"
    "getEntries t = getEntries s @ [next_entry env now body s]" "tree_inv t"
    "sm_leafId t = Some (next_id env s)"
proof -
  let ?e = "next_entry env now body s"
  obtain t n where t: "append_body env now body s = (Inr (next_id env s), t)"
      "same_memory (push_entry ?e (s\<lparr>sm_draws := n\<rparr>)) t" "tree_inv t"
    using append_body_ok [OF assms] by blast
  have es: "getEntries t = getEntries s @ [?e]" using same_memory_inv(3) [OF t(2)] by simp
  have leaf: "sm_leafId t = Some (next_id env s)" using t(2) by (simp add: same_memory_def next_entry_def)
  have "leaf_path t = leaf_path s @ [?e]"
    using push_leaf_path [OF _ t(3) es] assms(1) leaf by (simp add: sm_inv_def next_entry_def)
  then show ?thesis using that t es leaf by blast
qed

lemma leaf_path_stored:
  assumes "tree_inv s" and "x \<in> set (leaf_path s)"
  shows "x \<in> set (getEntries s)"
proof (cases "sm_leafId s")
  case None
  then show ?thesis using assms by (simp add: leaf_path_def getBranch_def)
next
  case (Some i)
  then obtain e where e: "get_entry s i = Some e" "i \<noteq> ''''" using tree_inv_leaf assms by metis
  then have "walk (get_entry s) (Some e) [] = Some (leaf_path s)"
    using context_of_path(1) [OF assms(1)] Some by (simp add: getBranch_def)
  from sm.walk_members [OF assms(1) e(1) this assms(2)] show ?thesis
    using tree_inv_lookup [OF assms(1)] by blast
qed

lemma leaf_path_distinct:
  assumes "tree_inv s"
  shows "distinct (map entry_id (leaf_path s))"
proof (cases "sm_leafId s")
  case (Some i)
  then obtain x where x: "get_entry s i = Some x" "i \<noteq> ''''" using tree_inv_leaf assms by metis
  then have "walk (get_entry s) (Some x) [] = Some (leaf_path s)"
    using context_of_path(1) [OF assms] Some by (simp add: getBranch_def)
  then show ?thesis using wf_path assms x(1) wf_entries_distinct by blast
qed (simp add: leaf_path_def getBranch_def)

text \<open>The path after a compaction entry: the summary, and the path from the first kept entry on.\<close>

lemma compaction_path_messages:
  assumes "distinct (map entry_id (pre @ e # post))" and "entry_body x = ECompaction c"
    and "cp_firstKeptEntryId c = entry_id e" and "entry_id x \<notin> entry_id ` set (pre @ e # post)"
  shows "path_messages ((pre @ e # post) @ [x]) =
    createCompactionSummaryMessage (cp_summary c) (cp_tokensBefore c) (entry_timestamp x) #
      concat (map entry_messages (e # post))"
proof -
  have "entry_id e \<notin> entry_id ` set pre" using assms(1) by simp
  then have "\<forall>y\<in>set pre. entry_id y \<noteq> entry_id e" by (metis imageI)
  then have "kept_messages (entry_id e) False (pre @ e # post) = concat (map entry_messages (e # post))"
    by (rule kept_messages_split)
  moreover have "\<forall>y\<in>set (pre @ e # post). entry_id y \<noteq> entry_id x" using assms(4) by (metis imageI)
  ultimately show ?thesis
    using path_messages_snoc_compaction [OF assms(2), of "pre @ e # post"] assms(3) by simp
qed

text \<open>Entries that are only added leave every path that existed before.\<close>

lemma getBranch_extend:
  assumes "tree_inv s" and "tree_inv t" and "getEntries t = getEntries s @ es"
    and "get_entry s i \<noteq> None" and "i \<noteq> ''''"
  shows "getBranch (Some i) t = getBranch (Some i) s \<and> getBranch (Some i) s \<noteq> None"
proof -
  obtain e where e: "get_entry s i = Some e" using assms(4) by blast
  have ext: "get_entry t j = Some x" if "get_entry s j = Some x" for j x
    using that assms(1-3) tree_inv_lookup by auto
  obtain p where p: "walk (get_entry s) (Some e) [] = Some p" using sm.walk_total assms(1) e by blast
  have "walk (get_entry t) (Some e) [] = Some p" by (rule sm.walk_extend [OF assms(1) e p ext])
  then show ?thesis using e ext [OF e] assms(5) p by (simp add: getBranch_def)
qed

section \<open>Edits only add\<close>

lemma append_body_entries:
  assumes "sm_inv s" and "sm_fresh env s" and "append_body env now body s = (r, t)"
  shows "getEntries t = getEntries s @ [next_entry env now body s]"
  using append_body_leaf_path [OF assms(1,2), of now body] assms(3) by auto

lemma appendEntries_entries: "appendEntries es s = (r, t) \<Longrightarrow> getEntries t = getEntries s @ es"
  using persistBatch_same same_memory_inv(3) by (fastforce simp: appendEntries_def)

lemma getEntries_leaf [simp]: "getEntries (s\<lparr>sm_leafId := l\<rparr>) = getEntries s"
  by (simp add: getEntries_def)

lemma sm_edit_extends:
  assumes "sm_edit env s t" and "sm_inv s"
  shows "\<exists>es. getEntries t = getEntries s @ es"
  using assms
proof (induction rule: sm_edit.induct)
  case (append s body now r t)
  then show ?case using append_body_entries by blast
next
  case (custom rs s now r t)
  then show ?case
    by (fastforce simp: appendCustomEntries_def dest: appendEntries_entries split: if_splits prod.splits sum.splits)
next
  case (label s now target label r t)
  then obtain u r' where "t = s \<or> (append_body env now (ELabel target label) s = (r', u) \<and>
      getEntries t = getEntries u)"
    by (fastforce simp: appendLabelChange_def getEntries_def split: if_splits prod.splits sum.splits)
  then show ?case using append_body_entries [OF label(3,1)] by (metis append_Nil2)
next
  case (summary s now frm summary details fromHook r t)
  show ?case
  proof (cases "\<exists>i. frm = Some i \<and> get_entry s i = None")
    case True
    then show ?thesis using summary by (auto simp: branchWithSummary_def)
  next
    case False
    then have inv: "sm_inv (s\<lparr>sm_leafId := frm\<rparr>)"
      using sm_inv_leaf [OF summary(3), of frm] stored_id [OF summary(3)] by (cases frm) auto
    have "\<exists>body. append_body env now body (s\<lparr>sm_leafId := frm\<rparr>) = (r, t)"
      using False summary(2) by (cases frm) (auto simp: branchWithSummary_def)
    then show ?thesis using append_body_entries [OF inv] summary(1) by fastforce
  qed
qed (auto simp: branch_def resetLeaf_def closeTimerFires_def dispose_def closeAppendFd_def getEntries_def
    split: if_splits)

section \<open>Paths without branches\<close>

text \<open>A list of entries in which each is the parent of the next, after an optional parent.\<close>

fun chained :: "string option \<Rightarrow> session_entry list \<Rightarrow> bool" where
  "chained parent [] = True"
| "chained parent (e # es) = (parentId e = parent \<and> chained (Some (entry_id e)) es)"

lemma chained_append:
  "chained q (xs @ ys) \<longleftrightarrow>
     chained q xs \<and> chained (if xs = [] then q else Some (entry_id (last xs))) ys"
  by (induction xs arbitrary: q) auto

lemma label_entries_chained:
  "chained parent (fst (label_entries env ls reserved parent n))"
proof (induction env ls reserved parent n rule: label_entries.induct)
  case (2 env targetId label ts ls reserved parent n)
  obtain i n1 where g: "generateId (env_uuid env) (\<lambda>j. j \<in> set reserved) n = (i, n1)" by fastforce
  show ?case using "2.IH" [OF refl] g by (simp add: case_prod_beta)
qed simp

lemma chained_walk:
  assumes "chained None es" and "es \<noteq> []" and "\<forall>e\<in>set es. get (entry_id e) = Some e \<and> entry_id e \<noteq> ''''"
  shows "walk get (Some (last es)) [] = Some es"
  using assms
proof (induction es rule: rev_induct)
  case (snoc e es)
  show ?case
  proof (cases "es = []")
    case True
    then show ?thesis using snoc.prems by (simp add: walk_root parent_of_def)
  next
    case False
    then have "walk get (Some (last es)) [] = Some es" using snoc by (simp add: chained_append)
    moreover have "parent_of get e = Some (last es)"
      using snoc.prems False by (simp add: chained_append parent_of_def)
    ultimately show ?thesis using walk_child by simp
  qed
qed simp

lemma root_path_chained:
  assumes "root_path get p" and "parentId (hd p) = None"
    and "\<forall>e\<in>set p. get (entry_id e) = Some e" and "\<And>i e. get i = Some e \<Longrightarrow> entry_id e = i"
  shows "chained None p"
proof -
  have "chained None (take k p)" if "k \<le> length p" for k
    using that
  proof (induction k)
    case (Suc k)
    then have k: "k < length p" by simp
    have "parentId (p ! k) = (if k = 0 then None else Some (entry_id (p ! (k - 1))))"
    proof (cases k)
      case 0
      then show ?thesis using assms(1,2) by (simp add: root_path_def hd_conv_nth)
    next
      case (Suc j)
      then have "parent_of get (p ! k) = Some (p ! j)" using assms(1) k by (simp add: root_path_def)
      then show ?thesis using assms(4) Suc by (auto simp: parent_of_def split: option.splits if_splits)
    qed
    then show ?case using Suc k
      by (cases k) (auto simp: take_Suc_conv_app_nth chained_append last_conv_nth)
  qed simp
  from this [of "length p"] show ?thesis by simp
qed

lemma chained_leaf_path:
  assumes "tree_inv s" and "chained None (getEntries s)" and "getEntries s \<noteq> []"
    and "sm_leafId s = Some (entry_id (last (getEntries s)))"
  shows "leaf_path s = getEntries s"
proof -
  have wf: "closed_from {} (getEntries s)" using assms(1) by (simp add: tree_inv_def wf_entries_def)
  have mem: "\<forall>e\<in>set (getEntries s). get_entry s (entry_id e) = Some e \<and> entry_id e \<noteq> ''''"
    using tree_inv_lookup [OF assms(1)] closed_from_disjoint [OF wf] by blast
  have "walk (get_entry s) (Some (last (getEntries s))) [] = Some (getEntries s)"
    by (rule chained_walk [OF assms(2,3) mem])
  moreover have "get_entry s (entry_id (last (getEntries s))) = Some (last (getEntries s))"
    "entry_id (last (getEntries s)) \<noteq> ''''"
    using mem assms(3) by auto
  ultimately show ?thesis using assms(4) by (simp add: leaf_path_def getBranch_def)
qed

lemma labels_no_context:
  assumes "\<forall>e\<in>set ls. is_label (entry_body e)"
  shows "path_context (p @ ls) = path_context p"
  using assms
proof (induction ls rule: rev_induct)
  case (snoc e ls)
  then obtain t l where e: "entry_body e = ELabel t l" by (cases "entry_body e") auto
  then have "path_messages ((p @ ls) @ [e]) = path_messages (p @ ls)"
    by (subst path_messages_snoc) (simp_all add: entry_messages_def)
  moreover have "settings_step e c = c" for c using e by (simp add: settings_step_def)
  ultimately have "path_context ((p @ ls) @ [e]) = path_context (p @ ls)"
    by (simp add: path_context_def Let_def)
  then show ?case using snoc by simp
qed simp

lemma extracted_context:
  assumes "sm_inv s" and "getBranch (Some leaf) s = Some path" "path \<noteq> []" and "sm_inv t"
    and "getEntries t = path @ ls" and "sm_leafId t = Some (entry_id (last (path @ ls)))"
    and ls: "label_entries env todo ids (js_last (map entry_id path)) n = (ls, n')"
  shows "sm_buildSessionContext t = Some (path_context path)"
proof -
  have tree: "tree_inv s" "tree_inv t" using assms(1,4) by (simp_all add: sm_inv_def)
  obtain e where e: "get_entry s leaf = Some e" "walk (get_entry s) (Some e) [] = Some path"
    using getBranch_walk [OF assms(2,3)] .
  have "chained None path"
  proof (rule root_path_chained)
    show "root_path (get_entry s) path" using sm.walk_root_path tree(1) e by blast
    show "parentId (hd path) = None" using sm.walk_first_is_root tree(1) e by blast
  qed (use sm.walk_members [OF tree(1) e] sm.lookup_id [OF tree(1)] in blast)+
  moreover have "js_last (map entry_id path) = Some (entry_id (last path))"
    using assms(3) by (simp add: js_last_def last_map)
  moreover have "chained (js_last (map entry_id path)) ls" using label_entries_chained ls by (metis fst_conv)
  ultimately have "chained None (getEntries t)" using assms(3,5) by (simp add: chained_append)
  then have "leaf_path t = path @ ls" using chained_leaf_path tree(2) assms(3,5,6) by simp
  moreover have "\<forall>x\<in>set ls. is_label (entry_body x)" using label_entries_labels ls by (metis fst_conv)
  ultimately show ?thesis using context_of_path(2) [OF tree(2)] labels_no_context by simp
qed

section \<open>A concrete run\<close>

text \<open>
  A session kept on disk: a user message, an assistant message (which creates the file), and a
  second branch from the user message. The random source of the run is injective.
\<close>

definition demo_env :: sm_env where
  "demo_env = \<lparr>env_uuid = (\<lambda>n. replicate (Suc n) CHR ''a''), env_fileTimestamp = (\<lambda>_. ''t'')\<rparr>"

definition demo_user :: agent_message where
  "demo_user = UserMsg \<lparr>um_content = CString ''hi'', um_timestamp = 1\<rparr>"

definition demo_usage :: usage where
  "demo_usage = \<lparr>u_input = 10, u_output = 5, u_cacheRead = 0, u_cacheWrite = 0, u_totalTokens = 15,
     u_cost = \<lparr>cost_input = 0, cost_output = 0, cost_cacheRead = 0, cost_cacheWrite = 0, cost_total = 0\<rparr>\<rparr>"

definition demo_reply :: agent_message where
  "demo_reply = AssistantMsg \<lparr>am_content = [TextBlock ''hello'' None], am_api = ''a'', am_provider = ''p'',
     am_model = ''m'', am_extra = JUndefined, am_usage = demo_usage, am_stopReason = StopStop,
     am_errorMessage = None, am_timestamp = 2\<rparr>"

definition demo_0 :: sm_state where
  "demo_0 = snd (construct demo_env None default_options 0 ''sid'' (blank_state ''/w'' ''/s'' True Map.empty 0))"

definition demo_1 :: sm_state where
  "demo_1 = snd (appendMessage demo_env 1 demo_user demo_0)"

definition demo_2 :: sm_state where
  "demo_2 = snd (appendMessage demo_env 2 demo_reply demo_1)"

lemma demo_uuid [simp]: "env_uuid demo_env n = replicate (Suc n) CHR ''a''"
  by (simp add: demo_env_def)

lemma demo_fresh_next:
  assumes "get_entry s (replicate (min 8 (Suc (sm_draws s))) CHR ''a'') = None"
  shows "sm_fresh demo_env s"
    and "generateId (env_uuid demo_env) (\<lambda>i. get_entry s i \<noteq> None) (sm_draws s) =
      (replicate (min 8 (Suc (sm_draws s))) CHR ''a'', Suc (sm_draws s))"
proof -
  have free: "get_entry s (take 8 (env_uuid demo_env (sm_draws s + 0))) = None"
    using assms by (simp add: take_replicate)
  have "\<exists>k<100. \<not> get_entry s (take 8 (env_uuid demo_env (sm_draws s + k))) \<noteq> None"
    by (rule exI [of _ 0]) (use free in simp)
  then show "sm_fresh demo_env s" by (simp add: sm_fresh_def draws_fresh_def)
  show "generateId (env_uuid demo_env) (\<lambda>i. get_entry s i \<noteq> None) (sm_draws s) =
      (replicate (min 8 (Suc (sm_draws s))) CHR ''a'', Suc (sm_draws s))"
    using generateId_loop.simps(2) [of "env_uuid demo_env" "\<lambda>i. get_entry s i \<noteq> None" 99 "sm_draws s"] free
    by (simp add: generateId_def take_replicate eval_nat_numeral Let_def)
qed

definition demo_header :: session_header where
  "demo_header = \<lparr>sh_version = Some 3, sh_id = ''sid'', sh_timestamp = 0, sh_cwd = ''/w'',
     sh_parentSession = None\<rparr>"

lemma demo_0_eval:
  "demo_0 = \<lparr>sm_sessionId = ''sid'', sm_sessionFile = Some ''/s/t_sid.jsonl'', sm_sessionDir = ''/s'',
     sm_cwd = ''/w'', sm_persist = True, sm_flushed = False, sm_hasAssistant = False,
     sm_appendFd = None, sm_closeTimer = False, sm_fileEntries = [FHeader demo_header],
     sm_byId = [], sm_labelsById = [], sm_labelTimestampsById = [], sm_leafId = None,
     sm_fs = Map.empty, sm_draws = 0\<rparr>"
  by (simp add: demo_0_def construct_def newSession_def blank_state_def default_options_def Let_def
      closeAppendFd_def session_path_def join_path_def demo_env_def demo_header_def
      CURRENT_SESSION_VERSION_def)

definition demo_e1 :: session_entry where
  "demo_e1 = \<lparr>entry_id = ''a'', parentId = None, entry_timestamp = 1, entry_body = EMessage demo_user\<rparr>"

definition demo_e2 :: session_entry where
  "demo_e2 = \<lparr>entry_id = ''aa'', parentId = Some ''a'', entry_timestamp = 2, entry_body = EMessage demo_reply\<rparr>"

lemma demo_1_eval:
  "demo_1 = demo_0\<lparr>sm_fileEntries := [FHeader demo_header, FEntry demo_e1], sm_byId := [(''a'', demo_e1)],
     sm_leafId := Some ''a'', sm_draws := 1\<rparr>"
  unfolding demo_1_def appendMessage_def append_body_def draw_id_def
  using demo_fresh_next(2) [of demo_0]
  by (simp add: demo_0_eval Let_def appendEntries_def push_entry_def persistBatch_def demo_e1_def
      demo_user_def)

lemma demo_2_eval:
  "demo_2 = demo_1\<lparr>sm_fileEntries := [FHeader demo_header, FEntry demo_e1, FEntry demo_e2],
     sm_byId := [(''a'', demo_e1), (''aa'', demo_e2)], sm_leafId := Some ''aa'', sm_draws := 2,
     sm_hasAssistant := True, sm_flushed := True,
     sm_fs := [''/s/t_sid.jsonl'' \<mapsto> [Line (FHeader demo_header), Line (FEntry demo_e1), Line (FEntry demo_e2)]]\<rparr>"
  unfolding demo_2_def appendMessage_def append_body_def draw_id_def
  using demo_fresh_next(2) [of demo_1]
  by (simp add: demo_1_eval demo_0_eval Let_def appendEntries_def push_entry_def persistBatch_def
      demo_e2_def demo_reply_def eval_nat_numeral closeAppendFd_def)

lemma demo_reachable: "sm_reachable demo_env demo_0" "sm_reachable demo_env demo_1" "sm_reachable demo_env demo_2"
proof -
  show 0: "sm_reachable demo_env demo_0"
    by (rule sm_reachable.created [where cwd = "''/w''" and dir = "''/s''" and persist = True and fs = Map.empty
          and n = 0 and options = default_options and now = 0 and newId = "''sid''"])
      (simp_all add: demo_0_def construct_def newSession_def default_options_def Let_def)
  have step: "sm_reachable demo_env (snd (appendMessage demo_env now m s))"
    if "sm_reachable demo_env s" "sm_fresh demo_env s" for now m s
  proof -
    obtain r t where "append_body demo_env now (EMessage m) s = (r, t)" by fastforce
    then show ?thesis using sm_edit.append [OF that(2), of "EMessage m" now r t] that(1)
      by (auto simp: appendMessage_def intro: sm_reachable.stepped sm_step.edit)
  qed
  show 1: "sm_reachable demo_env demo_1" unfolding demo_1_def
    by (rule step [OF 0 demo_fresh_next(1)]) (simp add: demo_0_eval)
  show "sm_reachable demo_env demo_2" unfolding demo_2_def
    by (rule step [OF 1 demo_fresh_next(1)]) (simp add: demo_1_eval demo_0_eval)
qed

lemma demo_e2_id: "entry_id demo_e2 = ''aa''"
  by (simp add: demo_e2_def)

lemma demo_fresh_2: "sm_fresh demo_env demo_2"
  by (rule demo_fresh_next(1)) (simp add: demo_2_eval demo_1_eval demo_0_eval eval_nat_numeral)

section \<open>Properties of the session store\<close>



text \<open>
  C2: Once a persistent session holds an assistant message, its whole history is on disk: loading
  the session file gives exactly the header and entries in memory, in order.
\<close>

theorem assistant_turns_durable:
  assumes "sm_reachable env s" and "sm_persist s" and "e \<in> set (getEntries s)"
    and "entryIsAssistant (FEntry e)"
  shows "\<exists>p. sm_sessionFile s = Some p \<and> loadEntriesFromFile (sm_fs s p) = sm_fileEntries s"
proof -
  have tree: "tree_inv s" and disk: "disk_inv s" using reachable_parts [OF assms(1)] by auto
  have "sm_hasAssistant s" using tree assms(3,4) unfolding tree_inv_def by blast
  then obtain p ls where p: "sm_sessionFile s = Some p" "sm_fs s p = Some ls"
      "parseSessionEntries ls = sm_fileEntries s"
    using disk assms(2) by (auto simp: disk_inv_def split: if_splits)
  obtain h where "sm_fileEntries s = FHeader h # map FEntry (getEntries s)"
    using tree by (auto simp: tree_inv_def)
  then show ?thesis using p by (simp add: loadEntriesFromFile_def)
qed

theorem assistant_turns_durable_witness:
  "\<exists>p. sm_sessionFile demo_2 = Some p \<and> loadEntriesFromFile (sm_fs demo_2 p) = sm_fileEntries demo_2"
  by (rule assistant_turns_durable [OF demo_reachable(3), of demo_e2])
    (simp_all add: demo_2_eval demo_1_eval demo_0_eval getEntries_def demo_e2_def demo_reply_def)

text \<open>
  C3: \<open>appendMessage\<close> always succeeds with a new id, and the conversation the model sees afterwards
  is the old one with the message at its end.
\<close>

theorem appendMessage_context:
  assumes "sm_reachable env s" and "sm_fresh env s"
  shows "\<exists>i t msgs. appendMessage env now m s = (Inr i, t) \<and> get_entry s i = None \<and>
    sm_leafId t = Some i \<and> map_option ctx_messages (sm_buildSessionContext s) = Some msgs \<and>
    map_option ctx_messages (sm_buildSessionContext t) = Some (msgs @ [m])"
proof -
  have inv: "sm_inv s" using reachable_sm_inv assms(1) .
  then have tree: "tree_inv s" by (simp add: sm_inv_def)
  obtain t where t: "append_body env now (EMessage m) s = (Inr (next_id env s), t)"
      "leaf_path t = leaf_path s @ [next_entry env now (EMessage m) s]" "tree_inv t"
      "sm_leafId t = Some (next_id env s)"
    using append_body_leaf_path [OF inv assms(2), of now "EMessage m"] by blast
  have "path_messages (leaf_path t) = path_messages (leaf_path s) @ [m]"
    unfolding t(2) by (subst path_messages_snoc) (simp_all add: next_entry_def entry_messages_def)
  moreover have "get_entry s (next_id env s) = None"
    using generateId_fresh assms(2) unfolding sm_fresh_def by blast
  ultimately show ?thesis
    using t(1,4) context_of_path(2) [OF tree] context_of_path(2) [OF t(3)]
    by (simp add: appendMessage_def path_context_def Let_def)
qed

theorem appendMessage_context_witness:
  "\<exists>i t msgs. appendMessage demo_env 2 demo_reply demo_1 = (Inr i, t) \<and> get_entry demo_1 i = None \<and>
    sm_leafId t = Some i \<and> map_option ctx_messages (sm_buildSessionContext demo_1) = Some msgs \<and>
    map_option ctx_messages (sm_buildSessionContext t) = Some (msgs @ [demo_reply])"
  by (rule appendMessage_context [OF demo_reachable(2) demo_fresh_next(1)])
    (simp add: demo_1_eval demo_0_eval)

text \<open>
  C4: Sessions are append-only. Whatever edit is made, no stored entry changes or disappears, and the
  branch of every entry that existed before (hence the context obtained by going back to it) is the
  same afterwards; reading it always terminates.
\<close>

theorem edits_keep_branches:
  assumes "sm_reachable env s" and "sm_edit env s t" and "get_entry s i = Some e"
  shows "\<exists>es p. getEntries t = getEntries s @ es \<and> get_entry t i = Some e \<and>
    getBranch (Some i) s = Some p \<and> getBranch (Some i) t = Some p"
proof -
  have inv: "sm_inv s" using reachable_sm_inv assms(1) .
  obtain es where es: "getEntries t = getEntries s @ es" using sm_edit_extends [OF assms(2) inv] by blast
  have tree: "tree_inv s" "tree_inv t" using inv sm_edit_inv [OF assms(2) inv] by (simp_all add: sm_inv_def)
  have e: "e \<in> set (getEntries s)" "entry_id e = i" using tree_inv_lookup tree(1) assms(3) by auto
  then have "i \<noteq> ''''" using tree(1) closed_from_disjoint by (auto simp: tree_inv_def wf_entries_def)
  then have "getBranch (Some i) t = getBranch (Some i) s" "getBranch (Some i) s \<noteq> None"
    using getBranch_extend [OF tree es] assms(3) by auto
  moreover have "get_entry t i = Some e" using tree_inv_lookup [OF tree(2)] e es by simp
  ultimately show ?thesis using es by auto
qed

theorem edits_keep_branches_witness:
  "\<exists>es p. getEntries (resetLeaf demo_2) = getEntries demo_2 @ es \<and>
    get_entry (resetLeaf demo_2) ''aa'' = Some demo_e2 \<and>
    getBranch (Some ''aa'') demo_2 = Some p \<and> getBranch (Some ''aa'') (resetLeaf demo_2) = Some p"
  by (rule edits_keep_branches [OF demo_reachable(3) sm_edit.reset])
    (simp add: demo_2_eval demo_1_eval demo_0_eval)

text \<open>
  Compaction replaces the front of the conversation by the summary and keeps the rest: after
  \<open>appendCompaction\<close> with a first kept entry on the current path, the context is the summary
  message followed by the messages of the path from that entry on.
\<close>

theorem appendCompaction_context:
  assumes "sm_reachable env s" and "sm_fresh env s"
    and "getBranch None s = Some (pre @ e # post)"
  shows "\<exists>i t. appendCompaction env now summ (entry_id e) toks details hook s = (Inr i, t) \<and>
    map_option ctx_messages (sm_buildSessionContext t) =
      Some (createCompactionSummaryMessage summ toks now # concat (map entry_messages (e # post)))"
proof -
  have inv: "sm_inv s" using reachable_sm_inv assms(1) .
  then have tree: "tree_inv s" by (simp add: sm_inv_def)
  let ?c = "\<lparr>cp_summary = summ, cp_firstKeptEntryId = entry_id e, cp_firstKeptEntryIndex = None,
      cp_tokensBefore = toks, cp_details = details, cp_fromHook = hook\<rparr>"
  obtain t where t: "append_body env now (ECompaction ?c) s = (Inr (next_id env s), t)"
      "leaf_path t = leaf_path s @ [next_entry env now (ECompaction ?c) s]" "tree_inv t"
    using append_body_leaf_path [OF inv assms(2), of now "ECompaction ?c"] by blast
  have path: "leaf_path s = pre @ e # post" using assms(3) by (simp add: leaf_path_def)
  have "get_entry s (next_id env s) = None"
    using generateId_fresh assms(2) unfolding sm_fresh_def by blast
  then have "next_id env s \<notin> entry_id ` set (leaf_path s)"
    using leaf_path_stored [OF tree] tree_inv_lookup_None [OF tree] by blast
  then have "path_messages (leaf_path t) =
      createCompactionSummaryMessage summ toks now # concat (map entry_messages (e # post))"
    unfolding t(2) path
    by (subst compaction_path_messages [where c = ?c])
      (use leaf_path_distinct [OF tree] path in \<open>simp_all add: next_entry_def\<close>)
  moreover have "appendCompaction env now summ (entry_id e) toks details hook s = (Inr (next_id env s), t)"
    using t(1) by (simp add: appendCompaction_def)
  ultimately show ?thesis
    using context_of_path(2) [OF t(3)] by (simp add: path_context_def Let_def)
qed

theorem appendCompaction_context_witness:
  "\<exists>i t. appendCompaction demo_env 3 ''sum'' ''aa'' 15 JUndefined False demo_2 = (Inr i, t) \<and>
    map_option ctx_messages (sm_buildSessionContext t) =
      Some (createCompactionSummaryMessage ''sum'' 15 3 # concat (map entry_messages [demo_e2]))"
proof -
  have "getBranch None demo_2 = Some ([demo_e1] @ demo_e2 # [])"
    by (simp add: getBranch_def demo_2_eval walk.simps parent_of_def demo_e1_def demo_e2_def)
  from appendCompaction_context [OF demo_reachable(3) demo_fresh_2 this, of 3 "''sum''" 15 JUndefined False]
  show ?thesis unfolding demo_e2_id by simp
qed

text \<open>
  Extracting a branch into a session of its own succeeds and shows the model the same
  conversation: when the branch holds no label entries, the new session's entries are the branch
  followed by label entries only, and its context is the context of the branch.
\<close>

theorem createBranchedSession_context:
  assumes "sm_reachable env s" and "getBranch (Some leaf) s = Some path" and "path \<noteq> []"
    and "\<forall>e\<in>set path. \<not> is_label (entry_body e)"
    and "ids_fresh (env_uuid env) (length (labels_to_write s (map entry_id path)))
      (map entry_id path) (sm_draws s)"
    and "sm_persist s \<longrightarrow> sm_fs s (session_path env (sm_sessionDir s) now newId) = None"
  shows "\<exists>t ls. createBranchedSession env leaf now newId s =
      Some (Inr (if sm_persist s then Some (session_path env (sm_sessionDir s) now newId) else None), t) \<and>
    sm_reachable env t \<and> getEntries t = path @ ls \<and> (\<forall>e\<in>set ls. is_label (entry_body e)) \<and>
    sm_buildSessionContext t = Some (path_context path)"
proof -
  have inv: "sm_inv s" using reachable_sm_inv assms(1) .
  obtain r t where t: "createBranchedSession env leaf now newId s = Some (r, t)"
    "r = Inr (if sm_persist s then Some (session_path env (sm_sessionDir s) now newId) else None)"
    using assms(2,3) by (force simp: createBranchedSession_def Let_def split: prod.splits)
  obtain ls n where ls: "getEntries t = path @ ls" "sm_leafId t = Some (entry_id (last (path @ ls)))"
      "label_entries env (labels_to_write s (map entry_id path)) (map entry_id path)
        (js_last (map entry_id path)) (sm_draws s) = (ls, n)" and "sm_inv t"
    using createBranchedSession_inv [OF inv t(1) assms(2,4,5,6)] assms(3) by blast
  have "sm_buildSessionContext t = Some (path_context path)"
    by (rule extracted_context [OF inv assms(2,3) \<open>sm_inv t\<close> ls])
  moreover have "\<forall>e\<in>set ls. is_label (entry_body e)" using label_entries_labels ls(3) by (metis fst_conv)
  moreover have "sm_reachable env t"
    using sm_step.extract_branch [OF assms(2,4-6) t(1)] assms(1) sm_reachable.stepped by blast
  ultimately show ?thesis using t ls(1) by blast
qed

lemma demo_branch: "getBranch (Some ''aa'') demo_2 = Some [demo_e1, demo_e2]"
  by (simp add: getBranch_def demo_2_eval walk.simps parent_of_def demo_e1_def demo_e2_def)

theorem createBranchedSession_context_witness:
  "\<exists>t ls. createBranchedSession demo_env ''aa'' 9 ''new'' demo_2 =
      Some (Inr (if sm_persist demo_2 then Some (session_path demo_env (sm_sessionDir demo_2) 9 ''new'') else None), t) \<and>
    sm_reachable demo_env t \<and> getEntries t = [demo_e1, demo_e2] @ ls \<and>
    sm_buildSessionContext t = Some (path_context [demo_e1, demo_e2])"
proof -
  have "\<forall>e\<in>set [demo_e1, demo_e2]. \<not> is_label (entry_body e)" by (simp add: demo_e1_def demo_e2_def)
  moreover have "labels_to_write demo_2 ids = []" for ids
    by (simp add: labels_to_write_def demo_2_eval demo_1_eval demo_0_eval)
  then have "ids_fresh (env_uuid demo_env) (length (labels_to_write demo_2 (map entry_id [demo_e1, demo_e2])))
      (map entry_id [demo_e1, demo_e2]) (sm_draws demo_2)" by simp
  moreover have "sm_persist demo_2 \<longrightarrow> sm_fs demo_2 (session_path demo_env (sm_sessionDir demo_2) 9 ''new'') = None"
    by (simp add: demo_2_eval demo_1_eval demo_0_eval session_path_def join_path_def demo_env_def)
  ultimately show ?thesis
    using createBranchedSession_context [OF demo_reachable(3) demo_branch, of 9 "''new''"] by blast
qed

text \<open>
  C30: Reopening restores a session. For a flushed session in the current format, opening its file in a
  new manager gives the same entries, index and labels, leaves the disk alone, and continues at the
  last entry of the file.
\<close>

theorem reopen_restores:
  assumes "sm_reachable env s" and "sm_persist s" and "sm_flushed s" and "sm_sessionFile s = Some p"
    and "CURRENT_SESSION_VERSION \<le> session_version (sm_fileEntries s)"
  shows "\<exists>t. setSessionFile env p now newId (blank_state cwd dir True (sm_fs s) (sm_draws s)) = (Inr (), t) \<and>
    sm_fileEntries t = sm_fileEntries s \<and> sm_byId t = sm_byId s \<and> sm_labelsById t = sm_labelsById s \<and>
    sm_fs t = sm_fs s \<and> sm_inv t \<and> sm_leafId t = map_option entry_id (js_last (getEntries s))"
proof -
  have tree: "tree_inv s" and lab: "label_inv s" and disk: "disk_inv s"
    using reachable_parts [OF assms(1)] by auto
  let ?b = "blank_state cwd dir True (sm_fs s) (sm_draws s)"
  obtain ls where ls: "sm_fs s p = Some ls" "parseSessionEntries ls = sm_fileEntries s"
    using disk assms(2-4) by (auto simp: disk_inv_def)
  obtain h where h: "sm_fileEntries s = FHeader h # map FEntry (getEntries s)"
    using tree by (auto simp: tree_inv_def)
  then have load: "loadEntriesFromFile (Some ls) = sm_fileEntries s" and ne: "sm_fileEntries s \<noteq> []"
    using ls(2) by (simp_all add: loadEntriesFromFile_def)
  have mig: "migrateToCurrentVersion (env_uuid env) (sm_fileEntries s) (sm_draws s) =
      (False, sm_fileEntries s, sm_draws s)"
    using assms(5) by (simp add: migrateToCurrentVersion_def)
  define u where "u = ?b\<lparr>sm_sessionFile := Some p, sm_fileEntries := sm_fileEntries s,
      sm_sessionId := sh_id h\<rparr>"
  have "find_header (sm_fileEntries s) = Some h" by (simp add: h)
  then have set: "setSessionFile env p now newId ?b = (Inr (), (buildIndex u)\<lparr>sm_flushed := True\<rparr>)"
    using ls(1) load ne mig
    by (simp add: setSessionFile_def Let_def closeAppendFd_def blank_state_def u_def)
  have wf: "wf_entries (getEntries s)" using tree by (simp add: tree_inv_def)
  have "sm_fileEntries u = FHeader h # map FEntry (getEntries s)" by (simp add: u_def h)
  note ix = buildIndex_inv [OF this wf]
  have es: "getEntries (buildIndex u) = getEntries s" by (simp add: getEntries_def u_def)
  have "loads_wf env p ?b" using ls load mig h wf by (auto simp: loads_wf_def blank_state_def)
  then have "sm_inv ((buildIndex u)\<lparr>sm_flushed := True\<rparr>)" using setSessionFile_inv set by blast
  moreover have "sm_byId (buildIndex u) = sm_byId s" "sm_labelsById (buildIndex u) = sm_labelsById s"
    using ix(1,2) tree lab es by (simp_all add: tree_inv_def label_inv_def)
  moreover have "sm_leafId (buildIndex u) = map_option entry_id (js_last (getEntries s))"
    using ix(3) by (simp add: js_last_def)
  moreover have "sm_fs (buildIndex u) = sm_fs s" by (simp add: u_def blank_state_def)
  ultimately show ?thesis using set by (auto simp: u_def)
qed

theorem reopen_restores_witness:
  "\<exists>t. setSessionFile demo_env ''/s/t_sid.jsonl'' 9 ''x'' (blank_state ''/w'' ''/s'' True (sm_fs demo_2) (sm_draws demo_2)) = (Inr (), t) \<and>
    sm_fileEntries t = sm_fileEntries demo_2 \<and> sm_byId t = sm_byId demo_2 \<and>
    sm_labelsById t = sm_labelsById demo_2 \<and> sm_fs t = sm_fs demo_2 \<and> sm_inv t \<and>
    sm_leafId t = map_option entry_id (js_last (getEntries demo_2))"
  by (rule reopen_restores [OF demo_reachable(3)])
    (simp_all add: demo_2_eval demo_1_eval demo_0_eval session_version_def demo_header_def
      CURRENT_SESSION_VERSION_def)

end
