(* ===== verification/SessionMigration.thy ===== *)
theory SessionMigration
  imports SessionProps
begin

text \<open>
  Loading old session files. A file of version 1 is a list without ids: the migration gives every
  entry an id and makes each the parent of the next. The result is a well-formed tree when the drawn
  ids differ, and a cycle the walk never leaves when they do not.
\<close>

lemma generateId_unreserved [simp]:
  "generateId uuid (\<lambda>_. False) n = (take 8 (uuid n), Suc n)"
  using generateId_loop.simps(2) [of uuid "\<lambda>_. False" 99 n]
  by (simp add: generateId_def eval_nat_numeral Let_def)

text \<open>What the migration keeps of an entry: everything but the ids and the index of a compaction.\<close>

fun migrated_body :: "(nat \<Rightarrow> string) \<Rightarrow> nat \<Rightarrow> entry_body \<Rightarrow> entry_body \<Rightarrow> bool" where
  "migrated_body new k (ECompaction c) b \<longleftrightarrow>
     (\<exists>c'. b = ECompaction c' \<and> cp_summary c' = cp_summary c \<and> cp_tokensBefore c' = cp_tokensBefore c \<and>
        cp_firstKeptEntryIndex c' = None \<and>
        (\<forall>i. cp_firstKeptEntryIndex c = Some i \<and> 0 < i \<and> i \<le> Suc k \<longrightarrow>
          cp_firstKeptEntryId c' = new (i - 1)))"
| "migrated_body new k b b' \<longleftrightarrow> b' = b"

definition migrated_entries :: "(nat \<Rightarrow> string) \<Rightarrow> session_entry list \<Rightarrow> session_entry list \<Rightarrow> bool" where
  "migrated_entries new es fs \<longleftrightarrow> length fs = length es \<and> chained None fs \<and>
     (\<forall>k<length es. entry_id (fs ! k) = new k \<and> entry_timestamp (fs ! k) = entry_timestamp (es ! k) \<and>
        migrated_body new k (entry_body (es ! k)) (entry_body (fs ! k)))"

lemma migrated_entries_snoc:
  assumes "migrated_entries new es fs" and "entry_id f = new (length es)"
    and "parentId f = (if es = [] then None else Some (new (length es - 1)))"
    and "entry_timestamp f = entry_timestamp e"
    and "migrated_body new (length es) (entry_body e) (entry_body f)"
  shows "migrated_entries new (es @ [e]) (fs @ [f])"
proof -
  have "chained None (fs @ [f])"
    using assms(1,3) by (cases "es = []") (auto simp: migrated_entries_def chained_append last_conv_nth)
  then show ?thesis using assms(1,2,4,5) by (auto simp: migrated_entries_def nth_append less_Suc_eq)
qed

lemma migrate_compaction_body:
  fixes fs :: "session_entry list"
  assumes "length fs = Suc k" and "\<forall>j\<le>k. entry_id (fs ! j) = new j"
  shows "migrated_body new k (ECompaction c)
    (ECompaction (migrate_compaction_index (FHeader h # map FEntry (fs @ rest)) c))"
proof (cases "cp_firstKeptEntryIndex c")
  case (Some i)
  show ?thesis
  proof (cases "0 < i \<and> i \<le> Suc k")
    case True
    then obtain j where j: "i = Suc j" "j \<le> k" by (cases i) auto
    then have "js_at (FHeader h # map FEntry (fs @ rest)) i = Some (FEntry (fs ! j))"
      using assms(1) by (simp add: js_at_def nth_append)
    then show ?thesis using Some j assms(2) by (simp add: migrate_compaction_index_def)
  next
    case False
    then show ?thesis
      using Some by (auto simp: migrate_compaction_index_def Let_def split: option.split file_entry.split)
  qed
qed (simp add: migrate_compaction_index_def)

lemma list_update_at_length: "(xs @ y # ys)[length xs := z] = xs @ z # ys"
  by simp

lemma migrateV1_prefix:
  fixes uuid n
  defines "new \<equiv> \<lambda>k. take 8 (uuid (n + k))"
  assumes "k \<le> length es"
  shows "\<exists>fs. migrated_entries new (take k es) fs \<and>
    fold (migrateV1_step uuid) [0..<Suc k] (FHeader h # map FEntry es, None, n) =
      (FHeader (h\<lparr>sh_version := Some 2\<rparr>) # map FEntry (fs @ drop k es),
       if k = 0 then None else Some (new (k - 1)), n + k)"
  using assms(2)
proof (induction k)
  case 0
  then show ?case by (intro exI [of _ "[]"]) (simp add: migrated_entries_def migrateV1_step_def)
next
  case (Suc k)
  then obtain fs where fs: "migrated_entries new (take k es) fs"
    and fold: "fold (migrateV1_step uuid) [0..<Suc k] (FHeader h # map FEntry es, None, n) =
      (FHeader (h\<lparr>sh_version := Some 2\<rparr>) # map FEntry (fs @ drop k es),
       if k = 0 then None else Some (new (k - 1)), n + k)"
    by auto
  have k: "k < length es" "length fs = k" using Suc.prems fs by (auto simp: migrated_entries_def)
  define h2 where "h2 = h\<lparr>sh_version := Some 2\<rparr>"
  define prev where "prev = (if k = 0 then None else Some (new (k - 1)))"
  define e where "e = es ! k"
  define e1 where "e1 = e\<lparr>entry_id := new k, parentId := prev\<rparr>"
  define full where "full = FHeader h2 # map FEntry ((fs @ [e1]) @ drop (Suc k) es)"
  define f where "f = (case entry_body e1 of
      ECompaction c \<Rightarrow> e1\<lparr>entry_body := ECompaction (migrate_compaction_index full c)\<rparr> | _ \<Rightarrow> e1)"
  have drop: "drop k es = e # drop (Suc k) es" using k by (simp add: e_def Cons_nth_drop_Suc)
  have upd: "(map FEntry fs @ x # ys)[k := z] = map FEntry fs @ z # ys" for x z ys
    using list_update_at_length [of "map FEntry fs"] k(2) by simp
  have nth: "(map FEntry fs @ x # ys) ! k = x" for x ys
    using nth_append_length [of "map FEntry fs"] k(2) by simp
  have "migrateV1_step uuid (Suc k) (FHeader h2 # map FEntry (fs @ drop k es), prev, n + k) =
      (FHeader h2 # map FEntry ((fs @ [f]) @ drop (Suc k) es), Some (new k), n + Suc k)"
    unfolding drop f_def full_def
    by (cases "entry_body e") (simp_all add: migrateV1_step_def nth upd Let_def e1_def new_def)
  moreover have "migrated_entries new (take (Suc k) es) (fs @ [f])"
  proof -
    have "migrated_body new k (entry_body e) (entry_body f)"
    proof (cases "entry_body e")
      case (ECompaction c)
      have "\<forall>j\<le>k. entry_id ((fs @ [e1]) ! j) = new j"
        using fs k by (auto simp: migrated_entries_def nth_append e1_def)
      then have "migrated_body new k (ECompaction c) (ECompaction (migrate_compaction_index full c))"
        unfolding full_def using k(2) by (intro migrate_compaction_body) simp_all
      then show ?thesis using ECompaction by (simp add: f_def e1_def)
    qed (simp_all add: f_def e1_def)
    moreover have "entry_id f = new k" "parentId f = prev" "entry_timestamp f = entry_timestamp e"
      by (simp_all add: f_def e1_def split: entry_body.split)
    moreover have "length (take k es) = k" "take k es = [] \<longleftrightarrow> k = 0" using k(1) by auto
    ultimately show ?thesis
      using migrated_entries_snoc [OF fs, of f e] k(1)
      by (simp add: take_Suc_conv_app_nth e_def prev_def)
  qed
  ultimately show ?case
    using fold by (intro exI [of _ "fs @ [f]"]) (simp add: h2_def prev_def)
qed

lemma migrateV1ToV2_chain:
  fixes uuid n
  defines "new \<equiv> \<lambda>k. take 8 (uuid (n + k))"
  shows "\<exists>fs. migrated_entries new es fs \<and>
    migrateV1ToV2 uuid (FHeader h # map FEntry es) n =
      (FHeader (h\<lparr>sh_version := Some 2\<rparr>) # map FEntry fs, n + length es)"
proof -
  obtain fs where "migrated_entries new es fs" "fold (migrateV1_step uuid) [0..<Suc (length es)]
      (FHeader h # map FEntry es, None, n) =
      (FHeader (h\<lparr>sh_version := Some 2\<rparr>) # map FEntry fs,
       if length es = 0 then None else Some (new (length es - 1)), n + length es)"
    using migrateV1_prefix [of "length es" es uuid n h] by (auto simp: new_def)
  then show ?thesis by (auto simp: migrateV1ToV2_def simp del: upt_Suc)
qed

text \<open>The entries of a chain with distinct non-empty ids are well-formed.\<close>

lemma chained_closed_from:
  assumes "chained parent es" and "set_option parent \<subseteq> seen" and "distinct (map entry_id es)"
    and "\<forall>e\<in>set es. entry_id e \<noteq> '''' \<and> entry_id e \<notin> seen"
  shows "closed_from seen es"
  using assms
proof (induction es arbitrary: parent seen)
  case (Cons e es)
  have "closed_from (insert (entry_id e) seen) es"
  proof (rule Cons.IH [where parent = "Some (entry_id e)"])
    have "entry_id e \<notin> entry_id ` set es" using Cons.prems(3) by simp
    then show "\<forall>x\<in>set es. entry_id x \<noteq> '''' \<and> entry_id x \<notin> insert (entry_id e) seen"
      using Cons.prems(4) by (metis imageI insertE list.set_intros(2))
  qed (use Cons.prems in simp_all)
  then show ?case using Cons.prems by simp
qed simp

definition v3_entry :: "session_entry \<Rightarrow> session_entry" where
  "v3_entry e = (case entry_body e of EMessage m \<Rightarrow> e\<lparr>entry_body := EMessage (rename_hook_role m)\<rparr> | _ \<Rightarrow> e)"

lemma migrateV2_v3: "migrateV2_entry (FEntry e) = FEntry (v3_entry e)"
  by (simp add: v3_entry_def split: entry_body.split)

lemma migrateV2ToV3_entries:
  "migrateV2ToV3 (FHeader h # map FEntry es) =
     FHeader (h\<lparr>sh_version := Some 3\<rparr>) # map FEntry (map v3_entry es)"
  by (simp add: migrateV2ToV3_def migrateV2_v3 del: migrateV2_entry.simps(2))

lemma v3_entry_frame [simp]:
  "entry_id (v3_entry e) = entry_id e" "parentId (v3_entry e) = parentId e"
  "entry_timestamp (v3_entry e) = entry_timestamp e"
  by (simp_all add: v3_entry_def split: entry_body.split)

lemma chained_v3 [simp]: "chained q (map v3_entry es) = chained q es"
  by (induction es arbitrary: q) auto

lemma index_entries_wf:
  assumes "wf_entries es"
  shows "index_entries es = map (\<lambda>e. (entry_id e, e)) es"
  using assms
proof (induction es rule: rev_induct)
  case (snoc e es)
  then have "index_entries es = map (\<lambda>e. (entry_id e, e)) es" by (simp add: wf_entries_snoc)
  moreover have "entry_id e \<notin> fst ` set (map (\<lambda>e. (entry_id e, e)) es)"
    using snoc.prems by (auto simp: wf_entries_snoc)
  ultimately show ?case by (simp add: index_entries_def AList_update_fresh)
qed (simp add: index_entries_def)

lemma chain_context:
  assumes "wf_entries es" and "chained None es"
  shows "buildSessionContext es LeafUndefined None = Some (path_context es)"
proof (cases "es = []")
  case True
  then show ?thesis by (simp add: buildSessionContext_def js_last_def empty_path_context)
next
  case False
  have "\<forall>e\<in>set es. map_of (index_entries es) (entry_id e) = Some e \<and> entry_id e \<noteq> ''''"
    using assms(1) closed_from_disjoint wf_entries_distinct
    by (auto simp: index_entries_wf map_of_entries wf_entries_def)
  from chained_walk [OF assms(2) False this] show ?thesis
    using False by (simp add: buildSessionContext_def js_last_def)
qed

text \<open>
  C32: Migrating a file of version 1 turns the list of entries into one branch: every entry gets a
  distinct id and the previous entry as its parent, keeps its time and content (a hook message becomes a
  custom message; a compaction's index becomes the id of the entry it pointed at), the header gets
  version 3, and the context of the migrated session is the context of the whole list. The random
  ids drawn must be non-empty and differ in their first eight characters.
\<close>

theorem migrate_v1_one_branch:
  assumes "\<forall>k<length es. uuid (n + k) \<noteq> ''''"
    and "distinct (map (\<lambda>k. take 8 (uuid (n + k))) [0..<length es])"
    and "sh_version h = None \<or> sh_version h = Some 1"
  shows "\<exists>fs. migrateToCurrentVersion uuid (FHeader h # map FEntry es) n =
      (True, FHeader (h\<lparr>sh_version := Some 3\<rparr>) # map FEntry fs, n + length es) \<and>
    length fs = length es \<and> wf_entries fs \<and> chained None fs \<and>
    buildSessionContext fs LeafUndefined None = Some (path_context fs) \<and>
    (\<forall>k<length es. entry_timestamp (fs ! k) = entry_timestamp (es ! k) \<and>
      (case entry_body (es ! k) of
         EMessage m \<Rightarrow> entry_body (fs ! k) = EMessage (rename_hook_role m)
       | b \<Rightarrow> migrated_body (\<lambda>k. take 8 (uuid (n + k))) k b (entry_body (fs ! k))))"
proof -
  let ?new = "\<lambda>k. take 8 (uuid (n + k))"
  obtain gs where gs: "migrated_entries ?new es gs"
    and m: "migrateV1ToV2 uuid (FHeader h # map FEntry es) n =
      (FHeader (h\<lparr>sh_version := Some 2\<rparr>) # map FEntry gs, n + length es)"
    using migrateV1ToV2_chain [of uuid n es h] by blast
  let ?fs = "map v3_entry gs"
  have "session_version (FHeader h # map FEntry es) < 2"
    using assms(3) by (auto simp: session_version_def)
  then have mig: "migrateToCurrentVersion uuid (FHeader h # map FEntry es) n =
      (True, FHeader (h\<lparr>sh_version := Some 3\<rparr>) # map FEntry ?fs, n + length es)"
    using m by (simp add: migrateToCurrentVersion_def Let_def CURRENT_SESSION_VERSION_def
        migrateV2ToV3_entries)
  have len: "length gs = length es" and ids: "map entry_id gs = map ?new [0..<length es]"
    using gs by (auto simp: migrated_entries_def intro!: nth_equalityI)
  have wf: "wf_entries ?fs" unfolding wf_entries_def
  proof (rule chained_closed_from [where parent = None])
    show "chained None ?fs" using gs by (simp add: migrated_entries_def)
    show "distinct (map entry_id ?fs)" using ids assms(2) by (simp add: comp_def)
    show "\<forall>e\<in>set ?fs. entry_id e \<noteq> '''' \<and> entry_id e \<notin> {}"
      using gs assms(1) by (auto simp: migrated_entries_def in_set_conv_nth)
  qed simp
  have "entry_timestamp (?fs ! k) = entry_timestamp (es ! k) \<and>
      (case entry_body (es ! k) of EMessage m \<Rightarrow> entry_body (?fs ! k) = EMessage (rename_hook_role m)
       | b \<Rightarrow> migrated_body ?new k b (entry_body (?fs ! k)))" if "k < length es" for k
  proof -
    have "migrated_body ?new k (entry_body (es ! k)) (entry_body (gs ! k))"
      "entry_timestamp (gs ! k) = entry_timestamp (es ! k)"
      using gs that by (simp_all add: migrated_entries_def)
    then show ?thesis using that len
      by (cases "entry_body (es ! k)") (auto simp: v3_entry_def)
  qed
  then show ?thesis using mig len wf chain_context [OF wf] gs
    by (intro exI [of _ ?fs]) (simp add: migrated_entries_def)
qed

theorem migrate_v1_one_branch_witness:
  "\<exists>fs. migrateToCurrentVersion (env_uuid demo_env) (FHeader (demo_header\<lparr>sh_version := None\<rparr>) # map FEntry [demo_e1, demo_e2]) 0 =
      (True, FHeader ((demo_header\<lparr>sh_version := None\<rparr>)\<lparr>sh_version := Some 3\<rparr>) # map FEntry fs, 0 + length [demo_e1, demo_e2]) \<and>
    length fs = length [demo_e1, demo_e2] \<and> wf_entries fs \<and> chained None fs \<and>
    buildSessionContext fs LeafUndefined None = Some (path_context fs)"
proof -
  have "\<forall>k<length [demo_e1, demo_e2]. env_uuid demo_env (0 + k) \<noteq> ''''" by simp
  moreover have "distinct (map (\<lambda>k. take 8 (env_uuid demo_env (0 + k))) [0..<length [demo_e1, demo_e2]])" by simp
  moreover have "sh_version (demo_header\<lparr>sh_version := None\<rparr>) = None \<or> sh_version (demo_header\<lparr>sh_version := None\<rparr>) = Some 1"
    by simp
  ultimately show ?thesis
    using migrate_v1_one_branch [of "[demo_e1, demo_e2]" "env_uuid demo_env" 0 "demo_header\<lparr>sh_version := None\<rparr>"]
    by blast
qed

text \<open>A lookup that leads an entry to itself keeps the walk from returning.\<close>

lemma walk_cycle:
  assumes "parent_of get e = Some e"
  shows "walk get (Some e) path = None"
proof (rule ccontr)
  assume "walk get (Some e) path \<noteq> None"
  then obtain r where "walk get (Some e) path = Some r" by blast
  from walk_agree_aux [OF this, of get] obtain p where p: "\<And>acc. walk get (Some e) acc = Some (p @ acc)"
    by auto
  have "walk get (Some e) [] = walk get (Some e) [e]" using assms by (subst walk_Some) simp
  then show False using p [of "[]"] p [of "[e]"] by simp
qed

text \<open>
  C36: The migration does not check the ids it draws against each other. When two consecutive draws
  agree in their first eight characters, the migrated session of two entries has an entry that is
  its own parent, and building its context never returns.
\<close>

theorem migrate_v1_collision_diverges:
  assumes "take 8 (uuid n) = take 8 (uuid (Suc n))" and "take 8 (uuid n) \<noteq> ''''"
    and "sh_version h = None"
  shows "\<exists>fs. snd (migrateToCurrentVersion uuid (FHeader h # map FEntry [e1, e2]) n) =
      (FHeader (h\<lparr>sh_version := Some 3\<rparr>) # map FEntry fs, Suc (Suc n)) \<and>
    buildSessionContext fs LeafUndefined None = None"
proof -
  let ?new = "\<lambda>k. take 8 (uuid (n + k))" and ?h = "h\<lparr>sh_version := Some 3\<rparr>"
  obtain gs where gs: "migrated_entries ?new [e1, e2] gs"
    and m: "migrateV1ToV2 uuid (FHeader h # map FEntry [e1, e2]) n =
      (FHeader (h\<lparr>sh_version := Some 2\<rparr>) # map FEntry gs, n + length [e1, e2])"
    using migrateV1ToV2_chain [of uuid n "[e1, e2]" h] by blast
  then obtain a b where ab: "gs = [a, b]" by (auto simp: migrated_entries_def length_Suc_conv)
  let ?a = "v3_entry a" and ?b = "v3_entry b"
  have mig: "snd (migrateToCurrentVersion uuid (FHeader h # map FEntry [e1, e2]) n) =
      (FHeader ?h # map FEntry [?a, ?b], Suc (Suc n))"
    using m ab assms(3) migrateV2ToV3_entries [of _ gs]
    by (simp add: migrateToCurrentVersion_def Let_def CURRENT_SESSION_VERSION_def session_version_def)
  have "entry_id a = take 8 (uuid n)" "entry_id b = take 8 (uuid (Suc n))" "parentId b = Some (entry_id a)"
    using gs ab by (auto simp: migrated_entries_def less_Suc_eq)
  then have ids: "entry_id b = entry_id a" "parentId b = Some (entry_id a)" "entry_id a \<noteq> ''''"
    using assms(1,2) by simp_all
  have "map_of (index_entries [?a, ?b]) (entry_id a) = Some ?b"
    using ids by (simp add: index_entries_def)
  then have "parent_of (map_of (index_entries [?a, ?b])) ?b = Some ?b"
    using ids by (simp add: parent_of_def)
  then have "buildSessionContext [?a, ?b] LeafUndefined None = None"
    by (simp add: buildSessionContext_def js_last_def walk_cycle)
  then show ?thesis using mig by blast
qed

theorem migrate_v1_collision_diverges_witness:
  "\<exists>fs. snd (migrateToCurrentVersion (\<lambda>_. ''deadbeef'') (FHeader (demo_header\<lparr>sh_version := None\<rparr>) # map FEntry [demo_e1, demo_e2]) 0) =
      (FHeader ((demo_header\<lparr>sh_version := None\<rparr>)\<lparr>sh_version := Some 3\<rparr>) # map FEntry fs, Suc (Suc 0)) \<and>
    buildSessionContext fs LeafUndefined None = None"
  by (rule migrate_v1_collision_diverges) simp_all

section \<open>Label entries on an extracted branch\<close>

definition labelled_run :: sm_state where
  "labelled_run = snd (appendMessage demo_env 4 demo_user
     (snd (appendLabelChange demo_env 3 ''a'' (Some ''start'') demo_2)))"

definition labelled_fork :: sm_state where
  "labelled_fork = (case createBranchedSession demo_env ''aaaa'' 9 ''new'' labelled_run of
     Some (_, t) \<Rightarrow> t | None \<Rightarrow> labelled_run)"

text \<open>
  Extracting a branch drops label entries without reattaching the entries that follow them. After a
  label was set in the middle of a conversation of three messages, the extracted session shows the
  model only the message after the label.
\<close>

theorem fork_after_label_loses_context:
  "map_option ctx_messages (sm_buildSessionContext labelled_run) = Some [demo_user, demo_reply, demo_user]
   \<and> map_option ctx_messages (sm_buildSessionContext labelled_fork) = Some [demo_user]"
  by code_simp

end
