(* ===== verification/Prompts.thy ===== *)
theory Prompts
  imports Prelude
begin

text \<open>
  The prompts of \<open>core/compaction/compaction.ts\<close>, \<open>core/compaction/utils.ts\<close> and
  \<open>core/compaction/branch-summarization.ts\<close>, line by line, and the rule of
  \<open>core/reflective-loop/crystallize.ts\<close> they embed.
\<close>

definition COMPACTION_LESSON_RULE :: string where
  "COMPACTION_LESSON_RULE =
     ''Keep the user intent, lesson ids, and errors. Drop verbose tool output.''"

definition SUMMARIZATION_SYSTEM_PROMPT :: string where
  "SUMMARIZATION_SYSTEM_PROMPT = js_join newline [
     ''You are a context summarization assistant. Your task is to read a conversation between a user and an AI coding assistant, then produce a structured summary following the exact format specified.'',
     '''',
     ''Do NOT continue the conversation. Do NOT respond to any questions in the conversation. ONLY output the structured summary.'']"

definition SUMMARIZATION_PROMPT :: string where
  "SUMMARIZATION_PROMPT = js_join newline [
     ''The messages above are a conversation to summarize. Create a structured context checkpoint summary that another LLM will use to continue the work.'',
     '''',
     ''Use this EXACT format:'',
     '''',
     ''## Goal'',
     ''[What is the user trying to accomplish? Can be multiple items if the session covers different tasks.]'',
     '''',
     ''## Constraints & Preferences'',
     ''- [Any constraints, preferences, or requirements mentioned by user]'',
     ''- [Or \"(none)\" if none were mentioned]'',
     '''',
     ''## Progress'',
     ''### Done'',
     ''- [x] [Completed tasks/changes]'',
     '''',
     ''### In Progress'',
     ''- [ ] [Current work]'',
     '''',
     ''### Blocked'',
     ''- [Issues preventing progress, if any]'',
     '''',
     ''## Key Decisions'',
     ''- **[Decision]**: [Brief rationale]'',
     '''',
     ''## Next Steps'',
     ''1. [Ordered list of what should happen next]'',
     '''',
     ''## Critical Context'',
     ''- [Any data, examples, or references needed to continue]'',
     ''- [Or \"(none)\" if not applicable]'',
     '''',
     ''Keep each section concise. Preserve exact file paths, function names, and error messages.'',
     COMPACTION_LESSON_RULE]"

definition UPDATE_SUMMARIZATION_PROMPT :: string where
  "UPDATE_SUMMARIZATION_PROMPT = js_join newline [
     ''The messages above are NEW conversation messages to incorporate into the existing summary provided in <previous-summary> tags.'',
     '''',
     ''Update the existing structured summary with new information. RULES:'',
     ''- PRESERVE all existing information from the previous summary'',
     ''- ADD new progress, decisions, and context from the new messages'',
     ''- UPDATE the Progress section: move items from \"In Progress\" to \"Done\" when completed'',
     ''- UPDATE \"Next Steps\" based on what was accomplished'',
     ''- PRESERVE exact file paths, function names, and error messages'',
     ''- If something is no longer relevant, you may remove it'',
     '''',
     ''Use this EXACT format:'',
     '''',
     ''## Goal'',
     ''[Preserve existing goals, add new ones if the task expanded]'',
     '''',
     ''## Constraints & Preferences'',
     ''- [Preserve existing, add new ones discovered]'',
     '''',
     ''## Progress'',
     ''### Done'',
     ''- [x] [Include previously done items AND newly completed items]'',
     '''',
     ''### In Progress'',
     ''- [ ] [Current work - update based on progress]'',
     '''',
     ''### Blocked'',
     ''- [Current blockers - remove if resolved]'',
     '''',
     ''## Key Decisions'',
     ''- **[Decision]**: [Brief rationale] (preserve all previous, add new)'',
     '''',
     ''## Next Steps'',
     ''1. [Update based on current state]'',
     '''',
     ''## Critical Context'',
     ''- [Preserve important context, add new if needed]'',
     '''',
     ''Keep each section concise. Preserve exact file paths, function names, and error messages.'',
     COMPACTION_LESSON_RULE]"

definition TURN_PREFIX_SUMMARIZATION_PROMPT :: string where
  "TURN_PREFIX_SUMMARIZATION_PROMPT = js_join newline [
     ''This is the PREFIX of a turn that was too large to keep. The SUFFIX (recent work) is retained.'',
     '''',
     ''Summarize the prefix to provide context for the retained suffix:'',
     '''',
     ''## Original Request'',
     ''[What did the user ask for in this turn?]'',
     '''',
     ''## Early Progress'',
     ''- [Key decisions and work done in the prefix]'',
     '''',
     ''## Context for Suffix'',
     ''- [Information needed to understand the retained recent work]'',
     '''',
     ''Be concise. Focus on what's needed to understand the kept suffix.'',
     COMPACTION_LESSON_RULE]"

definition BRANCH_SUMMARY_PREAMBLE :: string where
  "BRANCH_SUMMARY_PREAMBLE = js_join newline [
     ''The user explored a different conversation branch before returning here.'',
     ''Summary of that exploration:'',
     '''',
     '''']"

definition BRANCH_SUMMARY_PROMPT :: string where
  "BRANCH_SUMMARY_PROMPT = js_join newline [
     ''Create a structured summary of this conversation branch for context when returning later.'',
     '''',
     ''Use this EXACT format:'',
     '''',
     ''## Goal'',
     ''[What was the user trying to accomplish in this branch?]'',
     '''',
     ''## Constraints & Preferences'',
     ''- [Any constraints, preferences, or requirements mentioned]'',
     ''- [Or \"(none)\" if none were mentioned]'',
     '''',
     ''## Progress'',
     ''### Done'',
     ''- [x] [Completed tasks/changes]'',
     '''',
     ''### In Progress'',
     ''- [ ] [Work that was started but not finished]'',
     '''',
     ''### Blocked'',
     ''- [Issues preventing progress, if any]'',
     '''',
     ''## Key Decisions'',
     ''- **[Decision]**: [Brief rationale]'',
     '''',
     ''## Next Steps'',
     ''1. [What should happen next to continue this work]'',
     '''',
     ''Keep each section concise. Preserve exact file paths, function names, and error messages.'']"

end
