(* ===== verification/Compaction.thy ===== *)
theory Compaction
  imports Session Prompts "HOL-Library.List_Lexorder" "HOL-Library.Char_ord"
begin

text \<open>
  Context compaction: \<open>core/compaction/compaction.ts\<close>, \<open>core/compaction/utils.ts\<close> and
  \<open>core/compaction/branch-summarization.ts\<close>. Token estimates, the choice of the cut point, what is
  handed to the summarising model and what is kept, file tracking, serialisation, and the summaries
  themselves.

  The language model is the parameter \<open>llm\<close>, a function from a request to the error it throws or
  to its message. An index -1 of the source is \<open>None\<close>; a set of file names is a list without
  repetitions in insertion order.
\<close>

section \<open>File operations\<close>

record file_operations =
  fo_read :: "string list"
  fo_written :: "string list"
  fo_edited :: "string list"

definition createFileOps :: file_operations where
  "createFileOps = \<lparr>fo_read = [], fo_written = [], fo_edited = []\<rparr>"

definition set_add :: "'a \<Rightarrow> 'a list \<Rightarrow> 'a list" where
  "set_add x xs = (if x \<in> set xs then xs else xs @ [x])"

definition file_op_of_call :: "tool_call \<Rightarrow> file_operations \<Rightarrow> file_operations" where
  "file_op_of_call tc ops =
     (case js_prop (tc_arguments tc) ''path'' of
        JStr path \<Rightarrow>
          (if path = '''' then ops
           else if tc_name tc = ''read'' then ops\<lparr>fo_read := set_add path (fo_read ops)\<rparr>
           else if tc_name tc = ''write'' then ops\<lparr>fo_written := set_add path (fo_written ops)\<rparr>
           else if tc_name tc = ''edit'' then ops\<lparr>fo_edited := set_add path (fo_edited ops)\<rparr>
           else ops)
      | _ \<Rightarrow> ops)"

definition extractFileOpsFromMessage :: "agent_message \<Rightarrow> file_operations \<Rightarrow> file_operations" where
  "extractFileOpsFromMessage message ops =
     (case message of
        AssistantMsg m \<Rightarrow> fold file_op_of_call (tool_calls_of (am_content m)) ops
      | _ \<Rightarrow> ops)"

text \<open>
  The details of an entry are JSON: \<open>Array.isArray\<close> guards the lists, and their elements are taken to
  be strings as the type \<open>CompactionDetails\<close> says.
\<close>

definition json_strings :: "json \<Rightarrow> string list" where
  "json_strings v = (case v of
     JArr vs \<Rightarrow> List.map_filter (\<lambda>x. case x of JStr s \<Rightarrow> Some s | _ \<Rightarrow> None) vs
   | _ \<Rightarrow> [])"

definition add_details :: "json \<Rightarrow> file_operations \<Rightarrow> file_operations" where
  "add_details details ops =
     (case details of
        JObj kvs \<Rightarrow>
          ops\<lparr>fo_read := fold set_add (json_strings (js_prop kvs ''readFiles'')) (fo_read ops),
              fo_edited := fold set_add (json_strings (js_prop kvs ''modifiedFiles'')) (fo_edited ops)\<rparr>
      | _ \<Rightarrow> ops)"

definition extractFileOperations ::
  "agent_message list \<Rightarrow> session_entry list \<Rightarrow> nat option \<Rightarrow> file_operations" where
  "extractFileOperations messages entries prevCompactionIndex =
     (let ops = (case prevCompactionIndex of
          Some i \<Rightarrow>
            (case entry_body (entries ! i) of
               ECompaction c \<Rightarrow> (if \<not> cp_fromHook c then add_details (cp_details c) createFileOps else createFileOps)
             | _ \<Rightarrow> createFileOps)
        | None \<Rightarrow> createFileOps)
      in fold extractFileOpsFromMessage messages ops)"

definition computeFileLists :: "file_operations \<Rightarrow> string list \<times> string list" where
  "computeFileLists ops =
     (let modified = fold set_add (fo_written ops) (fo_edited ops)
      in (sort (filter (\<lambda>f. f \<notin> set modified) (fo_read ops)), sort modified))"

definition formatFileOperations :: "string list \<Rightarrow> string list \<Rightarrow> string" where
  "formatFileOperations readFiles modifiedFiles =
     (let sections =
        (if readFiles \<noteq> [] then [''<read-files>'' @ newline @ js_join newline readFiles @ newline @ ''</read-files>''] else []) @
        (if modifiedFiles \<noteq> [] then [''<modified-files>'' @ newline @ js_join newline modifiedFiles @ newline @ ''</modified-files>''] else [])
      in if sections = [] then '''' else blank_line @ js_join blank_line sections)"

section \<open>Serialising a conversation\<close>

definition TOOL_RESULT_MAX_CHARS :: nat where
  "TOOL_RESULT_MAX_CHARS = 2000"

definition truncateForSummary :: "string \<Rightarrow> nat \<Rightarrow> string" where
  "truncateForSummary text maxChars =
     (if length text \<le> maxChars then text
      else take maxChars text @ blank_line @ ''[... '' @ show_nat (length text - maxChars) @
        '' more characters truncated]'')"

definition part_texts :: "part list \<Rightarrow> string list" where
  "part_texts ps = List.map_filter (\<lambda>p. case p of TextPart t _ \<Rightarrow> Some t | _ \<Rightarrow> None) ps"

definition text_of_blocks :: "block list \<Rightarrow> string list" where
  "text_of_blocks bs = List.map_filter (\<lambda>b. case b of TextBlock t _ \<Rightarrow> Some t | _ \<Rightarrow> None) bs"

definition thinking_of_blocks :: "block list \<Rightarrow> string list" where
  "thinking_of_blocks bs = List.map_filter (\<lambda>b. case b of ThinkingBlock t _ _ \<Rightarrow> Some t | _ \<Rightarrow> None) bs"

definition call_text :: "tool_call \<Rightarrow> string" where
  "call_text tc = tc_name tc @ ''('' @
     js_join '', '' (map (\<lambda>(k, v). k @ ''='' @ json_stringify v) (tc_arguments tc)) @ '')''"

definition serialize_message :: "agent_message \<Rightarrow> string list" where
  "serialize_message msg =
     (case msg of
        UserMsg m \<Rightarrow>
          (let content = (case um_content m of CString s \<Rightarrow> s | CParts ps \<Rightarrow> concat (part_texts ps))
           in if content \<noteq> '''' then [''[User]: '' @ content] else [])
      | AssistantMsg m \<Rightarrow>
          (let thinking = thinking_of_blocks (am_content m);
               texts = text_of_blocks (am_content m);
               calls = map call_text (tool_calls_of (am_content m))
           in (if thinking \<noteq> [] then [''[Assistant thinking]: '' @ js_join newline thinking] else []) @
              (if texts \<noteq> [] then [''[Assistant]: '' @ js_join newline texts] else []) @
              (if calls \<noteq> [] then [''[Assistant tool calls]: '' @ js_join ''; '' calls] else []))
      | ToolResultMsg m \<Rightarrow>
          (let content = concat (part_texts (tr_content m))
           in if content \<noteq> '''' then [''[Tool result]: '' @ truncateForSummary content TOOL_RESULT_MAX_CHARS] else [])
      | _ \<Rightarrow> [])"

definition serializeConversation :: "agent_message list \<Rightarrow> string" where
  "serializeConversation messages = js_join blank_line (concat (map serialize_message messages))"

section \<open>Messages of entries\<close>

definition getMessageFromEntry :: "session_entry \<Rightarrow> agent_message option" where
  "getMessageFromEntry e =
     (case entry_body e of
        EMessage m \<Rightarrow> Some m
      | ECustomMessage customType content details display \<Rightarrow>
          Some (createCustomMessage customType content display details (entry_timestamp e))
      | EBranchSummary fromId summary _ _ \<Rightarrow>
          Some (createBranchSummaryMessage summary fromId (entry_timestamp e))
      | ECompaction c \<Rightarrow>
          Some (createCompactionSummaryMessage (cp_summary c) (cp_tokensBefore c) (entry_timestamp e))
      | _ \<Rightarrow> None)"

definition getMessageFromEntryForCompaction :: "session_entry \<Rightarrow> agent_message option" where
  "getMessageFromEntryForCompaction e =
     (if is_compaction (entry_body e) then None else getMessageFromEntry e)"

section \<open>Token estimates\<close>

record compaction_settings =
  set_enabled :: bool
  set_reserveTokens :: nat
  set_keepRecentTokens :: nat

definition DEFAULT_COMPACTION_SETTINGS :: compaction_settings where
  "DEFAULT_COMPACTION_SETTINGS =
     \<lparr>set_enabled = True, set_reserveTokens = 16384, set_keepRecentTokens = 20000\<rparr>"

definition calculateContextTokens :: "usage \<Rightarrow> nat" where
  "calculateContextTokens u =
     (if u_totalTokens u \<noteq> 0 then u_totalTokens u
      else u_input u + u_output u + u_cacheRead u + u_cacheWrite u)"

definition getAssistantUsage :: "agent_message \<Rightarrow> usage option" where
  "getAssistantUsage msg =
     (case msg of
        AssistantMsg m \<Rightarrow>
          (if am_stopReason m \<noteq> StopAborted \<and> am_stopReason m \<noteq> StopError then Some (am_usage m) else None)
      | _ \<Rightarrow> None)"

definition getLastAssistantUsage :: "session_entry list \<Rightarrow> usage option" where
  "getLastAssistantUsage entries =
     (case List.map_filter (\<lambda>e. case entry_body e of EMessage m \<Rightarrow> getAssistantUsage m | _ \<Rightarrow> None) (rev entries) of
        [] \<Rightarrow> None | u # _ \<Rightarrow> Some u)"

definition getLastAssistantUsageInfo :: "agent_message list \<Rightarrow> (usage \<times> nat) option" where
  "getLastAssistantUsageInfo messages =
     (case find_last_index (\<lambda>m. getAssistantUsage m \<noteq> None) messages of
        None \<Rightarrow> None
      | Some i \<Rightarrow> map_option (\<lambda>u. (u, i)) (getAssistantUsage (messages ! i)))"

definition ESTIMATED_IMAGE_CHARS :: nat where
  "ESTIMATED_IMAGE_CHARS = 4800"

definition part_chars :: "part \<Rightarrow> nat" where
  "part_chars p = (case p of TextPart t _ \<Rightarrow> length t | ImagePart _ _ \<Rightarrow> ESTIMATED_IMAGE_CHARS)"

definition estimateTextAndImageContentChars :: "user_content \<Rightarrow> nat" where
  "estimateTextAndImageContentChars content =
     (case content of CString s \<Rightarrow> length s | CParts ps \<Rightarrow> sum_list (map part_chars ps))"

definition block_chars :: "block \<Rightarrow> nat" where
  "block_chars b = (case b of
     TextBlock t _ \<Rightarrow> length t
   | ThinkingBlock t _ _ \<Rightarrow> length t
   | ToolCallBlock tc \<Rightarrow> length (tc_name tc) + length (json_stringify (JObj (tc_arguments tc))))"

definition message_chars :: "agent_message \<Rightarrow> nat" where
  "message_chars message =
     (case message of
        UserMsg m \<Rightarrow> estimateTextAndImageContentChars (um_content m)
      | AssistantMsg m \<Rightarrow> sum_list (map block_chars (am_content m))
      | CustomMsg m \<Rightarrow> estimateTextAndImageContentChars (cm_content m)
      | ToolResultMsg m \<Rightarrow> estimateTextAndImageContentChars (CParts (tr_content m))
      | BashExecutionMsg m \<Rightarrow> length (be_command m) + length (be_output m)
      | BranchSummaryMsg m \<Rightarrow> length (bs_summary m)
      | CompactionSummaryMsg m \<Rightarrow> length (cs_summary m)
      | HookMsg m \<Rightarrow> 0)"

text \<open>\<open>Math.ceil(chars / 4)\<close>.\<close>

definition estimateTokens :: "agent_message \<Rightarrow> nat" where
  "estimateTokens message = (message_chars message + 3) div 4"

record context_usage_estimate =
  cu_tokens :: nat
  cu_usageTokens :: nat
  cu_trailingTokens :: nat
  cu_lastUsageIndex :: "nat option"

definition estimateContextTokens :: "agent_message list \<Rightarrow> context_usage_estimate" where
  "estimateContextTokens messages =
     (case getLastAssistantUsageInfo messages of
        None \<Rightarrow>
          (let estimated = sum_list (map estimateTokens messages)
           in \<lparr>cu_tokens = estimated, cu_usageTokens = 0, cu_trailingTokens = estimated, cu_lastUsageIndex = None\<rparr>)
      | Some (u, i) \<Rightarrow>
          (let usageTokens = calculateContextTokens u;
               trailing = sum_list (map estimateTokens (drop (i + 1) messages))
           in \<lparr>cu_tokens = usageTokens + trailing, cu_usageTokens = usageTokens,
               cu_trailingTokens = trailing, cu_lastUsageIndex = Some i\<rparr>))"

text \<open>The subtraction of the source may be negative: it is an integer.\<close>

definition shouldCompact :: "nat \<Rightarrow> nat \<Rightarrow> compaction_settings \<Rightarrow> bool" where
  "shouldCompact contextTokens contextWindow settings =
     (set_enabled settings \<and> int contextTokens > int contextWindow - int (set_reserveTokens settings))"

section \<open>The cut point\<close>

definition is_cut_point :: "session_entry \<Rightarrow> bool" where
  "is_cut_point e =
     (case entry_body e of
        EMessage (ToolResultMsg _) \<Rightarrow> False
      | EMessage (HookMsg _) \<Rightarrow> False
      | EMessage _ \<Rightarrow> True
      | EBranchSummary _ _ _ _ \<Rightarrow> True
      | ECustomMessage _ _ _ _ \<Rightarrow> True
      | _ \<Rightarrow> False)"

definition findValidCutPoints :: "session_entry list \<Rightarrow> nat \<Rightarrow> nat \<Rightarrow> nat list" where
  "findValidCutPoints entries startIndex endIndex =
     filter (\<lambda>i. is_cut_point (entries ! i)) [startIndex..<endIndex]"

definition starts_turn :: "session_entry \<Rightarrow> bool" where
  "starts_turn e =
     (case entry_body e of
        EBranchSummary _ _ _ _ \<Rightarrow> True
      | ECustomMessage _ _ _ _ \<Rightarrow> True
      | EMessage (UserMsg _) \<Rightarrow> True
      | EMessage (BashExecutionMsg _) \<Rightarrow> True
      | _ \<Rightarrow> False)"

definition findTurnStartIndex :: "session_entry list \<Rightarrow> nat \<Rightarrow> nat \<Rightarrow> nat option" where
  "findTurnStartIndex entries entryIndex startIndex =
     List.find (\<lambda>i. starts_turn (entries ! i)) (rev [startIndex..<Suc entryIndex])"

record cut_point_result =
  cut_firstKeptEntryIndex :: nat
  cut_turnStartIndex :: "nat option"
  cut_isSplitTurn :: bool

text \<open>The backward loop, over the indices it visits; \<open>cutIndex\<close> is the cut index so far.\<close>

fun cut_scan :: "session_entry list \<Rightarrow> nat list \<Rightarrow> nat \<Rightarrow> nat list \<Rightarrow> nat \<Rightarrow> nat \<Rightarrow> nat" where
  "cut_scan entries cutPoints keep [] acc cutIndex = cutIndex"
| "cut_scan entries cutPoints keep (i # is) acc cutIndex =
     (case entry_body (entries ! i) of
        EMessage m \<Rightarrow>
          (let acc' = acc + estimateTokens m
           in if keep \<le> acc'
              then (case List.find (\<lambda>c. i \<le> c) cutPoints of Some c \<Rightarrow> c | None \<Rightarrow> cutIndex)
              else cut_scan entries cutPoints keep is acc' cutIndex)
      | _ \<Rightarrow> cut_scan entries cutPoints keep is acc cutIndex)"

definition is_message_entry :: "session_entry \<Rightarrow> bool" where
  "is_message_entry e = (case entry_body e of EMessage _ \<Rightarrow> True | _ \<Rightarrow> False)"

fun back_up :: "session_entry list \<Rightarrow> nat \<Rightarrow> nat \<Rightarrow> nat" where
  "back_up entries startIndex cutIndex =
     (if startIndex < cutIndex \<and> \<not> is_compaction (entry_body (entries ! (cutIndex - 1))) \<and>
         \<not> is_message_entry (entries ! (cutIndex - 1))
      then back_up entries startIndex (cutIndex - 1) else cutIndex)"

declare back_up.simps [simp del]

definition findCutPoint :: "session_entry list \<Rightarrow> nat \<Rightarrow> nat \<Rightarrow> nat \<Rightarrow> cut_point_result" where
  "findCutPoint entries startIndex endIndex keepRecentTokens =
     (let cutPoints = findValidCutPoints entries startIndex endIndex in
      case cutPoints of
        [] \<Rightarrow> \<lparr>cut_firstKeptEntryIndex = startIndex, cut_turnStartIndex = None, cut_isSplitTurn = False\<rparr>
      | first # _ \<Rightarrow>
          (let cut0 = cut_scan entries cutPoints keepRecentTokens (rev [startIndex..<endIndex]) 0 first;
               cutIndex = back_up entries startIndex cut0;
               isUserMessage = (case entry_body (entries ! cutIndex) of EMessage (UserMsg _) \<Rightarrow> True | _ \<Rightarrow> False);
               turnStart = (if isUserMessage then None else findTurnStartIndex entries cutIndex startIndex)
           in \<lparr>cut_firstKeptEntryIndex = cutIndex, cut_turnStartIndex = turnStart,
               cut_isSplitTurn = (\<not> isUserMessage \<and> turnStart \<noteq> None)\<rparr>))"

section \<open>Preparing a compaction\<close>

record compaction_preparation =
  prep_firstKeptEntryId :: string
  prep_messagesToSummarize :: "agent_message list"
  prep_turnPrefixMessages :: "agent_message list"
  prep_isSplitTurn :: bool
  prep_tokensBefore :: nat
  prep_previousSummary :: "string option"
  prep_fileOps :: file_operations
  prep_settings :: compaction_settings

definition last_compaction_index :: "session_entry list \<Rightarrow> nat option" where
  "last_compaction_index entries = find_last_index (\<lambda>e. is_compaction (entry_body e)) entries"

definition prev_compaction :: "session_entry list \<Rightarrow> compaction_data option" where
  "prev_compaction entries =
     (case last_compaction_index entries of
        None \<Rightarrow> None
      | Some i \<Rightarrow> (case entry_body (entries ! i) of ECompaction c \<Rightarrow> Some c | _ \<Rightarrow> None))"

definition boundary_start :: "session_entry list \<Rightarrow> nat" where
  "boundary_start pathEntries =
     (case (last_compaction_index pathEntries, prev_compaction pathEntries) of
        (Some i, Some c) \<Rightarrow>
          (case find_index (\<lambda>e. entry_id e = cp_firstKeptEntryId c) pathEntries of
             Some k \<Rightarrow> k | None \<Rightarrow> i + 1)
      | _ \<Rightarrow> 0)"

definition slice_messages :: "session_entry list \<Rightarrow> nat \<Rightarrow> nat \<Rightarrow> agent_message list" where
  "slice_messages entries i j =
     List.map_filter (\<lambda>k. getMessageFromEntryForCompaction (entries ! k)) [i..<j]"

text \<open>
  The inner \<open>None\<close> is the result \<open>undefined\<close>; the outer one says that \<open>buildSessionContext\<close> does
  not return, which needs entries with a parent cycle.
\<close>

definition prepareCompaction ::
  "session_entry list \<Rightarrow> compaction_settings \<Rightarrow> compaction_preparation option option" where
  "prepareCompaction pathEntries settings =
     (if (case js_last pathEntries of Some e \<Rightarrow> is_compaction (entry_body e) | None \<Rightarrow> False) then Some None
      else
        let prevCompactionIndex = last_compaction_index pathEntries;
            previousSummary = map_option cp_summary (prev_compaction pathEntries);
            boundaryStart = boundary_start pathEntries;
            boundaryEnd = length pathEntries
        in case buildSessionContext pathEntries LeafUndefined None of
             None \<Rightarrow> None
           | Some ctx \<Rightarrow> Some (
               let tokensBefore = cu_tokens (estimateContextTokens (ctx_messages ctx));
                   cutPoint = findCutPoint pathEntries boundaryStart boundaryEnd (set_keepRecentTokens settings);
                   firstKept = cut_firstKeptEntryIndex cutPoint
               in case js_at pathEntries firstKept of
                    None \<Rightarrow> None
                  | Some e \<Rightarrow>
                      (if entry_id e = '''' then None
                       else
                         let historyEnd = (case (cut_isSplitTurn cutPoint, cut_turnStartIndex cutPoint) of
                               (True, Some k) \<Rightarrow> k | _ \<Rightarrow> firstKept);
                             toSummarize = slice_messages pathEntries boundaryStart historyEnd;
                             turnPrefix = (case (cut_isSplitTurn cutPoint, cut_turnStartIndex cutPoint) of
                               (True, Some k) \<Rightarrow> slice_messages pathEntries k firstKept | _ \<Rightarrow> []);
                             fileOps = fold extractFileOpsFromMessage turnPrefix
                               (extractFileOperations toSummarize pathEntries prevCompactionIndex)
                         in Some \<lparr>prep_firstKeptEntryId = entry_id e, prep_messagesToSummarize = toSummarize,
                              prep_turnPrefixMessages = turnPrefix, prep_isSplitTurn = cut_isSplitTurn cutPoint,
                              prep_tokensBefore = tokensBefore, prep_previousSummary = previousSummary,
                              prep_fileOps = fileOps, prep_settings = settings\<rparr>)))"

section \<open>Summaries\<close>

record model_info =
  mi_reasoning :: bool
  mi_maxTokens :: nat
  mi_contextWindow :: nat

record summarization_options =
  so_maxTokens :: nat
  so_apiKey :: "string option"
  so_headers :: "(string \<times> string) list option"
  so_reasoning :: "string option"

record llm_request =
  rq_model :: model_info
  rq_systemPrompt :: string
  rq_messages :: "agent_message list"
  rq_options :: summarization_options

text \<open>How a caller reaches the model: the arguments all the summary functions pass on.\<close>

record summarizer =
  sz_model :: model_info
  sz_apiKey :: "string option"
  sz_headers :: "(string \<times> string) list option"
  sz_thinkingLevel :: "string option"
  sz_now :: int

definition createSummarizationOptions :: "summarizer \<Rightarrow> nat \<Rightarrow> summarization_options" where
  "createSummarizationOptions sz maxTokens =
     \<lparr>so_maxTokens = maxTokens, so_apiKey = sz_apiKey sz, so_headers = sz_headers sz,
      so_reasoning = (if mi_reasoning (sz_model sz) then
          (case sz_thinkingLevel sz of Some l \<Rightarrow> (if l \<noteq> '''' \<and> l \<noteq> ''off'' then Some l else None) | None \<Rightarrow> None)
        else None)\<rparr>"

definition truthy_string :: "string option \<Rightarrow> bool" where
  "truthy_string s = (case s of Some t \<Rightarrow> t \<noteq> '''' | None \<Rightarrow> False)"

text \<open>\<open>model.maxTokens > 0 ? model.maxTokens : Infinity\<close> bounds the token count.\<close>

definition cap_tokens :: "nat \<Rightarrow> nat \<Rightarrow> nat" where
  "cap_tokens budget modelMax = (if modelMax > 0 then min budget modelMax else budget)"

definition wrap_conversation :: "agent_message list \<Rightarrow> string" where
  "wrap_conversation messages =
     ''<conversation>'' @ newline @ serializeConversation (convertToLlm messages) @ newline @
     ''</conversation>'' @ blank_line"

definition summary_request :: "summarizer \<Rightarrow> string \<Rightarrow> nat \<Rightarrow> llm_request" where
  "summary_request sz promptText maxTokens =
     \<lparr>rq_model = sz_model sz, rq_systemPrompt = SUMMARIZATION_SYSTEM_PROMPT,
      rq_messages = [text_user_message promptText (sz_now sz)],
      rq_options = createSummarizationOptions sz maxTokens\<rparr>"

definition summary_of_response ::
  "string \<Rightarrow> (string + assistant_message) \<Rightarrow> string + string" where
  "summary_of_response failed response =
     (case response of
        Inl e \<Rightarrow> Inl e
      | Inr m \<Rightarrow>
          (if am_stopReason m = StopError
           then Inl (failed @ (case am_errorMessage m of Some e \<Rightarrow> (if e \<noteq> '''' then e else ''Unknown error'') | None \<Rightarrow> ''Unknown error''))
           else Inr (js_join newline (text_of_blocks (am_content m)))))"

text \<open>\<open>Math.floor(0.8 * reserveTokens)\<close>.\<close>

definition generateSummary ::
  "(llm_request \<Rightarrow> string + assistant_message) \<Rightarrow> summarizer \<Rightarrow> agent_message list \<Rightarrow> nat
     \<Rightarrow> string option \<Rightarrow> string option \<Rightarrow> string + string" where
  "generateSummary llm sz currentMessages reserveTokens customInstructions previousSummary =
     (let maxTokens = cap_tokens ((8 * reserveTokens) div 10) (mi_maxTokens (sz_model sz));
          basePrompt = (if truthy_string previousSummary then UPDATE_SUMMARIZATION_PROMPT else SUMMARIZATION_PROMPT) @
            (if truthy_string customInstructions then blank_line @ ''Additional focus: '' @ the customInstructions else '''');
          promptText = wrap_conversation currentMessages @
            (if truthy_string previousSummary
             then ''<previous-summary>'' @ newline @ the previousSummary @ newline @ ''</previous-summary>'' @ blank_line
             else '''') @ basePrompt
      in summary_of_response ''Summarization failed: '' (llm (summary_request sz promptText maxTokens)))"

definition generateTurnPrefixSummary ::
  "(llm_request \<Rightarrow> string + assistant_message) \<Rightarrow> summarizer \<Rightarrow> agent_message list \<Rightarrow> nat \<Rightarrow> string + string" where
  "generateTurnPrefixSummary llm sz messages reserveTokens =
     (let maxTokens = cap_tokens (reserveTokens div 2) (mi_maxTokens (sz_model sz));
          promptText = wrap_conversation messages @ TURN_PREFIX_SUMMARIZATION_PROMPT
      in summary_of_response ''Turn prefix summarization failed: '' (llm (summary_request sz promptText maxTokens)))"

record compaction_result =
  cr_summary :: string
  cr_firstKeptEntryId :: string
  cr_tokensBefore :: nat
  cr_details :: json

definition file_details :: "string list \<Rightarrow> string list \<Rightarrow> json" where
  "file_details readFiles modifiedFiles =
     JObj [(''readFiles'', JArr (map JStr readFiles)), (''modifiedFiles'', JArr (map JStr modifiedFiles))]"

text \<open>
  \<open>Promise.all\<close> rejects with the error of the request that fails first; when both fail,
  \<open>prefixFirst\<close> says which that is.
\<close>

definition NO_PRIOR_HISTORY :: string where
  "NO_PRIOR_HISTORY = ''No prior history.''"

definition merge_summaries :: "string \<Rightarrow> string \<Rightarrow> string" where
  "merge_summaries historyResult turnPrefixResult =
     historyResult @ blank_line @ ''---'' @ blank_line @ ''**Turn Context (split turn):**'' @ blank_line @
     turnPrefixResult"

definition compact_summary ::
  "(llm_request \<Rightarrow> string + assistant_message) \<Rightarrow> summarizer \<Rightarrow> bool \<Rightarrow> compaction_preparation
     \<Rightarrow> string option \<Rightarrow> string + string" where
  "compact_summary llm sz prefixFirst prep customInstructions =
     (let reserve = set_reserveTokens (prep_settings prep) in
      if prep_isSplitTurn prep \<and> prep_turnPrefixMessages prep \<noteq> [] then
        (let history = (if prep_messagesToSummarize prep \<noteq> []
               then generateSummary llm sz (prep_messagesToSummarize prep) reserve customInstructions (prep_previousSummary prep)
               else Inr NO_PRIOR_HISTORY);
             turnPrefix = generateTurnPrefixSummary llm sz (prep_turnPrefixMessages prep) reserve
         in case (history, turnPrefix) of
              (Inr h, Inr t) \<Rightarrow> Inr (merge_summaries h t)
            | (Inl e, Inr _) \<Rightarrow> Inl e
            | (Inr _, Inl e) \<Rightarrow> Inl e
            | (Inl e, Inl e') \<Rightarrow> Inl (if prefixFirst then e' else e))
      else generateSummary llm sz (prep_messagesToSummarize prep) reserve customInstructions (prep_previousSummary prep))"

definition compact ::
  "(llm_request \<Rightarrow> string + assistant_message) \<Rightarrow> summarizer \<Rightarrow> bool \<Rightarrow> compaction_preparation
     \<Rightarrow> string option \<Rightarrow> string + compaction_result" where
  "compact llm sz prefixFirst prep customInstructions =
     (case compact_summary llm sz prefixFirst prep customInstructions of
        Inl e \<Rightarrow> Inl e
      | Inr summary \<Rightarrow>
          (let (readFiles, modifiedFiles) = computeFileLists (prep_fileOps prep)
           in if prep_firstKeptEntryId prep = ''''
              then Inl ''First kept entry has no UUID - session may need migration''
              else Inr \<lparr>cr_summary = summary @ formatFileOperations readFiles modifiedFiles,
                cr_firstKeptEntryId = prep_firstKeptEntryId prep, cr_tokensBefore = prep_tokensBefore prep,
                cr_details = file_details readFiles modifiedFiles\<rparr>))"

section \<open>Lemmas on the cut point\<close>

lemma find_SomeD: "List.find P xs = Some x \<Longrightarrow> P x \<and> x \<in> set xs"
  by (auto simp: find_Some_iff)

lemma cut_points_iff:
  "c \<in> set (findValidCutPoints entries s e) \<longleftrightarrow> s \<le> c \<and> c < e \<and> is_cut_point (entries ! c)"
  by (auto simp: findValidCutPoints_def)

lemma cut_scan_cut_point:
  "cut_scan entries cps keep is acc d = d \<or> cut_scan entries cps keep is acc d \<in> set cps"
  by (induction entries cps keep "is" acc d rule: cut_scan.induct)
    (auto simp: Let_def dest: find_SomeD split: entry_body.splits option.splits)

lemma back_up_range: "startIndex \<le> c \<Longrightarrow> startIndex \<le> back_up entries startIndex c \<and> back_up entries startIndex c \<le> c"
proof (induction entries startIndex c rule: back_up.induct)
  case (1 entries startIndex c)
  then show ?case unfolding back_up.simps [of entries startIndex c] by fastforce
qed

text \<open>The entries the backward scan adds are neither messages nor compactions.\<close>

lemma back_up_skips:
  assumes "back_up entries startIndex c \<le> k" and "k < c"
  shows "\<not> is_message_entry (entries ! k) \<and> \<not> is_compaction (entry_body (entries ! k))"
  using assms
proof (induction entries startIndex c rule: back_up.induct)
  case (1 entries startIndex c)
  show ?case
  proof (cases "startIndex < c \<and> \<not> is_compaction (entry_body (entries ! (c - 1))) \<and>
      \<not> is_message_entry (entries ! (c - 1))")
    case True
    then have "back_up entries startIndex c = back_up entries startIndex (c - 1)"
      by (subst back_up.simps) simp
    then show ?thesis using "1.IH" [OF True] "1.prems" True by (cases "k = c - 1") auto
  next
    case False
    then have "back_up entries startIndex c = c" by (subst back_up.simps) auto
    then show ?thesis using "1.prems" by simp
  qed
qed

lemma is_cut_pointD:
  "is_cut_point e \<Longrightarrow> \<not> is_compaction (entry_body e) \<and> (\<forall>m. entry_body e \<noteq> EMessage (ToolResultMsg m))"
  by (auto simp: is_cut_point_def split: entry_body.splits agent_message.splits)

lemma findTurnStartIndex_range:
  assumes "findTurnStartIndex entries i s = Some k"
  shows "s \<le> k \<and> k \<le> i \<and> starts_turn (entries ! k)"
  using find_SomeD [OF assms [unfolded findTurnStartIndex_def]] by auto

text \<open>The chosen entry: a cut point, and before it only entries that are not messages.\<close>

lemma findCutPoint_cases:
  fixes entries s e keep
  defines "r \<equiv> findCutPoint entries s e keep"
  obtains (none) "findValidCutPoints entries s e = []" "cut_firstKeptEntryIndex r = s"
      "cut_turnStartIndex r = None" "\<not> cut_isSplitTurn r"
  | (found) c where "c \<in> set (findValidCutPoints entries s e)"
      "cut_firstKeptEntryIndex r = back_up entries s c"
      "c = cut_scan entries (findValidCutPoints entries s e) keep (rev [s..<e]) 0 (hd (findValidCutPoints entries s e))"
      "cut_isSplitTurn r \<longrightarrow> (\<exists>k. cut_turnStartIndex r = Some k \<and> s \<le> k \<and> k \<le> cut_firstKeptEntryIndex r
         \<and> starts_turn (entries ! k))"
proof (cases "findValidCutPoints entries s e")
  case Nil
  then show ?thesis using none by (simp add: r_def findCutPoint_def)
next
  case (Cons first rest)
  define c where "c = cut_scan entries (findValidCutPoints entries s e) keep (rev [s..<e]) 0 first"
  have "c \<in> set (findValidCutPoints entries s e)"
    using cut_scan_cut_point [of entries "first # rest" keep "rev [s..<e]" 0 first] Cons by (auto simp: c_def)
  moreover have first: "cut_firstKeptEntryIndex r = back_up entries s c"
    using Cons by (simp add: r_def findCutPoint_def Let_def c_def)
  moreover have "cut_isSplitTurn r \<longrightarrow> (\<exists>k. cut_turnStartIndex r = Some k \<and> s \<le> k \<and> k \<le> back_up entries s c
      \<and> starts_turn (entries ! k))"
    using Cons findTurnStartIndex_range [of entries "back_up entries s c" s]
    by (auto simp: r_def findCutPoint_def Let_def c_def)
  ultimately show ?thesis using found [of c] Cons by (simp add: c_def)
qed


definition demo_tool_turn :: "session_entry list" where
  "demo_tool_turn =
     (let call = \<lparr>tc_id = ''c'', tc_name = ''read'', tc_arguments = [(''path'', JStr ''f'')], tc_thoughtSignature = None\<rparr>;
          zero = \<lparr>u_input = 0, u_output = 0, u_cacheRead = 0, u_cacheWrite = 0, u_totalTokens = 0,
            u_cost = \<lparr>cost_input = 0, cost_output = 0, cost_cacheRead = 0, cost_cacheWrite = 0, cost_total = 0\<rparr>\<rparr>;
          reply = AssistantMsg \<lparr>am_content = [ToolCallBlock call], am_api = ''a'', am_provider = ''p'', am_model = ''m'',
            am_extra = JUndefined, am_usage = zero, am_stopReason = StopToolUse, am_errorMessage = None, am_timestamp = 2\<rparr>;
          res = ToolResultMsg \<lparr>tr_toolCallId = ''c'', tr_toolName = ''read'', tr_content = [TextPart ''text of the file'' None],
            tr_details = JUndefined, tr_isError = False, tr_timestamp = 3\<rparr>
      in [\<lparr>entry_id = ''1'', parentId = None, entry_timestamp = 1,
           entry_body = EMessage (UserMsg \<lparr>um_content = CString ''hi'', um_timestamp = 1\<rparr>)\<rparr>,
          \<lparr>entry_id = ''2'', parentId = Some ''1'', entry_timestamp = 2, entry_body = EMessage reply\<rparr>,
          \<lparr>entry_id = ''3'', parentId = Some ''2'', entry_timestamp = 3, entry_body = EMessage res\<rparr>])"


end
