(* ===== verification/CompactionProps.thy ===== *)
theory CompactionProps
  imports Compaction SessionProps
begin

text \<open>
  What compaction means for the conversation: the cut respects the token budget, the messages handed
  to the summarising model and the messages kept are exactly the old context, and the session store
  shows the model the summary followed by what was kept. The file lists are sorted and disjoint.
\<close>

section \<open>The token budget\<close>

definition entry_tokens :: "session_entry \<Rightarrow> nat" where
  "entry_tokens e = (case entry_body e of EMessage m \<Rightarrow> estimateTokens m | _ \<Rightarrow> 0)"

definition range_tokens :: "session_entry list \<Rightarrow> nat \<Rightarrow> nat \<Rightarrow> nat" where
  "range_tokens entries i j = sum_list (map (\<lambda>k. entry_tokens (entries ! k)) [i..<j])"

lemma range_tokens_step: "i < j \<Longrightarrow> range_tokens entries i j = entry_tokens (entries ! i) + range_tokens entries (Suc i) j"
  by (simp add: range_tokens_def upt_conv_Cons)

lemma range_tokens_mono: "i \<le> k \<Longrightarrow> range_tokens entries k j \<le> range_tokens entries i j"
proof (induction k rule: dec_induct)
  case (step n)
  then show ?case by (cases "n < j") (auto simp: range_tokens_step [of n], simp add: range_tokens_def)
qed simp

lemma cut_scan_budget:
  assumes "n \<le> e" and "acc = range_tokens entries n e" and "acc < keep"
    and "cut_scan entries cps keep (rev [s..<n]) acc d = c"
  shows "c = d \<or> range_tokens entries (Suc c) e < keep"
  using assms
proof (induction n arbitrary: acc)
  case (Suc n)
  show ?case
  proof (cases "s \<le> n")
    case False
    then show ?thesis using Suc.prems by simp
  next
    case True
    then have rev: "rev [s..<Suc n] = n # rev [s..<n]" by simp
    have tokens: "range_tokens entries n e = acc + entry_tokens (entries ! n)"
      using Suc.prems(1,2) by (simp add: range_tokens_step)
    show ?thesis
    proof (cases "\<exists>m. entry_body (entries ! n) = EMessage m \<and> keep \<le> acc + estimateTokens m")
      case True
      then have "c = d \<or> n \<le> c"
        using Suc.prems(4) rev by (auto simp: Let_def dest: find_SomeD split: option.splits)
      moreover have "range_tokens entries (Suc c) e < keep" if "n \<le> c"
        using range_tokens_mono [of "Suc n" "Suc c" entries e] that Suc.prems(2,3) by simp
      ultimately show ?thesis by blast
    next
      case False
      then have "acc + entry_tokens (entries ! n) < keep"
        using Suc.prems(3) by (auto simp: entry_tokens_def split: entry_body.split)
      moreover have "cut_scan entries cps keep (rev [s..<n]) (acc + entry_tokens (entries ! n)) d = c"
        using Suc.prems(4) False rev by (auto simp: Let_def entry_tokens_def split: entry_body.splits)
      ultimately show ?thesis using Suc.IH [OF _ tokens [symmetric]] Suc.prems(1) by simp
    qed
  qed
qed simp



section \<open>Nothing is lost\<close>

lemma find_last_index_snoc:
  "find_last_index P (xs @ [x]) = (if P x then Some (length xs) else find_last_index P xs)"
  by (auto simp: find_last_index_def option.map_comp comp_def intro!: option.map_cong0)

lemma settings_last_compaction:
  "cs_compaction (fold settings_step path initial_settings) =
     (case last_compaction_index path of
        None \<Rightarrow> None
      | Some p \<Rightarrow> (case entry_body (path ! p) of
          ECompaction c \<Rightarrow> Some (entry_id (path ! p), entry_timestamp (path ! p), c) | _ \<Rightarrow> None))"
proof (induction path rule: rev_induct)
  case (snoc e path)
  show ?case
  proof (cases "is_compaction (entry_body e)")
    case True
    then obtain c where "entry_body e = ECompaction c" by (cases "entry_body e") auto
    then show ?thesis
      by (simp add: settings_compaction_step last_compaction_index_def find_last_index_snoc)
  next
    case False
    have "cs_compaction (settings_step e st) = cs_compaction st" for st
      using False by (cases "entry_body e") (simp_all add: settings_compaction_step)
    moreover have "last_compaction_index (path @ [e]) = last_compaction_index path"
      using False by (simp add: last_compaction_index_def find_last_index_snoc)
    moreover have "(path @ [e]) ! p = path ! p" if "last_compaction_index path = Some p" for p
      using that find_last_index_SomeD by (fastforce simp: last_compaction_index_def nth_append)
    ultimately show ?thesis using snoc by (cases "last_compaction_index path") (simp_all cong: entry_body.case_cong)
  qed
qed (simp add: last_compaction_index_def find_last_index_def initial_settings_def)

text \<open>Branch summaries are never empty: then both readings of an entry agree.\<close>

definition no_empty_summary :: "session_entry \<Rightarrow> bool" where
  "no_empty_summary e = (case entry_body e of EBranchSummary _ summary _ _ \<Rightarrow> summary \<noteq> '''' | _ \<Rightarrow> True)"

lemma entry_messages_option:
  "no_empty_summary e \<Longrightarrow> entry_messages e = (case getMessageFromEntryForCompaction e of None \<Rightarrow> [] | Some m \<Rightarrow> [m])"
  by (cases "entry_body e")
    (simp_all add: entry_messages_def getMessageFromEntryForCompaction_def getMessageFromEntry_def
      no_empty_summary_def)

lemma slice_messages_split: "i \<le> j \<Longrightarrow> j \<le> k \<Longrightarrow> slice_messages es i j @ slice_messages es j k = slice_messages es i k"
  using upt_add_eq_append [of i j "k - j"] by (simp add: slice_messages_def flip: map_filter_append)

lemma slice_messages_drop:
  assumes "\<forall>e\<in>set es. no_empty_summary e" and "i \<le> j" and "j \<le> length es"
  shows "slice_messages es i j = concat (map entry_messages (drop i (take j es)))"
  using assms(2,3)
proof (induction j rule: dec_induct)
  case base
  then show ?case by (simp add: slice_messages_def)
next
  case (step n)
  then have n: "n < length es" by simp
  then have "drop i (take (Suc n) es) = drop i (take n es) @ [es ! n]"
    using step.hyps by (simp add: take_Suc_conv_app_nth)
  moreover have "entry_messages (es ! n) =
      (case getMessageFromEntryForCompaction (es ! n) of None \<Rightarrow> [] | Some m \<Rightarrow> [m])"
    using entry_messages_option assms(1) n by simp
  ultimately show ?case using step
    by (simp add: slice_messages_def map_filter_append upt_Suc_append map_filter_simps split: option.split)
qed

definition previous_summary_message :: "session_entry list \<Rightarrow> agent_message list" where
  "previous_summary_message path =
     (case last_compaction_index path of
        None \<Rightarrow> []
      | Some p \<Rightarrow> (case entry_body (path ! p) of
          ECompaction c \<Rightarrow> [createCompactionSummaryMessage (cp_summary c) (cp_tokensBefore c) (entry_timestamp (path ! p))]
        | _ \<Rightarrow> []))"

text \<open>The first kept entry of the last compaction, if it is on the path, comes before it.\<close>

definition kept_before :: "session_entry list \<Rightarrow> bool" where
  "kept_before path =
     (case (last_compaction_index path, prev_compaction path) of
        (Some p, Some c) \<Rightarrow>
          (case find_index (\<lambda>e. entry_id e = cp_firstKeptEntryId c) path of Some b \<Rightarrow> b < p | None \<Rightarrow> True)
      | _ \<Rightarrow> True)"

lemma kept_messages_index:
  assumes "find_index (\<lambda>e. entry_id e = k) es = Some b"
  shows "kept_messages k False es = concat (map entry_messages (drop b es))"
  using assms
proof (induction es arbitrary: b)
  case (Cons e es)
  then show ?case by (cases "entry_id e = k") auto
qed simp

lemma find_index_take:
  assumes "find_index P xs = Some b" and "b < n"
  shows "find_index P (take n xs) = Some b"
  using assms
proof (induction xs arbitrary: b n)
  case (Cons x xs)
  then show ?case by (cases n) (auto split: if_splits)
qed simp

lemma context_from_boundary:
  assumes "distinct (map entry_id path)" and "\<forall>e\<in>set path. no_empty_summary e" and "kept_before path"
  shows "path_messages path =
    previous_summary_message path @ slice_messages path (boundary_start path) (length path)"
proof (cases "last_compaction_index path")
  case None
  then have "path_messages path = concat (map entry_messages path)"
    using settings_last_compaction [of path] by (simp add: path_messages_def)
  then show ?thesis
    using None slice_messages_drop [OF assms(2), of 0 "length path"]
    by (simp add: previous_summary_message_def boundary_start_def)
next
  case (Some p)
  then have p: "p < length path" "is_compaction (entry_body (path ! p))"
    using find_last_index_SomeD by (fastforce simp: last_compaction_index_def)+
  then obtain c where c: "entry_body (path ! p) = ECompaction c" by (cases "entry_body (path ! p)") auto
  let ?P = "\<lambda>e. is_compaction (entry_body e) \<and> entry_id e = entry_id (path ! p)"
  have idx: "find_index ?P path = Some p"
  proof (cases "find_index ?P path")
    case None
    moreover have "path ! p \<in> set path" using p(1) by simp
    ultimately show ?thesis using p(2) unfolding find_index_None_iff by blast
  next
    case (Some q)
    then have "q < length path" "entry_id (path ! q) = entry_id (path ! p)" using find_index_SomeD by blast+
    then have "q = p" using assms(1) p(1) nth_eq_iff_index_eq [OF assms(1), of q p] by simp
    then show ?thesis using Some by simp
  qed
  have msgs: "path_messages path =
      createCompactionSummaryMessage (cp_summary c) (cp_tokensBefore c) (entry_timestamp (path ! p)) #
      kept_messages (cp_firstKeptEntryId c) False (take p path) @
      concat (map entry_messages (drop (Suc p) path))"
    using settings_last_compaction [of path] Some c idx
    by (simp add: path_messages_def nat_add_distrib)
  have after: "slice_messages path (Suc p) (length path) = concat (map entry_messages (drop (Suc p) path))"
    using slice_messages_drop [OF assms(2), of "Suc p" "length path"] p(1) by simp
  show ?thesis
  proof (cases "find_index (\<lambda>e. entry_id e = cp_firstKeptEntryId c) path")
    case None
    then have "\<forall>x\<in>set path. entry_id x \<noteq> cp_firstKeptEntryId c" by (simp add: find_index_None_iff)
    then have "kept_messages (cp_firstKeptEntryId c) False (take p path) = []"
      by (intro kept_messages_absent) (auto dest: in_set_takeD)
    then show ?thesis using msgs after Some c None
      by (simp add: previous_summary_message_def boundary_start_def prev_compaction_def)
  next
    case (Some b)
    then have "b < p"
      using assms(3) \<open>last_compaction_index path = Some p\<close> c by (simp add: kept_before_def prev_compaction_def)
    then have "kept_messages (cp_firstKeptEntryId c) False (take p path) = slice_messages path b p"
      using kept_messages_index [OF find_index_take [OF Some \<open>b < p\<close>]] slice_messages_drop [OF assms(2), of b p] p(1)
      by simp
    moreover have "slice_messages path p (Suc p) = []"
      using c by (simp add: slice_messages_def getMessageFromEntryForCompaction_def map_filter_simps)
    ultimately have "slice_messages path b (length path) =
        kept_messages (cp_firstKeptEntryId c) False (take p path) @ concat (map entry_messages (drop (Suc p) path))"
      using after p(1) \<open>b < p\<close> slice_messages_split [of b p "Suc p" path]
        slice_messages_split [of b "Suc p" "length path" path] by simp
    then show ?thesis using msgs Some c \<open>last_compaction_index path = Some p\<close>
      by (simp add: previous_summary_message_def boundary_start_def prev_compaction_def)
  qed
qed

text \<open>What a successful preparation says of its parts.\<close>

lemma prepareCompaction_parts:
  assumes "prepareCompaction path settings = Some (Some prep)"
  obtains f where "f < length path" "prep_firstKeptEntryId prep = entry_id (path ! f)"
    "entry_id (path ! f) \<noteq> ''''" "boundary_start path \<le> f"
    "prep_messagesToSummarize prep @ prep_turnPrefixMessages prep = slice_messages path (boundary_start path) f"
    "prep_previousSummary prep = map_option cp_summary (prev_compaction path)"
proof -
  define cp where "cp = findCutPoint path (boundary_start path) (length path) (set_keepRecentTokens settings)"
  define f where "f = cut_firstKeptEntryIndex cp"
  define h where "h = (case (cut_isSplitTurn cp, cut_turnStartIndex cp) of (True, Some k) \<Rightarrow> k | _ \<Rightarrow> f)"
  define tp where "tp = (case (cut_isSplitTurn cp, cut_turnStartIndex cp) of
      (True, Some k) \<Rightarrow> slice_messages path k f | _ \<Rightarrow> [])"
  obtain e where e: "js_at path f = Some e" "entry_id e \<noteq> ''''"
    "prep_firstKeptEntryId prep = entry_id e"
    "prep_messagesToSummarize prep = slice_messages path (boundary_start path) h"
    "prep_turnPrefixMessages prep = tp"
    "prep_previousSummary prep = map_option cp_summary (prev_compaction path)"
    using assms unfolding prepareCompaction_def Let_def cp_def [symmetric] f_def [symmetric]
      h_def [symmetric] tp_def [symmetric]
    by (auto split: if_splits option.splits)
  have "boundary_start path \<le> f \<and> (h = f \<and> tp = [] \<or>
      boundary_start path \<le> h \<and> h \<le> f \<and> tp = slice_messages path h f)"
  proof (rule findCutPoint_cases [of path "boundary_start path" "length path" "set_keepRecentTokens settings"],
      goal_cases)
    case 1
    then show ?case by (simp add: cp_def f_def h_def tp_def)
  next
    case (2 c)
    have "boundary_start path \<le> f"
      using back_up_range [of "boundary_start path" c path] 2(1,2) by (simp add: cp_def f_def cut_points_iff)
    then show ?case using 2(4) by (auto simp: cp_def f_def h_def tp_def split: option.split bool.split)
  qed
  then have "boundary_start path \<le> f"
    "prep_messagesToSummarize prep @ prep_turnPrefixMessages prep = slice_messages path (boundary_start path) f"
    using e(4,5) slice_messages_split by fastforce+
  then show ?thesis using that [of f] e by (auto simp: js_at_Some_iff)
qed

text \<open>
  C29: Compaction loses nothing. The conversation before compaction is the previous summary, the messages
  handed to the summarising model (history and turn prefix), and the messages of the kept entries, in
  this order and without gaps; and the previous summary is handed on.
\<close>

theorem compaction_partitions_context:
  assumes "distinct (map entry_id path)" and "\<forall>e\<in>set path. no_empty_summary e" and "kept_before path"
    and "prepareCompaction path settings = Some (Some prep)"
  shows "\<exists>pre e post. path = pre @ e # post \<and> entry_id e = prep_firstKeptEntryId prep \<and>
    path_messages path = previous_summary_message path @ prep_messagesToSummarize prep @
      prep_turnPrefixMessages prep @ concat (map entry_messages (e # post)) \<and>
    prep_previousSummary prep = map_option cp_summary (prev_compaction path)"
proof -
  obtain f where f: "f < length path" "prep_firstKeptEntryId prep = entry_id (path ! f)"
    "boundary_start path \<le> f"
    "prep_messagesToSummarize prep @ prep_turnPrefixMessages prep = slice_messages path (boundary_start path) f"
    "prep_previousSummary prep = map_option cp_summary (prev_compaction path)"
    using prepareCompaction_parts [OF assms(4)] by blast
  have "slice_messages path (boundary_start path) (length path) =
      (prep_messagesToSummarize prep @ prep_turnPrefixMessages prep) @ slice_messages path f (length path)"
    using slice_messages_split [of "boundary_start path" f "length path" path] f(1,3,4) by simp
  moreover have "slice_messages path f (length path) = concat (map entry_messages (drop f path))"
    using slice_messages_drop [OF assms(2), of f "length path"] f(1) by simp
  ultimately have "path_messages path = previous_summary_message path @ prep_messagesToSummarize prep @
      prep_turnPrefixMessages prep @ concat (map entry_messages (path ! f # drop (Suc f) path))"
    using context_from_boundary [OF assms(1-3)] f(1) by (simp add: Cons_nth_drop_Suc)
  then show ?thesis using f(2,5) id_take_nth_drop [OF f(1)]
    by (intro exI [of _ "take f path"] exI [of _ "path ! f"] exI [of _ "drop (Suc f) path"]) simp
qed

definition demo_prep :: compaction_preparation where
  "demo_prep = (case prepareCompaction [demo_e1, demo_e2] \<lparr>set_enabled = True, set_reserveTokens = 10, set_keepRecentTokens = 1\<rparr> of
     Some (Some p) \<Rightarrow> p | _ \<Rightarrow> \<lparr>prep_firstKeptEntryId = '''', prep_messagesToSummarize = [], prep_turnPrefixMessages = [],
       prep_isSplitTurn = False, prep_tokensBefore = 0, prep_previousSummary = None, prep_fileOps = createFileOps,
       prep_settings = DEFAULT_COMPACTION_SETTINGS\<rparr>)"

lemma demo_prepared:
  "prepareCompaction [demo_e1, demo_e2] \<lparr>set_enabled = True, set_reserveTokens = 10, set_keepRecentTokens = 1\<rparr> = Some (Some demo_prep)"
  by code_simp

theorem compaction_partitions_context_witness:
  "\<exists>pre e post. [demo_e1, demo_e2] = pre @ e # post \<and> entry_id e = prep_firstKeptEntryId demo_prep \<and>
    path_messages [demo_e1, demo_e2] = previous_summary_message [demo_e1, demo_e2] @ prep_messagesToSummarize demo_prep @
      prep_turnPrefixMessages demo_prep @ concat (map entry_messages (e # post)) \<and>
    prep_previousSummary demo_prep = map_option cp_summary (prev_compaction [demo_e1, demo_e2])"
  by (rule compaction_partitions_context [OF _ _ _ demo_prepared])
    (simp_all add: demo_e1_def demo_e2_def no_empty_summary_def kept_before_def last_compaction_index_def
      find_last_index_def)


definition demo_llm :: "llm_request \<Rightarrow> string + assistant_message" where
  "demo_llm rq = Inr \<lparr>am_content = [TextBlock ''short'' None], am_api = ''a'', am_provider = ''p'',
     am_model = ''m'', am_extra = JUndefined, am_usage = demo_usage, am_stopReason = StopStop,
     am_errorMessage = None, am_timestamp = 5\<rparr>"

definition demo_summarizer :: summarizer where
  "demo_summarizer = \<lparr>sz_model = \<lparr>mi_reasoning = False, mi_maxTokens = 0, mi_contextWindow = 100\<rparr>,
     sz_apiKey = None, sz_headers = None, sz_thinkingLevel = None, sz_now = 4\<rparr>"

definition demo_result :: compaction_result where
  "demo_result = (case compact demo_llm demo_summarizer False demo_prep None of Inr r \<Rightarrow> r
     | Inl e \<Rightarrow> \<lparr>cr_summary = e, cr_firstKeptEntryId = '''', cr_tokensBefore = 0, cr_details = JNull\<rparr>)"

text \<open>Compaction succeeds whenever the model answers without an error.\<close>

lemma compact_succeeds:
  assumes "\<And>rq. \<exists>m. llm rq = Inr m \<and> am_stopReason m \<noteq> StopError" and "prep_firstKeptEntryId prep \<noteq> ''''"
  shows "\<exists>res. compact llm sz first prep instructions = Inr res"
proof -
  have ok: "\<exists>t. summary_of_response failed (llm rq) = Inr t" for failed rq
    using assms(1) [of rq] by (auto simp: summary_of_response_def)
  obtain h where h: "generateSummary llm sz (prep_messagesToSummarize prep)
      (set_reserveTokens (prep_settings prep)) instructions (prep_previousSummary prep) = Inr h"
    using ok unfolding generateSummary_def Let_def by blast
  obtain t where t: "generateTurnPrefixSummary llm sz (prep_turnPrefixMessages prep)
      (set_reserveTokens (prep_settings prep)) = Inr t"
    using ok unfolding generateTurnPrefixSummary_def Let_def by blast
  have "\<exists>summ. compact_summary llm sz first prep instructions = Inr summ"
    by (simp add: compact_summary_def Let_def h t)
  then show ?thesis using assms(2) by (auto simp: compact_def split: prod.split)
qed

lemma demo_compacted: "compact demo_llm demo_summarizer False demo_prep None = Inr demo_result"
proof -
  have "prep_firstKeptEntryId demo_prep \<noteq> ''''"
    using prepareCompaction_parts [OF demo_prepared] by metis
  then have "\<exists>r. compact demo_llm demo_summarizer False demo_prep None = Inr r"
    by (intro compact_succeeds) (simp add: demo_llm_def)
  then show ?thesis by (auto simp: demo_result_def)
qed


section \<open>Summaries and file lists\<close>

text \<open>
  When a turn is split and nothing precedes the turn in the range to summarise, the summary of the
  previous compaction does not reach the new summary: the result is the same whatever it was.
\<close>

theorem split_turn_drops_previous_summary:
  assumes "prep_isSplitTurn prep" and "prep_turnPrefixMessages prep \<noteq> []" and "prep_messagesToSummarize prep = []"
  shows "compact llm sz first (prep\<lparr>prep_previousSummary := Some a\<rparr>) instructions =
    compact llm sz first (prep\<lparr>prep_previousSummary := None\<rparr>) instructions"
  using assms by (simp add: compact_def compact_summary_def Let_def split: sum.split prod.split)

theorem split_turn_drops_previous_summary_witness:
  "compact demo_llm demo_summarizer False (demo_prep\<lparr>prep_isSplitTurn := True, prep_turnPrefixMessages := [demo_user],
     prep_messagesToSummarize := []\<rparr>\<lparr>prep_previousSummary := Some ''old''\<rparr>) None =
   compact demo_llm demo_summarizer False (demo_prep\<lparr>prep_isSplitTurn := True, prep_turnPrefixMessages := [demo_user],
     prep_messagesToSummarize := []\<rparr>\<lparr>prep_previousSummary := None\<rparr>) None"
  by (rule split_turn_drops_previous_summary) simp_all

lemma set_set_add [simp]: "set (set_add x xs) = insert x (set xs)"
  by (auto simp: set_add_def)

lemma distinct_set_add: "distinct xs \<Longrightarrow> distinct (set_add x xs)"
  by (simp add: set_add_def)

lemma set_fold_set_add: "set (fold set_add ys xs) = set xs \<union> set ys"
  by (induction ys arbitrary: xs) auto

lemma distinct_fold_set_add: "distinct xs \<Longrightarrow> distinct (fold set_add ys xs)"
  by (induction ys arbitrary: xs) (auto intro: distinct_set_add)

text \<open>
  The file lists stored with a summary are sorted and free of repetitions, no file is in both, the
  modified list holds exactly the edited and written files, and the read list the files that were
  only read.
\<close>

theorem computeFileLists_correct:
  assumes "distinct (fo_read ops)" and "distinct (fo_edited ops)" and "computeFileLists ops = (readFiles, modifiedFiles)"
  shows "sorted readFiles \<and> sorted modifiedFiles \<and> distinct (readFiles @ modifiedFiles) \<and>
    set modifiedFiles = set (fo_edited ops) \<union> set (fo_written ops) \<and>
    set readFiles = set (fo_read ops) - set modifiedFiles"
proof -
  define modified where "modified = fold set_add (fo_written ops) (fo_edited ops)"
  have lists: "readFiles = sort (filter (\<lambda>f. f \<notin> set modified) (fo_read ops))" "modifiedFiles = sort modified"
    using assms(3) by (simp_all add: computeFileLists_def modified_def Let_def)
  have "distinct modified" "set modified = set (fo_edited ops) \<union> set (fo_written ops)"
    using distinct_fold_set_add [OF assms(2)] by (simp_all add: modified_def set_fold_set_add)
  moreover have "set readFiles = set (fo_read ops) - set modified" by (auto simp only: lists set_sort set_filter)
  moreover have "distinct readFiles" using assms(1) by (simp only: lists distinct_sort distinct_filter)
  moreover have "sorted readFiles" "sorted modifiedFiles" by (simp_all only: lists sorted_sort)
  ultimately show ?thesis unfolding lists(2) distinct_append distinct_sort set_sort by blast
qed

theorem computeFileLists_correct_witness:
  "sorted [''b''] \<and> sorted [''a''] \<and> distinct ([''b''] @ [''a'']) \<and>
    set [''a''] = set (fo_edited \<lparr>fo_read = [''b'', ''a''], fo_written = [''a''], fo_edited = []\<rparr>) \<union>
      set (fo_written \<lparr>fo_read = [''b'', ''a''], fo_written = [''a''], fo_edited = []\<rparr>) \<and>
    set [''b''] = set (fo_read \<lparr>fo_read = [''b'', ''a''], fo_written = [''a''], fo_edited = []\<rparr>) - set [''a'']"
  by (rule computeFileLists_correct) (simp_all add: computeFileLists_def set_add_def)

end
