(* ===== verification/BranchSummary.thy ===== *)
theory BranchSummary
  imports CompactionProps
begin

text \<open>
  Branch summaries, \<open>core/compaction/branch-summarization.ts\<close>: which entries are left behind when
  the user moves to another point of the session tree, which of their messages fit the token budget,
  and the summary the model writes of them.
\<close>

section \<open>Collecting the abandoned entries\<close>

record collect_entries_result =
  ce_entries :: "session_entry list"
  ce_commonAncestorId :: "string option"

text \<open>
  The loop from the old leaf to the common ancestor. A parent cycle would keep it from returning,
  hence the option.
\<close>

partial_function (option) collect_loop ::
  "(string \<Rightarrow> session_entry option) \<Rightarrow> string option \<Rightarrow> string option \<Rightarrow> session_entry list
     \<Rightarrow> session_entry list option" where
  "collect_loop get ancestor current acc =
     (case current of
        None \<Rightarrow> Some acc
      | Some i \<Rightarrow>
          (if i = '''' \<or> Some i = ancestor then Some acc
           else case get i of
                  None \<Rightarrow> Some acc
                | Some e \<Rightarrow> collect_loop get ancestor (parentId e) (e # acc)))"

declare collect_loop.simps [code]

definition collectEntriesForBranchSummary ::
  "sm_state \<Rightarrow> string option \<Rightarrow> string \<Rightarrow> collect_entries_result option" where
  "collectEntriesForBranchSummary session oldLeafId targetId =
     (case oldLeafId of
        None \<Rightarrow> Some \<lparr>ce_entries = [], ce_commonAncestorId = None\<rparr>
      | Some old \<Rightarrow>
          (if old = '''' then Some \<lparr>ce_entries = [], ce_commonAncestorId = None\<rparr>
           else case (getBranch (Some old) session, getBranch (Some targetId) session) of
                  (Some oldPath, Some targetPath) \<Rightarrow>
                    (let oldIds = map entry_id oldPath;
                         common = map_option entry_id (List.find (\<lambda>e. entry_id e \<in> set oldIds) (rev targetPath))
                     in map_option (\<lambda>es. \<lparr>ce_entries = es, ce_commonAncestorId = common\<rparr>)
                          (collect_loop (get_entry session) common (Some old) []))
                | _ \<Rightarrow> None))"

section \<open>Fitting the budget\<close>

definition branch_getMessageFromEntry :: "session_entry \<Rightarrow> agent_message option" where
  "branch_getMessageFromEntry e =
     (case entry_body e of
        EMessage (ToolResultMsg _) \<Rightarrow> None
      | EMessage m \<Rightarrow> Some m
      | ECustomMessage customType content details display \<Rightarrow>
          Some (createCustomMessage customType content display details (entry_timestamp e))
      | EBranchSummary fromId summary _ _ \<Rightarrow>
          Some (createBranchSummaryMessage summary fromId (entry_timestamp e))
      | ECompaction c \<Rightarrow>
          Some (createCompactionSummaryMessage (cp_summary c) (cp_tokensBefore c) (entry_timestamp e))
      | _ \<Rightarrow> None)"

record branch_preparation =
  bp_messages :: "agent_message list"
  bp_fileOps :: file_operations
  bp_totalTokens :: nat

definition is_summary_entry :: "session_entry \<Rightarrow> bool" where
  "is_summary_entry e = (case entry_body e of ECompaction _ \<Rightarrow> True | EBranchSummary _ _ _ _ \<Rightarrow> True | _ \<Rightarrow> False)"

text \<open>
  The pass from the newest entry to the oldest. The budget is an integer, for the caller's difference
  may be negative; \<open>totalTokens < tokenBudget * 0.9\<close> is compared over the integers.
\<close>

fun prepare_loop :: "int \<Rightarrow> session_entry list \<Rightarrow> branch_preparation \<Rightarrow> branch_preparation" where
  "prepare_loop tokenBudget [] p = p"
| "prepare_loop tokenBudget (e # es) p =
     (case branch_getMessageFromEntry e of
        None \<Rightarrow> prepare_loop tokenBudget es p
      | Some message \<Rightarrow>
          (let p1 = p\<lparr>bp_fileOps := extractFileOpsFromMessage message (bp_fileOps p)\<rparr>;
               tokens = estimateTokens message;
               p2 = p1\<lparr>bp_messages := message # bp_messages p1, bp_totalTokens := bp_totalTokens p1 + tokens\<rparr>
           in if tokenBudget > 0 \<and> int (bp_totalTokens p + tokens) > tokenBudget
              then (if is_summary_entry e \<and> 10 * int (bp_totalTokens p) < 9 * tokenBudget then p2 else p1)
              else prepare_loop tokenBudget es p2))"

definition branch_details :: "session_entry \<Rightarrow> file_operations \<Rightarrow> file_operations" where
  "branch_details e ops =
     (case entry_body e of
        EBranchSummary _ _ details fromHook \<Rightarrow> (if \<not> fromHook then add_details details ops else ops)
      | _ \<Rightarrow> ops)"

definition prepareBranchEntries :: "session_entry list \<Rightarrow> int \<Rightarrow> branch_preparation" where
  "prepareBranchEntries entries tokenBudget =
     prepare_loop tokenBudget (rev entries)
       \<lparr>bp_messages = [], bp_fileOps = fold branch_details entries createFileOps, bp_totalTokens = 0\<rparr>"

section \<open>The summary\<close>

record branch_summary_options =
  bo_model :: model_info
  bo_apiKey :: string
  bo_headers :: "(string \<times> string) list option"
  bo_customInstructions :: "string option"
  bo_replaceInstructions :: bool
  bo_reserveTokens :: "nat option"
  bo_now :: int

datatype branch_summary_result =
    BranchSummaryText string "(string list \<times> string list) option"
  | BranchSummaryAborted
  | BranchSummaryError string

definition generateBranchSummary ::
  "(llm_request \<Rightarrow> string + assistant_message) \<Rightarrow> session_entry list \<Rightarrow> branch_summary_options
     \<Rightarrow> string + branch_summary_result" where
  "generateBranchSummary llm entries options =
     (let reserveTokens = (case bo_reserveTokens options of Some n \<Rightarrow> n | None \<Rightarrow> 16384);
          contextWindow = (if mi_contextWindow (bo_model options) \<noteq> 0 then mi_contextWindow (bo_model options) else 128000);
          tokenBudget = int contextWindow - int reserveTokens;
          prep = prepareBranchEntries entries tokenBudget
      in if bp_messages prep = [] then Inr (BranchSummaryText ''No content to summarize'' None)
         else
           let custom = bo_customInstructions options;
               instructions = (if bo_replaceInstructions options \<and> truthy_string custom then the custom
                 else if truthy_string custom then BRANCH_SUMMARY_PROMPT @ blank_line @ ''Additional focus: '' @ the custom
                 else BRANCH_SUMMARY_PROMPT);
               promptText = wrap_conversation (bp_messages prep) @ instructions;
               request = \<lparr>rq_model = bo_model options, rq_systemPrompt = SUMMARIZATION_SYSTEM_PROMPT,
                 rq_messages = [text_user_message promptText (bo_now options)],
                 rq_options = \<lparr>so_maxTokens = 2048, so_apiKey = Some (bo_apiKey options),
                   so_headers = bo_headers options, so_reasoning = None\<rparr>\<rparr>
           in case llm request of
                Inl e \<Rightarrow> Inl e
              | Inr m \<Rightarrow> Inr (
                  if am_stopReason m = StopAborted then BranchSummaryAborted
                  else if am_stopReason m = StopError
                  then BranchSummaryError (case am_errorMessage m of
                      Some e \<Rightarrow> (if e \<noteq> '''' then e else ''Summarization failed'') | None \<Rightarrow> ''Summarization failed'')
                  else
                    let (readFiles, modifiedFiles) = computeFileLists (bp_fileOps prep);
                        summary = BRANCH_SUMMARY_PREAMBLE @ js_join newline (text_of_blocks (am_content m)) @
                          formatFileOperations readFiles modifiedFiles
                    in BranchSummaryText (if summary \<noteq> '''' then summary else ''No summary generated'')
                         (Some (readFiles, modifiedFiles))))"

section \<open>What is collected\<close>

lemma collect_loop_chain:
  assumes "chained (Some a) p \<or> a = '''' \<and> chained None p"
    and "\<forall>e\<in>set p. get (entry_id e) = Some e \<and> entry_id e \<noteq> '''' \<and> Some (entry_id e) \<noteq> anc"
    and "anc = (if a = '''' then None else Some a)" and "p \<noteq> []"
  shows "collect_loop get anc (Some (entry_id (last p))) acc = Some (p @ acc)"
  using assms
proof (induction p arbitrary: acc rule: rev_induct)
  case (snoc e p)
  have e: "get (entry_id e) = Some e" "entry_id e \<noteq> ''''" "Some (entry_id e) \<noteq> anc"
    using snoc.prems(2) by auto
  have step: "collect_loop get anc (Some (entry_id e)) acc = collect_loop get anc (parentId e) (e # acc)"
    using e by (subst collect_loop.simps) simp
  show ?case
  proof (cases "p = []")
    case True
    then have "parentId e = (if a = '''' then None else Some a) \<or> parentId e = Some a"
      using snoc.prems(1) by auto
    then have "collect_loop get anc (parentId e) (e # acc) = Some (e # acc)"
      using snoc.prems(3) by (subst collect_loop.simps) (auto split: if_splits)
    then show ?thesis using step True by simp
  next
    case False
    then have "parentId e = Some (entry_id (last p))" "chained (Some a) p \<or> a = '''' \<and> chained None p"
      using snoc.prems(1) by (auto simp: chained_append)
    then show ?thesis using snoc.IH [of "e # acc"] step snoc.prems(2,3) False by simp
  qed
qed simp

text \<open>Two root paths of one tree agree up to the deepest entry they share.\<close>

lemma chained_prefix_unique:
  assumes "chained None p" and "chained None q" and "wf_entries p" and "wf_entries q"
    and "\<forall>e\<in>set p. get (entry_id e) = Some e" and "\<forall>e\<in>set q. get (entry_id e) = Some e"
    and "i < length p" and "j < length q" and "entry_id (p ! i) = entry_id (q ! j)"
  shows "i = j \<and> take (Suc i) p = take (Suc j) q"
proof -
  have walk_take: "walk get (Some (r ! k)) [] = Some (take (Suc k) r)"
    if "chained None r" "\<forall>e\<in>set r. get (entry_id e) = Some e" "k < length r" "wf_entries r" for r k
  proof -
    have "chained None (take (Suc k) r)" using that(1) chained_append [of None "take (Suc k) r" "drop (Suc k) r"] by simp
    moreover have "\<forall>e\<in>set (take (Suc k) r). get (entry_id e) = Some e \<and> entry_id e \<noteq> ''''"
      using that(2,4) closed_from_disjoint by (auto simp: wf_entries_def dest: in_set_takeD)
    moreover have "last (take (Suc k) r) = r ! k" using that(3) by (simp add: take_Suc_conv_app_nth)
    moreover have "take (Suc k) r \<noteq> []" using that(3) by auto
    ultimately show ?thesis using chained_walk by metis
  qed
  have "p ! i = q ! j" using assms(5-9) by (metis nth_mem option.inject)
  then have eq: "take (Suc i) p = take (Suc j) q"
    using walk_take [OF assms(1,5,7,3)] walk_take [OF assms(2,6,8,4)] by simp
  then have "min (length p) (Suc i) = min (length q) (Suc j)" by (metis length_take)
  then show ?thesis using eq assms(7,8) by simp
qed

lemma find_rev_SomeD:
  "List.find P (rev q) = Some x \<Longrightarrow> \<exists>ys zs. q = ys @ x # zs \<and> P x \<and> (\<forall>z\<in>set zs. \<not> P z)"
proof (induction q rule: rev_induct)
  case (snoc y q)
  show ?case
  proof (cases "P y")
    case True
    then show ?thesis using snoc.prems by (intro exI [of _ q] exI [of _ "[]"]) auto
  next
    case False
    then obtain ys zs where "q = ys @ x # zs" "P x" "\<forall>z\<in>set zs. \<not> P z" using snoc by auto
    then show ?thesis using False by (intro exI [of _ ys] exI [of _ "zs @ [y]"]) auto
  qed
qed simp

text \<open>What a branch of a well-formed session is.\<close>

lemma branch_facts:
  assumes "tree_inv s" and "get_entry s i = Some x" and "i \<noteq> ''''"
  obtains p where "getBranch (Some i) s = Some p" "chained None p" "wf_entries p" "p \<noteq> []"
    "entry_id (last p) = i" "\<forall>e\<in>set p. get_entry s (entry_id e) = Some e"
proof -
  obtain p where p: "walk (get_entry s) (Some x) [] = Some p" using sm.walk_total assms(1,2) by blast
  have rp: "root_path (get_entry s) p" and "last p = x"
    using sm.walk_root_path [OF assms(1,2) p] sm.walk_last [OF assms(1,2) p] .
  have mem: "\<forall>e\<in>set p. get_entry s (entry_id e) = Some e" using sm.walk_members [OF assms(1,2) p] by blast
  have "chained None p"
    by (rule root_path_chained [OF rp sm.walk_first_is_root [OF assms(1,2) p] mem sm.lookup_id [OF assms(1)]])
  moreover have "wf_entries p" by (rule wf_path [OF assms(1,2) p])
  moreover have "entry_id (last p) = i" using \<open>last p = x\<close> sm.lookup_id [OF assms(1,2)] by simp
  moreover have "getBranch (Some i) s = Some p" using p assms(2,3) by (simp add: getBranch_def)
  ultimately show ?thesis using that mem rp by (simp add: root_path_def)
qed

text \<open>
  C31: Moving from one point of the session tree to another collects exactly the entries left behind: the
  old branch and the target branch share a prefix, the entries collected are the rest of the old
  branch in order, none of them is on the target branch, and the common ancestor reported is the
  last entry of the shared prefix.
\<close>

theorem collect_abandoned_entries:
  assumes "sm_reachable env s" and "get_entry s old = Some x" and "get_entry s target = Some y"
    and "old \<noteq> ''''" and "target \<noteq> ''''"
  shows "\<exists>common rest rest'. getBranch (Some old) s = Some (common @ rest) \<and>
    getBranch (Some target) s = Some (common @ rest') \<and> entry_id ` set rest \<inter> entry_id ` set (common @ rest') = {} \<and>
    collectEntriesForBranchSummary s (Some old) target =
      Some \<lparr>ce_entries = rest, ce_commonAncestorId = map_option entry_id (js_last common)\<rparr>"
proof -
  have tree: "tree_inv s" using reachable_parts assms(1) by blast
  obtain p where p: "getBranch (Some old) s = Some p" "chained None p" "wf_entries p" "p \<noteq> []"
    "entry_id (last p) = old" "\<forall>e\<in>set p. get_entry s (entry_id e) = Some e"
    using branch_facts [OF tree assms(2,4)] .
  obtain q where q: "getBranch (Some target) s = Some q" "chained None q" "wf_entries q"
    "\<forall>e\<in>set q. get_entry s (entry_id e) = Some e"
    using branch_facts [OF tree assms(3,5)] .
  have nonempty: "\<forall>e\<in>set p. entry_id e \<noteq> ''''"
    using p(3) closed_from_disjoint by (auto simp: wf_entries_def)
  let ?find = "List.find (\<lambda>e. entry_id e \<in> entry_id ` set p) (rev q)"
  have coll: "collectEntriesForBranchSummary s (Some old) target =
      map_option (\<lambda>es. \<lparr>ce_entries = es, ce_commonAncestorId = map_option entry_id ?find\<rparr>)
        (collect_loop (get_entry s) (map_option entry_id ?find) (Some old) [])"
    using p(1) q(1) assms(4) by (simp add: collectEntriesForBranchSummary_def)
  show ?thesis
  proof (cases ?find)
    case None
    then have disj: "\<forall>e\<in>set q. entry_id e \<notin> entry_id ` set p" by (simp add: find_None_iff)
    have "collect_loop (get_entry s) None (Some old) [] = Some (p @ [])"
      using collect_loop_chain [of "''''" p "get_entry s" None "[]"] p nonempty by simp
    then have "collectEntriesForBranchSummary s (Some old) target =
        Some \<lparr>ce_entries = p, ce_commonAncestorId = map_option entry_id (js_last [])\<rparr>"
      using coll None by simp
    moreover have "entry_id ` set p \<inter> entry_id ` set ([] @ q) = {}"
      using disj by (simp add: disjoint_iff) (metis imageE)
    moreover have "getBranch (Some old) s = Some ([] @ p)" "getBranch (Some target) s = Some ([] @ q)"
      using p(1) q(1) by simp_all
    ultimately show ?thesis by blast
  next
    case (Some z)
    obtain qs rest' where z: "q = qs @ z # rest'" "entry_id z \<in> entry_id ` set p"
      "\<forall>w\<in>set rest'. entry_id w \<notin> entry_id ` set p"
      using find_rev_SomeD [OF Some] by blast
    then obtain i where i: "i < length p" "entry_id (p ! i) = entry_id (q ! length qs)"
      by (auto simp: in_set_conv_nth)
    then have take: "i = length qs" "take (Suc i) p = take (Suc (length qs)) q"
      using chained_prefix_unique [OF p(2) q(2) p(3) q(3) p(6) q(4) i(1), of "length qs"] z(1) by auto
    define common where "common = qs @ [z]"
    define rest where "rest = drop (Suc i) p"
    have split: "p = common @ rest" "q = common @ rest'"
      using take z(1) append_take_drop_id [of "Suc i" p] by (auto simp: common_def rest_def)
    have dist: "distinct (map entry_id (common @ rest))" using wf_entries_distinct [OF p(3)] split(1) by simp
    have "collect_loop (get_entry s) (Some (entry_id z)) (Some old) [] = Some rest"
    proof (cases "rest = []")
      case True
      then have "old = entry_id z" using p(5) split(1) by (simp add: common_def)
      then show ?thesis using True by (subst collect_loop.simps) simp
    next
      case False
      have "chained (Some (entry_id z)) rest" using p(2) split(1) by (simp add: chained_append common_def)
      moreover have "entry_id z \<noteq> ''''" using nonempty split(1) by (simp add: common_def)
      moreover have "entry_id z \<notin> entry_id ` set rest" using dist by (auto simp: common_def)
      then have "\<forall>e\<in>set rest. entry_id e \<noteq> entry_id z" by (metis imageI)
      ultimately show ?thesis
        using collect_loop_chain [of "entry_id z" rest "get_entry s" "Some (entry_id z)" "[]"] False p(5,6) nonempty
        by (simp add: split(1))
    qed
    moreover have "entry_id ` set rest \<inter> entry_id ` set common = {}" using dist by auto
    moreover have "entry_id ` set rest \<inter> entry_id ` set rest' = {}"
      using z(3) split(1) by (simp add: disjoint_iff) (metis UnI2 image_Un imageE)
    ultimately have "collect_loop (get_entry s) (Some (entry_id z)) (Some old) [] = Some rest"
      "entry_id ` set rest \<inter> entry_id ` set (common @ rest') = {}"
      by (simp_all add: image_Un Int_Un_distrib)
    moreover have "collectEntriesForBranchSummary s (Some old) target =
        Some \<lparr>ce_entries = rest, ce_commonAncestorId = map_option entry_id (js_last common)\<rparr>"
      using coll Some \<open>collect_loop (get_entry s) (Some (entry_id z)) (Some old) [] = Some rest\<close>
      by (simp add: common_def)
    ultimately show ?thesis using p(1) q(1) split by metis
  qed
qed

theorem collect_abandoned_entries_witness:
  "\<exists>common rest rest'. getBranch (Some ''aa'') demo_2 = Some (common @ rest) \<and>
    getBranch (Some ''a'') demo_2 = Some (common @ rest') \<and> entry_id ` set rest \<inter> entry_id ` set (common @ rest') = {} \<and>
    collectEntriesForBranchSummary demo_2 (Some ''aa'') ''a'' =
      Some \<lparr>ce_entries = rest, ce_commonAncestorId = map_option entry_id (js_last common)\<rparr>"
  by (rule collect_abandoned_entries [OF demo_reachable(3)]) (simp_all add: demo_2_eval demo_1_eval demo_0_eval)

section \<open>The budget\<close>

lemma prepare_loop_suffix:
  "\<exists>k. bp_messages (prepare_loop b es p) =
     rev (take k (List.map_filter branch_getMessageFromEntry es)) @ bp_messages p"
proof (induction b es p rule: prepare_loop.induct)
  case (1 b p)
  then show ?case by simp
next
  case (2 b e es p)
  show ?case
  proof (cases "branch_getMessageFromEntry e")
    case None
    then show ?thesis using "2.IH"(1) by (simp add: map_filter_simps)
  next
    case (Some m)
    let ?p1 = "p\<lparr>bp_fileOps := extractFileOpsFromMessage m (bp_fileOps p)\<rparr>"
    let ?p2 = "?p1\<lparr>bp_messages := m # bp_messages ?p1, bp_totalTokens := bp_totalTokens ?p1 + estimateTokens m\<rparr>"
    let ?over = "b > 0 \<and> int (bp_totalTokens p + estimateTokens m) > b"
    let ?fit = "is_summary_entry e \<and> 10 * int (bp_totalTokens p) < 9 * b"
    have eq: "prepare_loop b (e # es) p = (if ?over then if ?fit then ?p2 else ?p1 else prepare_loop b es ?p2)"
      using Some by (simp add: Let_def)
    consider (skip) "?over" "\<not> ?fit" | (last) "?over" "?fit" | (more) "\<not> ?over" by blast
    then show ?thesis
    proof cases
      case skip
      then have "prepare_loop b (e # es) p = ?p1" unfolding eq by presburger
      then show ?thesis by (intro exI [of _ 0]) simp
    next
      case last
      then have "prepare_loop b (e # es) p = ?p2" unfolding eq by presburger
      then show ?thesis using Some by (intro exI [of _ 1]) (simp add: map_filter_simps)
    next
      case more
      then have 3: "prepare_loop b (e # es) p = prepare_loop b es ?p2" unfolding eq by presburger
      obtain k where "bp_messages (prepare_loop b es ?p2) =
          rev (take k (List.map_filter branch_getMessageFromEntry es)) @ bp_messages ?p2"
        using "2.IH"(2) [OF Some refl refl refl more] by blast
      then show ?thesis using 3 Some by (intro exI [of _ "Suc k"]) (simp add: map_filter_simps)
    qed
  qed
qed

lemma prepare_loop_tokens:
  assumes "0 < b" and "int (bp_totalTokens p) \<le> b" and "\<forall>e\<in>set es. \<not> is_summary_entry e"
  shows "int (bp_totalTokens (prepare_loop b es p)) \<le> b"
  using assms
proof (induction b es p rule: prepare_loop.induct)
  case (2 b e es p)
  show ?case
  proof (cases "branch_getMessageFromEntry e")
    case None
    then show ?thesis using 2 by simp
  next
    case (Some m)
    then show ?thesis
      using "2.IH"(2) [OF Some refl refl refl] "2.prems" by (auto simp: Let_def)
  qed
qed simp

text \<open>
  The messages prepared for a branch summary are the newest messages of the branch, in order and
  without gaps, and a positive token budget is respected when the branch holds no earlier summaries.
\<close>

theorem prepareBranchEntries_newest:
  assumes "prepareBranchEntries entries b = p"
  shows "(\<exists>k. bp_messages p = drop k (List.map_filter branch_getMessageFromEntry entries)) \<and>
    (0 < b \<and> (\<forall>e\<in>set entries. \<not> is_summary_entry e) \<longrightarrow> int (bp_totalTokens p) \<le> b)"
proof -
  let ?p0 = "\<lparr>bp_messages = [], bp_fileOps = fold branch_details entries createFileOps, bp_totalTokens = 0\<rparr>"
  obtain k where "bp_messages p = rev (take k (List.map_filter branch_getMessageFromEntry (rev entries)))"
    using prepare_loop_suffix [of b "rev entries" ?p0] assms by (auto simp: prepareBranchEntries_def)
  moreover have "List.map_filter f (rev xs) = rev (List.map_filter f xs)" for f :: "session_entry \<Rightarrow> agent_message option" and xs
    by (simp add: map_filter_def rev_map rev_filter)
  ultimately have "\<exists>k. bp_messages p = drop k (List.map_filter branch_getMessageFromEntry entries)"
    by (metis rev_rev_ident rev_take)
  moreover have "0 < b \<Longrightarrow> \<forall>e\<in>set entries. \<not> is_summary_entry e \<Longrightarrow> int (bp_totalTokens p) \<le> b"
    using prepare_loop_tokens [of b ?p0 "rev entries"] assms by (simp add: prepareBranchEntries_def)
  ultimately show ?thesis by blast
qed

theorem prepareBranchEntries_newest_witness:
  "(\<exists>k. bp_messages (prepareBranchEntries [demo_e1, demo_e2] 2) =
      drop k (List.map_filter branch_getMessageFromEntry [demo_e1, demo_e2])) \<and>
    int (bp_totalTokens (prepareBranchEntries [demo_e1, demo_e2] 2)) \<le> 2"
  using prepareBranchEntries_newest [OF refl, of "[demo_e1, demo_e2]" 2]
  by (simp add: is_summary_entry_def demo_e1_def demo_e2_def)

end
