(* ===== verification/Effects.thy ===== *)
theory Effects
  imports Messages
begin

text \<open>
  The effects of the agent package. An \<open>async\<close> function is a state transformer over a pair of the
  world, a type the model leaves open (the queues, the abort signal, the clock, whatever the hooks
  and listeners keep), and the trace of the events handed to the event sink so far. It returns
  \<open>Inl\<close> of the message when it throws and \<open>None\<close> when it never returns; the \<open>message\<close> of
  an error is all its callers read. A weakest precondition with one postcondition for each way of
  returning carries the proofs.
\<close>

type_synonym 'w st = "'w \<times> agent_event list"
type_synonym ('w, 'a) eff = "'w st \<Rightarrow> ((string + 'a) \<times> 'w st) option"

text \<open>A callback the caller supplies: it may change the world and may throw.\<close>

type_synonym ('w, 'a) hook = "'w \<Rightarrow> (string + 'a) \<times> 'w"

definition returnE :: "'a \<Rightarrow> ('w, 'a) eff" where
  "returnE a s = Some (Inr a, s)"

definition throwE :: "string \<Rightarrow> ('w, 'a) eff" where
  "throwE e s = Some (Inl e, s)"

definition bindE :: "('w, 'a) eff \<Rightarrow> ('a \<Rightarrow> ('w, 'b) eff) \<Rightarrow> ('w, 'b) eff" where
  "bindE m k s = Option.bind (m s) (\<lambda>(r, s'). case r of Inl e \<Rightarrow> Some (Inl e, s') | Inr a \<Rightarrow> k a s')"

definition catchE :: "('w, 'a) eff \<Rightarrow> (string \<Rightarrow> ('w, 'a) eff) \<Rightarrow> ('w, 'a) eff" where
  "catchE m h s = Option.bind (m s) (\<lambda>(r, s'). case r of Inl e \<Rightarrow> h e s' | Inr a \<Rightarrow> Some (Inr a, s'))"

definition askE :: "('w \<Rightarrow> 'a) \<Rightarrow> ('w, 'a) eff" where
  "askE f s = Some (Inr (f (fst s)), s)"

definition callE :: "('w, 'a) hook \<Rightarrow> ('w, 'a) eff" where
  "callE h s = (let (r, w) = h (fst s) in Some (r, (w, snd s)))"

definition liftE :: "string + 'a \<Rightarrow> ('w, 'a) eff" where
  "liftE r s = Some (r, s)"

text \<open>An optional hook, \<open>config.hook?.(...)\<close>, with the value of the missing case.\<close>

definition call_optE :: "'a \<Rightarrow> ('w, 'a) hook option \<Rightarrow> ('w, 'a) eff" where
  "call_optE d h = (case h of None \<Rightarrow> returnE d | Some f \<Rightarrow> callE f)"

text \<open>\<open>await emit(event)\<close>: the event is in the trace whether or not the sink then fails.\<close>

definition emitE :: "(agent_event \<Rightarrow> ('w, unit) hook) \<Rightarrow> agent_event \<Rightarrow> ('w, unit) eff" where
  "emitE sink ev s = (let (r, w) = sink ev (fst s) in Some (r, (w, snd s @ [ev])))"

primrec for_eachE :: "('a \<Rightarrow> ('w, unit) eff) \<Rightarrow> 'a list \<Rightarrow> ('w, unit) eff" where
  "for_eachE f [] = returnE ()"
| "for_eachE f (x # xs) = bindE (f x) (\<lambda>_. for_eachE f xs)"

text \<open>Recursive effects: binding is monotone, so a loop may call itself under it.\<close>

lemma case_result_mono:
  assumes "\<And>a s. mono_option (\<lambda>f. k f a s)"
  shows "mono_option (\<lambda>f. case p of (r, s') \<Rightarrow> (case r of Inl e \<Rightarrow> Some (Inl e, s') | Inr a \<Rightarrow> k f a s'))"
proof (cases p)
  case (Pair r s')
  then show ?thesis by (cases r) (simp_all add: assms option.const_mono)
qed

lemma bindE_mono [partial_function_mono]:
  assumes "\<And>s. mono_option (\<lambda>f. m f s)" and "\<And>a s. mono_option (\<lambda>f. k f a s)"
  shows "mono_option (\<lambda>f. bindE (m f) (k f) s)"
  unfolding bindE_def
  by (rule bind_mono [OF assms(1) case_result_mono [OF assms(2)]])

section \<open>Weakest preconditions\<close>

definition wp :: "('w, 'a) eff \<Rightarrow> ('a \<Rightarrow> 'w st \<Rightarrow> bool) \<Rightarrow> (string \<Rightarrow> 'w st \<Rightarrow> bool) \<Rightarrow> 'w st \<Rightarrow> bool" where
  "wp m Q E s = (case m s of None \<Rightarrow> True | Some (Inl e, s') \<Rightarrow> E e s' | Some (Inr a, s') \<Rightarrow> Q a s')"

lemma wp_returnE [simp]: "wp (returnE a) Q E = Q a"
  by (rule ext) (simp add: wp_def returnE_def)

lemma wp_throwE [simp]: "wp (throwE e) Q E = E e"
  by (rule ext) (simp add: wp_def throwE_def)

lemma wp_askE [simp]: "wp (askE f) Q E = (\<lambda>s. Q (f (fst s)) s)"
  by (rule ext) (simp add: wp_def askE_def)

lemma wp_liftE [simp]: "wp (liftE r) Q E = (case r of Inl e \<Rightarrow> E e | Inr a \<Rightarrow> Q a)"
  by (rule ext) (simp add: wp_def liftE_def split: sum.split)

lemma wp_bindE [simp]: "wp (bindE m k) Q E = wp m (\<lambda>a. wp (k a) Q E) E"
  by (rule ext) (auto simp: wp_def bindE_def split: option.split prod.split sum.split)

lemma wp_catchE [simp]: "wp (catchE m h) Q E = wp m Q (\<lambda>e. wp (h e) Q E)"
  by (rule ext) (auto simp: wp_def catchE_def split: option.split prod.split sum.split)

lemma wp_if [simp]: "wp (if b then m else n) Q E = (if b then wp m Q E else wp n Q E)"
  by simp

lemma wp_callE: "wp (callE h) Q E s =
    (case h (fst s) of (Inl e, w) \<Rightarrow> E e (w, snd s) | (Inr a, w) \<Rightarrow> Q a (w, snd s))"
  by (auto simp: wp_def callE_def split: prod.split sum.split)

lemma wp_emitE: "wp (emitE sink ev) Q E s =
    (case sink ev (fst s) of
       (Inl e, w) \<Rightarrow> E e (w, snd s @ [ev]) | (Inr _, w) \<Rightarrow> Q () (w, snd s @ [ev]))"
  by (auto simp: wp_def emitE_def split: prod.split sum.split)

lemma wp_mono:
  assumes "wp m Q E s" and "\<And>a s'. Q a s' \<Longrightarrow> Q' a s'" and "\<And>e s'. E e s' \<Longrightarrow> E' e s'"
  shows "wp m Q' E' s"
  using assms by (auto simp: wp_def split: option.splits sum.splits)

text \<open>Rules for a hook and for an event when the postconditions do not look at the world.\<close>

lemma wp_callE_any [loop_rules]:
  assumes "\<And>a w. Q a (w, snd s)" and "\<And>e w. E e (w, snd s)"
  shows "wp (callE h) Q E s"
  using assms by (auto simp: wp_callE split: prod.split sum.split)

lemma wp_call_optE_any [loop_rules]:
  assumes "\<And>a w. Q a (w, snd s)" and "\<And>e w. E e (w, snd s)"
  shows "wp (call_optE d h) Q E s"
  using assms assms(1) [of d "fst s"]
  by (auto simp: call_optE_def intro!: wp_callE_any split: option.split)

lemma wp_emitE_any [loop_rules]:
  assumes "\<And>w. Q () (w, snd s @ [ev])" and "\<And>e w. E e (w, snd s @ [ev])"
  shows "wp (emitE sink ev) Q E s"
  using assms by (auto simp: wp_emitE split: prod.split sum.split)

lemma wp_for_eachE:
  assumes "I [] s"
    and "\<And>done x rest s'. xs = done @ x # rest \<Longrightarrow> I done s' \<Longrightarrow> wp (f x) (\<lambda>_. I (done @ [x])) E s'"
    and "\<And>s'. I xs s' \<Longrightarrow> Q () s'"
  shows "wp (for_eachE f xs) Q E s"
proof -
  have "wp (for_eachE f ys) (\<lambda>_. I xs) E s'" if "xs = zs @ ys" "I zs s'" for zs ys s'
    using that
  proof (induction ys arbitrary: zs s')
    case (Cons y ys)
    have "wp (f y) (\<lambda>_. I (zs @ [y])) E s'" using assms(2) [OF Cons.prems] .
    then show ?case using Cons.IH [of "zs @ [y]"] Cons.prems(1) by (auto elim!: wp_mono)
  qed simp
  from this [of "[]" xs s] assms(1) show ?thesis by (auto elim: wp_mono intro: assms(3))
qed

text \<open>Reading a run off a weakest precondition.\<close>

lemma wp_Inr: "wp m Q E s \<Longrightarrow> m s = Some (Inr a, s') \<Longrightarrow> Q a s'"
  by (simp add: wp_def)

lemma wp_Inl: "wp m Q E s \<Longrightarrow> m s = Some (Inl e, s') \<Longrightarrow> E e s'"
  by (simp add: wp_def)

section \<open>Effects that always return\<close>

definition returns :: "('w, 'a) eff \<Rightarrow> bool" where
  "returns m = (\<forall>s. m s \<noteq> None)"

lemma returns_basic [simp, intro]:
  "returns (returnE a)" "returns (throwE e)" "returns (askE f)" "returns (callE h)"
  "returns (liftE r)" "returns (emitE sink ev)"
  by (auto simp: returns_def returnE_def throwE_def askE_def callE_def liftE_def emitE_def
      split: prod.split)

lemma returns_call_optE [simp, intro]: "returns (call_optE d h)"
  by (simp add: call_optE_def split: option.split)

lemma returns_bindE [intro]: "returns m \<Longrightarrow> (\<And>a. returns (k a)) \<Longrightarrow> returns (bindE m k)"
  by (fastforce simp: returns_def bindE_def split: bind_split sum.split)

lemma returns_catchE [intro]: "returns m \<Longrightarrow> (\<And>e. returns (h e)) \<Longrightarrow> returns (catchE m h)"
  by (fastforce simp: returns_def catchE_def split: bind_split sum.split)

lemma returns_for_eachE [intro]: "(\<And>x. returns (f x)) \<Longrightarrow> returns (for_eachE f xs)"
  by (induction xs) auto

text \<open>Monad laws.\<close>

lemma bindE_returnE [simp]: "bindE (returnE a) k = k a"
  by (rule ext) (simp add: bindE_def returnE_def)

lemma bindE_throwE [simp]: "bindE (throwE e) k = throwE e"
  by (rule ext) (simp add: bindE_def throwE_def)

lemma bindE_assoc: "bindE (bindE m k) l = bindE m (\<lambda>a. bindE (k a) l)"
  by (rule ext) (auto simp: bindE_def split: bind_split sum.split)

end
