(* ===== verification/Regex.thy ===== *)
theory Regex
  imports Prelude
begin

text \<open>
  The fragment of JavaScript regular expressions the sources test strings with: character classes,
  sequence, alternative, option, repetition of a class, start of input and word boundary. Only
  \<open>RegExp.prototype.test\<close> is used, so a match is the existence of an end position and the order
  in which a backtracking matcher tries alternatives does not matter.
\<close>

datatype regex =
    Chr "char \<Rightarrow> bool"
  | Many "char \<Rightarrow> bool"
  | Seq regex regex
  | Alt regex regex
  | Opt regex
  | Eps
  | Boundary
  | Bol

definition is_word_char :: "char \<Rightarrow> bool" where
  "is_word_char c = (let n = (of_char c :: nat) in
     (48 \<le> n \<and> n \<le> 57) \<or> (65 \<le> n \<and> n \<le> 90) \<or> n = 95 \<or> (97 \<le> n \<and> n \<le> 122))"

definition word_at :: "string \<Rightarrow> nat \<Rightarrow> bool" where
  "word_at s i = (i < length s \<and> is_word_char (s ! i))"

text \<open>\<open>ends r s i\<close>: the positions at which a match of \<open>r\<close> that begins at \<open>i\<close> can end.\<close>

fun ends :: "regex \<Rightarrow> string \<Rightarrow> nat \<Rightarrow> nat list" where
  "ends (Chr P) s i = (if i < length s \<and> P (s ! i) then [Suc i] else [])"
| "ends (Many P) s i = [i..<Suc (i + length (takeWhile P (drop i s)))]"
| "ends (Seq a b) s i = concat (map (ends b s) (ends a s i))"
| "ends (Alt a b) s i = ends a s i @ ends b s i"
| "ends (Opt a) s i = i # ends a s i"
| "ends Eps s i = [i]"
| "ends Boundary s i = (if (0 < i \<and> word_at s (i - 1)) \<noteq> word_at s i then [i] else [])"
| "ends Bol s i = (if i = 0 then [i] else [])"

definition regex_test :: "regex \<Rightarrow> string \<Rightarrow> bool" where
  "regex_test r s = list_ex (\<lambda>i. ends r s i \<noteq> []) [0..<Suc (length s)]"

definition one_of :: "string \<Rightarrow> regex" where
  "one_of cs = Chr (\<lambda>c. c \<in> set cs)"

definition space :: regex where
  "space = Chr is_js_space"

fun lit :: "string \<Rightarrow> regex" where
  "lit [] = Eps"
| "lit [c] = Chr (\<lambda>d. d = c)"
| "lit (c # cs) = Seq (Chr (\<lambda>d. d = c)) (lit cs)"

fun alts :: "regex list \<Rightarrow> regex" where
  "alts [] = Chr (\<lambda>_. False)"
| "alts [r] = r"
| "alts (r # rs) = Alt r (alts rs)"

fun seqs :: "regex list \<Rightarrow> regex" where
  "seqs [] = Eps"
| "seqs [r] = r"
| "seqs (r # rs) = Seq r (seqs rs)"

section \<open>Lemmas\<close>

lemma ends_range: "j \<in> set (ends r s i) \<Longrightarrow> i \<le> length s \<Longrightarrow> i \<le> j \<and> j \<le> length s"
proof (induction r arbitrary: i j)
  case (Many P)
  have "length (takeWhile P (drop i s)) \<le> length s - i" using length_takeWhile_le [of P "drop i s"] by simp
  then show ?case using Many by auto
next
  case (Seq a b)
  then obtain k where "k \<in> set (ends a s i)" "j \<in> set (ends b s k)" by auto
  then show ?case using Seq.IH(1) [of k i] Seq.IH(2) [of j k] Seq.prems(2) by auto
qed (auto split: if_splits)

lemma ends_lit:
  "ends (lit w) s i = (if take (length w) (drop i s) = w \<and> i + length w \<le> length s \<or> w = [] then [i + length w] else [])"
proof (induction w arbitrary: i rule: lit.induct)
  case (2 c)
  show ?case
  proof (cases "i < length s")
    case True
    then have "take 1 (drop i s) = [s ! i]" by (simp add: take_Suc Cons_nth_drop_Suc [symmetric])
    then show ?thesis using True by simp
  qed simp
next
  case (3 c d ds)
  show ?case
  proof (cases "i < length s")
    case True
    then have "drop i s = s ! i # drop (Suc i) s" by (simp add: Cons_nth_drop_Suc)
    then show ?thesis using True 3 by auto
  qed simp
qed simp

text \<open>A literal matches a string exactly when it occurs in it.\<close>

lemma regex_test_lit: "w \<noteq> [] \<Longrightarrow> regex_test (lit w) s \<longleftrightarrow> (\<exists>xs ys. s = xs @ w @ ys)"
proof
  assume w: "w \<noteq> []" and "regex_test (lit w) s"
  then obtain i where "take (length w) (drop i s) = w" "i + length w \<le> length s"
    by (auto simp: regex_test_def list_ex_iff ends_lit split: if_splits)
  then have "s = take i s @ w @ drop (length w) (drop i s)"
    using append_take_drop_id [of i s] append_take_drop_id [of "length w" "drop i s"] by simp
  then show "\<exists>xs ys. s = xs @ w @ ys" by blast
next
  assume "\<exists>xs ys. s = xs @ w @ ys"
  then obtain xs ys where s: "s = xs @ w @ ys" by blast
  then have "ends (lit w) s (length xs) \<noteq> []" by (simp add: ends_lit)
  then show "regex_test (lit w) s" using s by (force simp: regex_test_def list_ex_iff)
qed

lemma regex_test_one_of: "regex_test (one_of cs) s \<longleftrightarrow> (\<exists>c\<in>set cs. c \<in> set s)"
proof -
  have "regex_test (one_of cs) s \<longleftrightarrow> (\<exists>i<length s. s ! i \<in> set cs)"
    unfolding regex_test_def one_of_def list_ex_iff by (auto simp: less_Suc_eq)
  then show ?thesis by (metis in_set_conv_nth)
qed

end
