(* ===== verification/ProcessSchedule.thy ===== *)
theory ProcessSchedule
  imports Messages Regex
begin

text \<open>
  The schedule of a batch of tool calls: \<open>core/algebra/process-schedule.ts\<close>, the parser of simple
  shell commands it uses (\<open>core/trek-store/path-ops.ts\<close>) and the partition the session installs in
  the agent loop (\<open>_installAgentToolHooks\<close> in \<open>core/agent-session.ts\<close>). A batch is cut into
  groups; the calls of one group run in parallel and the groups one after another.
\<close>

section \<open>Simple shell commands\<close>

datatype parsed_path_op = PathDelete string | PathRename string string

definition UNSAFE :: regex where
  "UNSAFE = Alt (one_of ''|;&`$()<>'') (Alt (lit ''&&'') (lit ''||''))"

record tokenizer =
  tk_tokens :: "string list"
  tk_current :: string
  tk_quote :: "char option"

definition tokenize_char :: "char \<Rightarrow> tokenizer \<Rightarrow> tokenizer" where
  "tokenize_char ch t =
     (case tk_quote t of
        Some q \<Rightarrow> (if ch = q then t\<lparr>tk_quote := None\<rparr> else t\<lparr>tk_current := tk_current t @ [ch]\<rparr>)
      | None \<Rightarrow>
          (if ch = CHR 39 \<or> ch = CHR 34 then t\<lparr>tk_quote := Some ch\<rparr>
           else if is_js_space ch then
             (if tk_current t \<noteq> '''' then t\<lparr>tk_tokens := tk_tokens t @ [tk_current t], tk_current := ''''\<rparr> else t)
           else t\<lparr>tk_current := tk_current t @ [ch]\<rparr>))"

definition tokenize :: "string \<Rightarrow> string list" where
  "tokenize command =
     (let t = fold tokenize_char (js_trim command) \<lparr>tk_tokens = [], tk_current = '''', tk_quote = None\<rparr>
      in if tk_current t \<noteq> '''' then tk_tokens t @ [tk_current t] else tk_tokens t)"

definition parseBashPathOps :: "string \<Rightarrow> parsed_path_op list option" where
  "parseBashPathOps command =
     (let trimmed = js_trim command in
      if trimmed = '''' \<or> regex_test UNSAFE trimmed then None
      else case tokenize trimmed of
             [] \<Rightarrow> None
           | cmd # args \<Rightarrow>
               (let rest = filter (\<lambda>t. take 1 t \<noteq> ''-'') args
                in if cmd = ''rm'' \<or> cmd = ''unlink'' then
                     (if rest = [] then None else Some (map PathDelete rest))
                   else if cmd = ''mv'' then
                     (case rest of [a, b] \<Rightarrow> Some [PathRename a b] | _ \<Rightarrow> None)
                   else None))"

section \<open>Classifying calls\<close>

record scheduled_call =
  sc_id :: string
  sc_name :: string
  sc_args :: json
  sc_when :: "bool option"

definition READ_TOOLS :: "string list" where
  "READ_TOOLS = [''read'', ''grep'', ''find'', ''ls'']"

definition WRITE_TOOLS :: "string list" where
  "WRITE_TOOLS = [''edit'', ''write'']"

definition MUTATING_BASH :: regex where
  "MUTATING_BASH = alts
     [seqs [Alt Bol (Alt space (one_of '';&|'')),
        alts (map lit [''rm'', ''mv'', ''cp'', ''tee'', ''mkdir'', ''rmdir'', ''touch'', ''truncate'', ''unlink'', ''install'', ''ln'']),
        Boundary],
      seqs [Boundary, lit ''sed'', Boundary, Many (\<lambda>c. c \<noteq> CHR 10),
        Alt (seqs [space, lit ''-i'', Boundary]) (lit ''--in-place'')],
      one_of ''<>'']"

definition bashMutates :: "string \<Rightarrow> bool" where
  "bashMutates command = (regex_test MUTATING_BASH command \<or> parseBashPathOps command \<noteq> None)"

definition callPath :: "json \<Rightarrow> string option" where
  "callPath args =
     (case args of
        JObj kvs \<Rightarrow>
          (case js_prop kvs ''path'' of
             JStr p \<Rightarrow> (if p \<noteq> '''' then Some p
               else (case js_prop kvs ''file_path'' of JStr f \<Rightarrow> (if f \<noteq> '''' then Some f else None) | _ \<Rightarrow> None))
           | _ \<Rightarrow> (case js_prop kvs ''file_path'' of JStr f \<Rightarrow> (if f \<noteq> '''' then Some f else None) | _ \<Rightarrow> None))
      | _ \<Rightarrow> None)"

definition bashCommand :: "json \<Rightarrow> string option" where
  "bashCommand args =
     (case args of
        JObj kvs \<Rightarrow> (case js_prop kvs ''command'' of JStr c \<Rightarrow> Some c | _ \<Rightarrow> None)
      | _ \<Rightarrow> None)"

datatype call_class = ReadCall "string option" | WriteCall string | JoinCall | BarrierCall

definition classifyCall :: "scheduled_call \<Rightarrow> call_class" where
  "classifyCall c =
     (if sc_name c \<in> set READ_TOOLS then ReadCall (if sc_name c = ''read'' then callPath (sc_args c) else None)
      else if sc_name c \<in> set WRITE_TOOLS then
        WriteCall (case callPath (sc_args c) of Some p \<Rightarrow> p | None \<Rightarrow> sc_id c)
      else if sc_name c = ''bash'' then
        (if bashMutates (case bashCommand (sc_args c) of Some s \<Rightarrow> s | None \<Rightarrow> '''') then BarrierCall else JoinCall)
      else JoinCall)"

definition isMutation :: "scheduled_call \<Rightarrow> bool" where
  "isMutation c = (case classifyCall c of WriteCall _ \<Rightarrow> True | BarrierCall \<Rightarrow> True | _ \<Rightarrow> False)"

section \<open>Grouping\<close>

text \<open>\<open>open\<close> is the group under construction and \<open>written\<close> the paths its calls write.\<close>

record plan_state =
  ps_groups :: "scheduled_call list list"
  ps_open :: "scheduled_call list"
  ps_written :: "string list"

definition close_group :: "plan_state \<Rightarrow> plan_state" where
  "close_group p =
     (if ps_open p = [] then p
      else \<lparr>ps_groups = ps_groups p @ [ps_open p], ps_open = [], ps_written = []\<rparr>)"

definition plan_conflict :: "call_class \<Rightarrow> string list \<Rightarrow> bool" where
  "plan_conflict k written =
     (case k of
        WriteCall p \<Rightarrow> p \<in> set written
      | ReadCall (Some p) \<Rightarrow> p \<noteq> '''' \<and> p \<in> set written
      | _ \<Rightarrow> False)"

definition plan_step :: "scheduled_call \<Rightarrow> plan_state \<Rightarrow> plan_state" where
  "plan_step c p =
     (let k = classifyCall c in
      if k = BarrierCall then
        (let p1 = close_group p in p1\<lparr>ps_groups := ps_groups p1 @ [[c]]\<rparr>)
      else
        (let p1 = (if plan_conflict k (ps_written p) then close_group p else p)
         in p1\<lparr>ps_open := ps_open p1 @ [c],
               ps_written := (case k of WriteCall w \<Rightarrow> ps_written p1 @ [w] | _ \<Rightarrow> ps_written p1)\<rparr>))"

definition planToolGroups :: "scheduled_call list \<Rightarrow> scheduled_call list list" where
  "planToolGroups calls =
     ps_groups (close_group (fold plan_step calls \<lparr>ps_groups = [], ps_open = [], ps_written = []\<rparr>))"

text \<open>The hook \<open>partitionToolCalls\<close>: the groups, as the tool calls they came from.\<close>

definition to_scheduled :: "tool_call \<Rightarrow> scheduled_call" where
  "to_scheduled tc = \<lparr>sc_id = tc_id tc, sc_name = tc_name tc, sc_args = JObj (tc_arguments tc), sc_when = None\<rparr>"

definition partitionToolCalls :: "tool_call list \<Rightarrow> tool_call list list" where
  "partitionToolCalls toolCalls =
     map (\<lambda>grp. List.map_filter (\<lambda>c. map_of (rev (map (\<lambda>tc. (tc_id tc, tc)) toolCalls)) (sc_id c)) grp)
       (planToolGroups (map to_scheduled toolCalls))"

section \<open>The process tree\<close>

datatype schedule_pattern = PParallel | PSequence | PGuardedChoice | PInversion

fun pattern_name :: "schedule_pattern \<Rightarrow> string" where
  "pattern_name PParallel = ''parallel''"
| "pattern_name PSequence = ''sequence''"
| "pattern_name PGuardedChoice = ''guarded choice''"
| "pattern_name PInversion = ''inversion''"

datatype process_node = PNode (pn_pattern: schedule_pattern) (pn_seed: int) (pn_durationMs: nat)
  (pn_label: string) (pn_toolCallId: "string option") (pn_children: "process_node list")

definition callLabel :: "scheduled_call \<Rightarrow> string" where
  "callLabel c = (case callPath (sc_args c) of Some p \<Rightarrow> sc_name c @ '' '' @ p | None \<Rightarrow> sc_name c)"

definition leafNode :: "int \<Rightarrow> scheduled_call \<Rightarrow> process_node" where
  "leafNode seed c =
     PNode (if sc_when c \<noteq> None then PGuardedChoice else if isMutation c then PInversion else PParallel)
       seed 0 (callLabel c) (Some (sc_id c)) []"

definition groupNode :: "int \<Rightarrow> scheduled_call list \<Rightarrow> process_node" where
  "groupNode seed calls =
     (case map (leafNode seed) calls of
        [leaf] \<Rightarrow> leaf
      | leaves \<Rightarrow> PNode PParallel seed 0 '''' None leaves)"

definition buildProcessTree :: "scheduled_call list \<Rightarrow> int \<Rightarrow> process_node" where
  "buildProcessTree calls seed =
     (case map (groupNode seed) (planToolGroups calls) of
        [child] \<Rightarrow> child
      | children \<Rightarrow> PNode PSequence seed 0 '''' None children)"

definition composePromptTree :: "scheduled_call list list \<Rightarrow> int \<Rightarrow> process_node option" where
  "composePromptTree batches seed =
     (case map (\<lambda>b. buildProcessTree b seed) (filter (\<lambda>b. b \<noteq> []) batches) of
        [] \<Rightarrow> None
      | [node] \<Rightarrow> Some node
      | nodes \<Rightarrow> Some (PNode PSequence seed 0 '''' None nodes))"

fun rollupDurations :: "process_node \<Rightarrow> process_node" where
  "rollupDurations (PNode pat seed d label tc children) =
     (if children = [] then PNode pat seed d label tc children
      else
        let kids = map rollupDurations children;
            times = map pn_durationMs kids
        in PNode pat seed (if pat = PParallel then Max (set times) else sum_list times) label tc kids)"

fun format_lines :: "nat \<Rightarrow> process_node \<Rightarrow> string list" where
  "format_lines depth (PNode pat seed d label tc children) =
     (concat (replicate depth ''  '') @ pattern_name pat @ '' '' @ show_nat d @ ''ms seed '' @ show_int seed @
       (if label \<noteq> '''' then '' '' @ label else '''')) # concat (map (format_lines (Suc depth)) children)"

definition formatProcessTree :: "process_node option \<Rightarrow> string" where
  "formatProcessTree node =
     (case node of None \<Rightarrow> ''No process tree for this prompt.''
      | Some n \<Rightarrow> js_join newline (format_lines 0 n))"

text \<open>\<open>findLeaf\<close> returns the first node with the id; the callers update its duration in place.\<close>

fun set_leaf_duration :: "string \<Rightarrow> nat \<Rightarrow> process_node \<Rightarrow> process_node option"
  and set_leaf_durations :: "string \<Rightarrow> nat \<Rightarrow> process_node list \<Rightarrow> process_node list option" where
  "set_leaf_duration i t (PNode pat seed d label tc children) =
     (if tc = Some i then Some (PNode pat seed t label tc children)
      else map_option (PNode pat seed d label tc) (set_leaf_durations i t children))"
| "set_leaf_durations i t [] = None"
| "set_leaf_durations i t (n # ns) =
     (case set_leaf_duration i t n of
        Some n' \<Rightarrow> Some (n' # ns)
      | None \<Rightarrow> map_option ((#) n) (set_leaf_durations i t ns))"

definition noteToolDuration :: "string \<Rightarrow> nat \<Rightarrow> process_node \<Rightarrow> process_node" where
  "noteToolDuration toolCallId durationMs node =
     (case set_leaf_duration toolCallId durationMs node of
        None \<Rightarrow> node
      | Some n \<Rightarrow> rollupDurations n)"

section \<open>Guarded choice\<close>

text \<open>
  \<open>mulberry32\<close> over 32-bit words. JavaScript adds as a double and the next bit operation reduces
  modulo \<open>2 ^ 32\<close>, which is the wrapping sum. The result is a fraction of \<open>2 ^ 32\<close>, kept as its
  numerator; \<open>Math.floor(r * n)\<close> is then an integer division.
\<close>

definition mulberry32 :: "32 word \<Rightarrow> 32 word" where
  "mulberry32 seed =
     (let v = seed + 0x6d2b79f5;
          m = xor v (drop_bit 15 v) * or 1 v;
          m' = xor (m + xor m (drop_bit 7 m) * or 61 m) m
      in xor m' (drop_bit 14 m'))"

definition guardedChoice :: "32 word \<Rightarrow> (string \<times> bool \<times> 'a) list \<Rightarrow> (string \<times> 'a) option" where
  "guardedChoice seed branches =
     (let opened = map (\<lambda>(n, w, v). (n, v)) (filter (\<lambda>(n, w, v). w) branches) in
      case opened of
        [] \<Rightarrow> None
      | [b] \<Rightarrow> Some b
      | _ \<Rightarrow> js_at opened ((unat (mulberry32 seed) * length opened) div 2 ^ 32))"

section \<open>The groups partition the batch\<close>

text \<open>
  \<open>may_follow a b\<close>: \<open>b\<close> may run in the same group after \<open>a\<close>. A later call conflicts with
  an earlier write of the path it reads or writes.
\<close>

definition may_follow :: "scheduled_call \<Rightarrow> scheduled_call \<Rightarrow> bool" where
  "may_follow a b = (case classifyCall a of WriteCall p \<Rightarrow> \<not> plan_conflict (classifyCall b) [p] | _ \<Rightarrow> True)"

definition group_ok :: "scheduled_call list \<Rightarrow> bool" where
  "group_ok g = (g \<noteq> [] \<and> sorted_wrt may_follow g \<and> (\<forall>c\<in>set g. classifyCall c = BarrierCall \<longrightarrow> g = [c]))"

definition written_paths :: "scheduled_call list \<Rightarrow> string list" where
  "written_paths g = List.map_filter (\<lambda>c. case classifyCall c of WriteCall p \<Rightarrow> Some p | _ \<Rightarrow> None) g"

definition open_ok :: "scheduled_call list \<Rightarrow> bool" where
  "open_ok g = (sorted_wrt may_follow g \<and> (\<forall>c\<in>set g. classifyCall c \<noteq> BarrierCall))"

definition plan_inv :: "scheduled_call list \<Rightarrow> plan_state \<Rightarrow> bool" where
  "plan_inv calls p =
     (concat (ps_groups p) @ ps_open p = calls \<and> (\<forall>g\<in>set (ps_groups p). group_ok g) \<and>
      open_ok (ps_open p) \<and> ps_written p = written_paths (ps_open p))"

lemma open_ok_group: "open_ok g \<Longrightarrow> g \<noteq> [] \<Longrightarrow> group_ok g"
  by (auto simp: open_ok_def group_ok_def)

lemma close_group_inv [sched_simps]: "plan_inv calls p \<Longrightarrow> plan_inv calls (close_group p) \<and> ps_open (close_group p) = []"
  by (auto simp: close_group_def plan_inv_def written_paths_def open_ok_def map_filter_simps intro: open_ok_group [unfolded open_ok_def])

lemma may_follow_iff: "(\<forall>a\<in>set g. may_follow a b) \<longleftrightarrow> \<not> plan_conflict (classifyCall b) (written_paths g)"
  by (induction g)
    (auto simp: may_follow_def plan_conflict_def written_paths_def map_filter_simps
      split: call_class.splits option.splits)

lemma plan_step_inv: "plan_inv calls p \<Longrightarrow> plan_inv (calls @ [c]) (plan_step c p)"
proof (cases "classifyCall c = BarrierCall")
  case True
  assume "plan_inv calls p"
  then have "plan_inv calls (close_group p)" "ps_open (close_group p) = []" using close_group_inv by auto
  then show ?thesis using True by (auto simp: plan_step_def Let_def plan_inv_def group_ok_def)
next
  case False
  assume inv: "plan_inv calls p"
  define q where "q = (if plan_conflict (classifyCall c) (ps_written p) then close_group p else p)"
  have q: "plan_inv calls q" using inv close_group_inv by (simp add: q_def)
  have "\<not> plan_conflict (classifyCall c) (ps_written q)"
  proof (cases "plan_conflict (classifyCall c) (ps_written p)")
    case True
    then have "ps_open q = []" using close_group_inv [OF inv] by (simp add: q_def)
    then have "ps_written q = []" using q by (simp add: plan_inv_def written_paths_def map_filter_simps)
    then show ?thesis by (simp add: plan_conflict_def split: call_class.split option.split)
  qed (simp add: q_def)
  then have "\<forall>a\<in>set (ps_open q). may_follow a c" using q may_follow_iff by (simp add: plan_inv_def)
  then have "open_ok (ps_open q @ [c])" using q False by (simp add: plan_inv_def open_ok_def sorted_wrt_append)
  moreover have "written_paths (ps_open q @ [c]) =
      (case classifyCall c of WriteCall w \<Rightarrow> ps_written q @ [w] | _ \<Rightarrow> ps_written q)"
    using q by (simp add: plan_inv_def written_paths_def map_filter_append map_filter_simps split: call_class.split)
  ultimately show ?thesis
    using q False by (auto simp: plan_step_def Let_def plan_inv_def simp flip: q_def)
qed

lemma plan_fold_inv: "plan_inv pre p \<Longrightarrow> plan_inv (pre @ calls) (fold plan_step calls p)"
proof (induction calls arbitrary: pre p)
  case (Cons c calls)
  then show ?case using plan_step_inv [of pre p c] Cons.IH [of "pre @ [c]" "plan_step c p"] by simp
qed simp

lemma planToolGroups_inv:
  "concat (planToolGroups calls) = calls \<and> (\<forall>g\<in>set (planToolGroups calls). group_ok g)"
proof -
  let ?p0 = "\<lparr>ps_groups = [], ps_open = [], ps_written = []\<rparr>"
  have "plan_inv [] ?p0" by (simp add: plan_inv_def open_ok_def written_paths_def map_filter_simps)
  then have "plan_inv calls (fold plan_step calls ?p0)" using plan_fold_inv [of "[]" ?p0 calls] by simp
  then have "plan_inv calls (close_group (fold plan_step calls ?p0))"
    "ps_open (close_group (fold plan_step calls ?p0)) = []" using close_group_inv by blast+
  then show ?thesis unfolding planToolGroups_def plan_inv_def by auto
qed

text \<open>
  The groups are a partition of the batch into consecutive, non-empty runs: put one after another
  they are the batch, so that no call is lost, repeated or reordered.
\<close>

theorem planToolGroups_partition:
  "concat (planToolGroups calls) = calls \<and> [] \<notin> set (planToolGroups calls)"
  using planToolGroups_inv [of calls] by (auto simp: group_ok_def)


definition demo_batch :: "scheduled_call list" where
  "demo_batch =
     [\<lparr>sc_id = ''1'', sc_name = ''write'', sc_args = JObj [(''path'', JStr ''f'')], sc_when = None\<rparr>,
      \<lparr>sc_id = ''2'', sc_name = ''read'', sc_args = JObj [(''path'', JStr ''g'')], sc_when = None\<rparr>,
      \<lparr>sc_id = ''3'', sc_name = ''read'', sc_args = JObj [(''path'', JStr ''f'')], sc_when = None\<rparr>]"

lemma demo_batch_groups: "planToolGroups demo_batch = [take 2 demo_batch, drop 2 demo_batch]"
  by code_simp


section \<open>The partition the agent loop relies on\<close>

text \<open>
  What the loop needs of the hook \<open>partitionToolCalls\<close>: over calls with distinct ids the groups are
  non-empty and are the calls, in order.
\<close>

locale call_partition =
  fixes partition :: "tool_call list \<Rightarrow> tool_call list list"
  assumes partition_concat: "distinct (map tc_id cs) \<Longrightarrow> concat (partition cs) = cs"
    and partition_nonempty: "distinct (map tc_id cs) \<Longrightarrow> [] \<notin> set (partition cs)"
begin

lemma partition_Nil: "partition [] = []"
proof (rule ccontr)
  assume "partition [] \<noteq> []"
  then obtain g gs where "partition [] = g # gs" by (meson neq_Nil_conv)
  then show False using partition_concat [of "[]"] partition_nonempty [of "[]"] by auto
qed

lemma partition_members:
  assumes "distinct (map tc_id cs)" and "g \<in> set (partition cs)" and "c \<in> set g"
  shows "c \<in> set cs"
proof -
  have "c \<in> set (concat (partition cs))" using assms(2,3) by auto
  then show ?thesis using partition_concat [OF assms(1)] by simp
qed

lemma partition_length:
  assumes "distinct (map tc_id cs)"
  shows "length (partition cs) \<le> length cs"
proof -
  have "length gs \<le> length (concat gs)" if "[] \<notin> set gs" for gs :: "tool_call list list"
    using that by (induction gs) (auto simp: Suc_le_eq add_strict_increasing)
  then show ?thesis using partition_concat [OF assms] partition_nonempty [OF assms] by fastforce
qed

end

lemma partitionToolCalls_groups:
  assumes "distinct (map tc_id cs)"
  shows "map (map to_scheduled) (partitionToolCalls cs) = planToolGroups (map to_scheduled cs)"
proof -
  let ?m = "map_of (rev (map (\<lambda>tc. (tc_id tc, tc)) cs))"
  have "distinct (map fst (rev (map (\<lambda>tc. (tc_id tc, tc)) cs)))"
    using assms by (simp add: comp_def flip: rev_map)
  from map_of_eq_Some_iff [OF this] have look: "?m (tc_id tc) = Some tc" if "tc \<in> set cs" for tc
    using that by auto
  have restore: "map to_scheduled (List.map_filter (\<lambda>c. ?m (sc_id c)) g) = g" if "set g \<subseteq> to_scheduled ` set cs" for g
    using that by (induction g) (auto simp: map_filter_simps look to_scheduled_def)
  have "set g \<subseteq> to_scheduled ` set cs" if "g \<in> set (planToolGroups (map to_scheduled cs))" for g
  proof -
    have "set (concat (planToolGroups (map to_scheduled cs))) = to_scheduled ` set cs"
      using planToolGroups_inv by simp
    then show ?thesis using that by auto
  qed
  then show ?thesis using restore by (auto simp: partitionToolCalls_def comp_def intro: map_idI)
qed

lemma inj_on_to_scheduled: "distinct (map tc_id cs) \<Longrightarrow> inj_on to_scheduled (set cs)"
  by (auto simp: inj_on_def to_scheduled_def distinct_map)

lemma partitionToolCalls_concat:
  assumes "distinct (map tc_id cs)"
  shows "concat (partitionToolCalls cs) = cs"
proof -
  have "map to_scheduled (concat (partitionToolCalls cs)) = map to_scheduled cs"
    using partitionToolCalls_groups [OF assms] planToolGroups_inv [of "map to_scheduled cs"] by (simp add: map_concat)
  moreover have "set (concat (partitionToolCalls cs)) \<subseteq> set cs"
  proof -
    have "tc \<in> set cs" if "map_of (rev (map (\<lambda>tc. (tc_id tc, tc)) cs)) i = Some tc" for i tc
      using map_of_SomeD [OF that] by auto
    then show ?thesis by (auto simp: partitionToolCalls_def map_filter_def)
  qed
  ultimately show ?thesis
    using inj_on_to_scheduled [OF assms] by (metis inj_on_subset map_inj_on sup.idem sup.orderE Un_absorb1)
qed

interpretation session_partition: call_partition partitionToolCalls
proof unfold_locales
  fix cs :: "tool_call list" assume d: "distinct (map tc_id cs)"
  show "concat (partitionToolCalls cs) = cs" by (rule partitionToolCalls_concat [OF d])
  show "[] \<notin> set (partitionToolCalls cs)"
    using arg_cong [OF partitionToolCalls_groups [OF d], of set] planToolGroups_inv [of "map to_scheduled cs"]
    by (force simp: group_ok_def)
qed

section \<open>The tree and the choice\<close>

fun leaf_ids :: "process_node \<Rightarrow> string list" where
  "leaf_ids (PNode pat seed d label tc children) =
     (case tc of Some i \<Rightarrow> [i] | None \<Rightarrow> concat (map leaf_ids children))"

fun leaf_times :: "process_node \<Rightarrow> nat list" where
  "leaf_times (PNode pat seed d label tc children) =
     (if children = [] then [d] else concat (map leaf_times children))"

lemma leaf_ids_leafNode [simp]: "leaf_ids (leafNode seed c) = [sc_id c]"
  by (simp add: leafNode_def)

lemma leaf_ids_groupNode: "leaf_ids (groupNode seed g) = map sc_id g"
proof -
  have "concat (map (\<lambda>c. [sc_id c]) g) = map sc_id g" by (induction g) auto
  then show ?thesis by (cases "map (leafNode seed) g" rule: remdups_adj.cases)
    (auto simp: groupNode_def comp_def map_eq_Cons_conv split: list.split)
qed

lemma leaf_ids_buildProcessTree: "leaf_ids (buildProcessTree calls seed) = map sc_id calls"
proof -
  have "concat (map (\<lambda>g. map sc_id g) (planToolGroups calls)) = map sc_id calls"
    using planToolGroups_inv [of calls] by (metis map_concat)
  moreover have "leaf_ids (buildProcessTree calls seed) = concat (map (\<lambda>g. map sc_id g) (planToolGroups calls))"
    by (auto simp: buildProcessTree_def leaf_ids_groupNode comp_def map_eq_Cons_conv split: list.split)
  ultimately show ?thesis by simp
qed

lemma set_leaf_duration_ids:
  "set_leaf_duration i t n = Some n' \<Longrightarrow> leaf_ids n' = leaf_ids n"
  "set_leaf_durations i t ns = Some ns' \<Longrightarrow> map leaf_ids ns' = map leaf_ids ns"
  by (induction i t n and i t ns arbitrary: n' and ns' rule: set_leaf_duration_set_leaf_durations.induct)
    (auto split: if_splits option.splits)

lemma rollup_leaf_ids: "leaf_ids (rollupDurations n) = leaf_ids n"
proof (induction n rule: rollupDurations.induct)
  case (1 pat seed d label tc children)
  have "map (leaf_ids \<circ> rollupDurations) children = map leaf_ids children"
    using 1 by (cases "children = []") auto
  then have "concat (map (leaf_ids \<circ> rollupDurations) children) = concat (map leaf_ids children)"
    by (rule arg_cong)
  then show ?case by (simp add: Let_def split: option.split)
qed

text \<open>
  The process tree shows every call of the batch exactly once, in the order the model made them, and
  timing a call later keeps it so.
\<close>

theorem process_tree_leaves:
  "leaf_ids (buildProcessTree calls seed) = map sc_id calls \<and>
   leaf_ids (noteToolDuration i t (buildProcessTree calls seed)) = map sc_id calls"
proof -
  have "leaf_ids (noteToolDuration i t n) = leaf_ids n" for n
    using set_leaf_duration_ids(1) rollup_leaf_ids by (auto simp: noteToolDuration_def split: option.split)
  then show ?thesis by (simp add: leaf_ids_buildProcessTree)
qed

lemma rollup_duration_bounds:
  "pn_durationMs (rollupDurations n) \<le> sum_list (leaf_times n) \<and>
   (\<forall>t\<in>set (leaf_times n). t \<le> pn_durationMs (rollupDurations n))"
proof (induction n rule: rollupDurations.induct)
  case (1 pat seed d label tc children)
  show ?case
  proof (cases "children = []")
    case False
    let ?times = "map (pn_durationMs \<circ> rollupDurations) children"
    have ub: "pn_durationMs (rollupDurations c) \<le> sum_list (leaf_times c)"
      and lb: "\<forall>t\<in>set (leaf_times c). t \<le> pn_durationMs (rollupDurations c)" if "c \<in> set children" for c
      using "1.IH" [OF False that] by auto
    have sums: "sum_list ?times \<le> sum_list (concat (map leaf_times children))"
      using ub by (induction children) (auto intro: add_mono)
    have mem: "x \<le> sum_list xs" if "x \<in> set xs" for x :: nat and xs using that member_le_sum_list by blast
    have max: "Max (set ?times) \<le> sum_list ?times" using False mem by (intro Max.boundedI) auto
    have "t \<le> Max (set ?times) \<and> t \<le> sum_list ?times" if "t \<in> set (concat (map leaf_times children))" for t
    proof -
      from that obtain c where "c \<in> set children" "t \<in> set (leaf_times c)" by auto
      then have c: "c \<in> set children" "t \<le> pn_durationMs (rollupDurations c)" using lb by auto
      then have "pn_durationMs (rollupDurations c) \<in> set ?times" by simp
      then show ?thesis using c(2) mem Max_ge [of "set ?times"] by (meson List.finite_set le_trans)
    qed
    then show ?thesis using False sums max by (auto simp: Let_def comp_def)
  qed simp
qed

text \<open>
  The duration rolled up to the root lies between the longest single call and the sum of all calls:
  parallel groups count their slowest member, sequences add up.
\<close>

theorem rollup_between_longest_and_sum:
  "pn_durationMs (rollupDurations n) \<le> sum_list (leaf_times n) \<and>
   Max (set (leaf_times n)) \<le> pn_durationMs (rollupDurations n)"
proof -
  have "leaf_times n \<noteq> []"
  proof (induction n rule: leaf_times.induct)
    case (1 pat seed d label tc children)
    then show ?case by (cases children) auto
  qed
  then show ?thesis using rollup_duration_bounds [of n] by simp
qed

text \<open>
  A guarded choice takes an open branch whenever there is one, and never one whose guard is false; the
  index computed from the 32-bit generator is always in range.
\<close>

theorem guardedChoice_open_branch:
  "(guardedChoice seed bs = None \<longleftrightarrow> (\<forall>(n, w, v)\<in>set bs. \<not> w)) \<and>
   (\<forall>n v. guardedChoice seed bs = Some (n, v) \<longrightarrow> (n, True, v) \<in> set bs)"
proof -
  define opened where "opened = map (\<lambda>(n, w, v). (n, v)) (filter (\<lambda>(n, w, v). w) bs)"
  have mem: "(n, v) \<in> set opened \<Longrightarrow> (n, True, v) \<in> set bs" for n v by (auto simp: opened_def)
  have empty: "opened = [] \<longleftrightarrow> (\<forall>(n, w, v)\<in>set bs. \<not> w)" by (auto simp: opened_def filter_empty_conv)
  let ?i = "(unat (mulberry32 seed) * length opened) div 2 ^ 32"
  have range: "?i < length opened" if "opened \<noteq> []"
  proof -
    have "unat (mulberry32 seed) < 2 ^ 32" using unsigned_less [of "mulberry32 seed"] by simp
    then have "unat (mulberry32 seed) * length opened < 2 ^ 32 * length opened" using that by simp
    then show ?thesis using less_mult_imp_div_less by (metis mult.commute)
  qed
  have "guardedChoice seed bs = (case opened of [] \<Rightarrow> None | [b] \<Rightarrow> Some b | _ \<Rightarrow> js_at opened ?i)"
    unfolding guardedChoice_def Let_def opened_def [symmetric] ..
  then have eq: "guardedChoice seed bs = (if opened = [] then None else Some (opened ! (if length opened = 1 then 0 else ?i)))"
    using range by (auto simp: js_at_def split: list.split)
  have "opened ! (if length opened = 1 then 0 else ?i) \<in> set opened" if "opened \<noteq> []"
    using that range by (auto intro: nth_mem)
  moreover have "(n, True, v) \<in> set bs" if "guardedChoice seed bs = Some (n, v)" for n v
    using that eq calculation mem by (metis option.discI option.inject)
  ultimately show ?thesis using eq empty by simp
qed

theorem guardedChoice_open_branch_witness:
  "guardedChoice 7 [(''a'', True, 1::nat), (''b'', False, 2), (''c'', True, 3)] \<noteq> None"
  using guardedChoice_open_branch [of 7 "[(''a'', True, 1::nat), (''b'', False, 2), (''c'', True, 3)]"] by simp

end
