(* ===== verification/AgentLoop.thy ===== *)
theory AgentLoop
  imports Effects ProcessSchedule "HOL-Library.Multiset"
begin

text \<open>
  The agent loop of \<open>packages/agent/src/agent-loop.ts\<close> with the types of
  \<open>packages/agent/src/types.ts\<close>: a run asks the model for a reply, executes the tool calls of the
  reply, one by one or interleaved, and goes on until no call, steering message or follow-up is left.

  The model provider, the schema validator, the tools and the hooks are not part of the loop: they
  are fields of the records below. A provider stream and a running tool are well-founded trees of
  steps, between which anything may happen to the world; the loop itself may go on forever.
  Arrays the code updates in place (\<open>context.messages\<close>, \<open>newMessages\<close>) are values that the
  functions return updated.
\<close>

section \<open>Tools, contexts and hooks\<close>

datatype execution_mode = Sequential | Parallel

datatype thinking_level = LevelOff | LevelMinimal | LevelLow | LevelMedium | LevelHigh | LevelXhigh

text \<open>
  A call of \<open>tool.execute\<close>: it works on the world, reports partial results through the callback
  \<open>onUpdate\<close> and ends with a result or by throwing.
\<close>

datatype 'w tool_proc =
    TDone "string + agent_tool_result"
  | TUpdate agent_tool_result "'w tool_proc"
  | TWork "'w \<Rightarrow> 'w" "'w \<Rightarrow> 'w tool_proc"

type_synonym tool_args = "(string \<times> json) list"

record 'w agent_tool =
  tool_name :: string
  tool_label :: string
  tool_description :: string
  tool_parameters :: json
  tool_executionMode :: "execution_mode option"
  tool_prepareArguments :: "(tool_args \<Rightarrow> string + tool_args) option"
  tool_execute :: "string \<Rightarrow> json \<Rightarrow> 'w tool_proc"

record 'w agent_context =
  ac_systemPrompt :: string
  ac_messages :: "agent_message list"
  ac_tools :: "'w agent_tool list option"

text \<open>\<open>md_extra\<close> holds the optional fields of a model that no modelled code reads.\<close>

record model_cost =
  mc_input :: rat
  mc_output :: rat
  mc_cacheRead :: rat
  mc_cacheWrite :: rat

record llm_model =
  md_id :: string
  md_name :: string
  md_api :: string
  md_provider :: string
  md_baseUrl :: string
  md_reasoning :: bool
  md_input :: "string list"
  md_cost :: model_cost
  md_contextWindow :: nat
  md_maxTokens :: nat
  md_extra :: json

record before_tool_call_result =
  bt_block :: bool
  bt_reason :: "string option"
  bt_isError :: "bool option"
  bt_terminate :: "bool option"

record after_tool_call_result =
  at_content :: "part list option"
  at_details :: json
  at_isError :: "bool option"
  at_terminate :: "bool option"

record 'w before_tool_call_context =
  bc_assistantMessage :: assistant_message
  bc_toolCall :: tool_call
  bc_args :: json
  bc_context :: "'w agent_context"

record 'w after_tool_call_context =
  af_assistantMessage :: assistant_message
  af_toolCall :: tool_call
  af_args :: json
  af_result :: agent_tool_result
  af_isError :: bool
  af_context :: "'w agent_context"

record 'w turn_context =
  tn_message :: assistant_message
  tn_toolResults :: "tool_result_message list"
  tn_context :: "'w agent_context"
  tn_newMessages :: "agent_message list"

record 'w turn_update =
  tu_context :: "'w agent_context option"
  tu_model :: "llm_model option"
  tu_thinkingLevel :: "thinking_level option"

text \<open>
  \<open>cfg_options\<close> holds the provider options the loop only passes on (session id, transport,
  sampling parameters).
\<close>

record 'w agent_loop_config =
  cfg_model :: llm_model
  cfg_reasoning :: "thinking_level option"
  cfg_apiKey :: "string option"
  cfg_options :: json
  cfg_convertToLlm :: "agent_message list \<Rightarrow> ('w, agent_message list) hook"
  cfg_transformContext :: "(agent_message list \<Rightarrow> ('w, agent_message list) hook) option"
  cfg_getApiKey :: "(string \<Rightarrow> ('w, string option) hook) option"
  cfg_shouldStopAfterTurn :: "('w turn_context \<Rightarrow> ('w, bool) hook) option"
  cfg_prepareNextTurn :: "('w turn_context \<Rightarrow> ('w, 'w turn_update option) hook) option"
  cfg_getSteeringMessages :: "('w, agent_message list) hook option"
  cfg_getFollowUpMessages :: "('w, agent_message list) hook option"
  cfg_toolExecution :: "execution_mode option"
  cfg_partitionToolCalls :: "(tool_call list \<Rightarrow> ('w, tool_call list list) hook) option"
  cfg_recordToolCalls :: "(tool_call list \<Rightarrow> ('w, unit) hook) option"
  cfg_beforeToolCall :: "('w before_tool_call_context \<Rightarrow> ('w, before_tool_call_result option) hook) option"
  cfg_afterToolCall :: "('w after_tool_call_context \<Rightarrow> ('w, after_tool_call_result option) hook) option"

text \<open>The reply of a provider: the events of the stream and \<open>response.result()\<close>.\<close>

datatype 'w reply_events =
    REnd
  | RThrow string
  | REvent assistant_event "'w reply_events"
  | RWork "'w \<Rightarrow> 'w" "'w \<Rightarrow> 'w reply_events"

record 'w response =
  rs_events :: "'w reply_events"
  rs_result :: "('w, assistant_message) hook"

record 'w llm_context =
  lc_systemPrompt :: string
  lc_messages :: "agent_message list"
  lc_tools :: "'w agent_tool list option"

text \<open>
  What the loop is given beside its configuration: the event sink, the abort signal, the clock, the
  stream function, the schema validation of arguments, and the order in which the runtime resumes
  concurrent calls (\<open>env_pick\<close> chooses among the ones that can run).
\<close>

record 'w loop_env =
  env_emit :: "agent_event \<Rightarrow> ('w, unit) hook"
  env_aborted :: "'w \<Rightarrow> bool"
  env_now :: "'w \<Rightarrow> int"
  env_streamFn :: "llm_model \<Rightarrow> 'w llm_context \<Rightarrow> 'w agent_loop_config \<Rightarrow> ('w, 'w response) hook"
  env_validate :: "'w agent_tool \<Rightarrow> tool_call \<Rightarrow> string + json"
  env_pick :: "nat \<Rightarrow> 'w \<Rightarrow> nat"

section \<open>One tool call\<close>

record 'w prepared_tool_call =
  pr_toolCall :: tool_call
  pr_tool :: "'w agent_tool"
  pr_args :: json

datatype 'w preparation = Prepared "'w prepared_tool_call" | Immediate agent_tool_result bool

type_synonym executed_outcome = "agent_tool_result \<times> bool"

record finalized_outcome =
  fo_toolCall :: tool_call
  fo_result :: agent_tool_result
  fo_isError :: bool

definition createErrorToolResult :: "string \<Rightarrow> agent_tool_result" where
  "createErrorToolResult message =
     \<lparr>atr_content = [TextPart message None], atr_details = JObj [], atr_terminate = None\<rparr>"

definition shouldTerminateToolBatch :: "finalized_outcome list \<Rightarrow> bool" where
  "shouldTerminateToolBatch finalizedCalls =
     (length finalizedCalls > 0 \<and> list_all (\<lambda>f. atr_terminate (fo_result f) = Some True) finalizedCalls)"

definition find_tool :: "'w agent_context \<Rightarrow> string \<Rightarrow> 'w agent_tool option" where
  "find_tool ctx name =
     (case ac_tools ctx of None \<Rightarrow> None | Some tools \<Rightarrow> find (\<lambda>t. tool_name t = name) tools)"

definition prepareToolCallArguments :: "'w agent_tool \<Rightarrow> tool_call \<Rightarrow> string + tool_call" where
  "prepareToolCallArguments tool toolCall =
     (case tool_prepareArguments tool of
        None \<Rightarrow> Inr toolCall
      | Some prepare \<Rightarrow>
          (case prepare (tc_arguments toolCall) of
             Inl e \<Rightarrow> Inl e
           | Inr preparedArguments \<Rightarrow>
               (if preparedArguments = tc_arguments toolCall then Inr toolCall
                else Inr (toolCall\<lparr>tc_arguments := preparedArguments\<rparr>))))"

definition operation_aborted :: "'w preparation" where
  "operation_aborted = Immediate (createErrorToolResult ''Operation aborted'') True"

definition check_abort :: "'w loop_env \<Rightarrow> ('w, 'w preparation) eff \<Rightarrow> ('w, 'w preparation) eff" where
  "check_abort env next =
     bindE (askE (env_aborted env)) (\<lambda>ab. if ab then returnE operation_aborted else next)"

definition blocked_outcome :: "before_tool_call_result \<Rightarrow> 'w preparation" where
  "blocked_outcome b =
     Immediate
       ((createErrorToolResult
           (case bt_reason b of
              Some r \<Rightarrow> (if r \<noteq> '''' then r else ''Tool execution was blocked'')
            | None \<Rightarrow> ''Tool execution was blocked''))\<lparr>atr_terminate := bt_terminate b\<rparr>)
       (case bt_isError b of Some e \<Rightarrow> e | None \<Rightarrow> True)"

definition prepareToolCall ::
  "'w loop_env \<Rightarrow> 'w agent_context \<Rightarrow> assistant_message \<Rightarrow> tool_call \<Rightarrow> 'w agent_loop_config \<Rightarrow>
   ('w, 'w preparation) eff" where
  "prepareToolCall env ctx am toolCall cfg =
     (case find_tool ctx (tc_name toolCall) of
        None \<Rightarrow>
          returnE (Immediate (createErrorToolResult (''Tool '' @ tc_name toolCall @ '' not found'')) True)
      | Some tool \<Rightarrow>
          catchE
            (bindE (liftE (prepareToolCallArguments tool toolCall)) (\<lambda>preparedToolCall.
             bindE (liftE (env_validate env tool preparedToolCall)) (\<lambda>validatedArgs.
             let prepared =
               check_abort env
                 (returnE (Prepared \<lparr>pr_toolCall = toolCall, pr_tool = tool, pr_args = validatedArgs\<rparr>))
             in case cfg_beforeToolCall cfg of
                  None \<Rightarrow> prepared
                | Some before_hook \<Rightarrow>
                    bindE (callE (before_hook \<lparr>bc_assistantMessage = am, bc_toolCall = toolCall,
                        bc_args = validatedArgs, bc_context = ctx\<rparr>)) (\<lambda>beforeResult.
                    check_abort env
                      (case beforeResult of
                         None \<Rightarrow> prepared
                       | Some b \<Rightarrow> (if bt_block b then returnE (blocked_outcome b) else prepared))))))
            (\<lambda>e. returnE (Immediate (createErrorToolResult e) True)))"

definition tool_outcome :: "string + agent_tool_result \<Rightarrow> executed_outcome" where
  "tool_outcome r =
     (case r of Inl e \<Rightarrow> (createErrorToolResult e, True) | Inr result \<Rightarrow> (result, False))"

text \<open>
  The callback does not wait for the sink: a failed update is kept in \<open>updateEvents\<close> and makes the
  call fail when the tool has ended, in both branches of the \<open>try\<close>.
\<close>

definition emit_update ::
  "'w loop_env \<Rightarrow> 'w prepared_tool_call \<Rightarrow> string option \<Rightarrow> agent_tool_result \<Rightarrow> ('w, string option) eff" where
  "emit_update env p failed r =
     catchE
       (bindE (emitE (env_emit env)
           (ToolExecutionUpdate (tc_id (pr_toolCall p)) (tc_name (pr_toolCall p)) (tc_arguments (pr_toolCall p)) r))
         (\<lambda>_. returnE failed))
       (\<lambda>e. returnE (case failed of None \<Rightarrow> Some e | Some f \<Rightarrow> Some f))"

definition await_updates :: "string option \<Rightarrow> 'a \<Rightarrow> ('w, 'a) eff" where
  "await_updates failed a = (case failed of None \<Rightarrow> returnE a | Some e \<Rightarrow> throwE e)"

primrec run_tool ::
  "'w tool_proc \<Rightarrow> 'w loop_env \<Rightarrow> 'w prepared_tool_call \<Rightarrow> string option \<Rightarrow> ('w, executed_outcome) eff" where
  "run_tool (TDone r) env p failed = await_updates failed (tool_outcome r)"
| "run_tool (TUpdate r q) env p failed = bindE (emit_update env p failed r) (run_tool q env p)"
| "run_tool (TWork f k) env p failed = (\<lambda>s. run_tool (k (f (fst s))) env p failed (f (fst s), snd s))"

definition executePreparedToolCall ::
  "'w loop_env \<Rightarrow> 'w prepared_tool_call \<Rightarrow> ('w, executed_outcome) eff" where
  "executePreparedToolCall env p =
     run_tool (tool_execute (pr_tool p) (tc_id (pr_toolCall p)) (pr_args p)) env p None"

definition override_result :: "after_tool_call_result \<Rightarrow> agent_tool_result \<Rightarrow> agent_tool_result" where
  "override_result a result =
     \<lparr>atr_content = (case at_content a of Some c \<Rightarrow> c | None \<Rightarrow> atr_content result),
      atr_details =
        (if at_details a = JUndefined \<or> at_details a = JNull then atr_details result else at_details a),
      atr_terminate = (case at_terminate a of Some t \<Rightarrow> Some t | None \<Rightarrow> atr_terminate result)\<rparr>"

definition finalizeExecutedToolCall ::
  "'w agent_context \<Rightarrow> assistant_message \<Rightarrow> 'w prepared_tool_call \<Rightarrow> executed_outcome \<Rightarrow>
   'w agent_loop_config \<Rightarrow> ('w, finalized_outcome) eff" where
  "finalizeExecutedToolCall ctx am p executed cfg =
     (let (result, isError) = executed;
          finalized = (\<lambda>(r, e). \<lparr>fo_toolCall = pr_toolCall p, fo_result = r, fo_isError = e\<rparr>)
      in case cfg_afterToolCall cfg of
           None \<Rightarrow> returnE (finalized (result, isError))
         | Some after_hook \<Rightarrow>
             catchE
               (bindE (callE (after_hook \<lparr>af_assistantMessage = am, af_toolCall = pr_toolCall p,
                   af_args = pr_args p, af_result = result, af_isError = isError, af_context = ctx\<rparr>))
                 (\<lambda>afterResult. returnE (finalized
                    (case afterResult of
                       None \<Rightarrow> (result, isError)
                     | Some a \<Rightarrow>
                         (override_result a result,
                          case at_isError a of Some b \<Rightarrow> b | None \<Rightarrow> isError)))))
               (\<lambda>e. returnE (finalized (createErrorToolResult e, True))))"

definition emitToolExecutionEnd :: "'w loop_env \<Rightarrow> finalized_outcome \<Rightarrow> ('w, unit) eff" where
  "emitToolExecutionEnd env f =
     emitE (env_emit env)
       (ToolExecutionEnd (tc_id (fo_toolCall f)) (tc_name (fo_toolCall f)) (fo_result f) (fo_isError f))"

definition createToolResultMessage :: "int \<Rightarrow> finalized_outcome \<Rightarrow> tool_result_message" where
  "createToolResultMessage ts f =
     \<lparr>tr_toolCallId = tc_id (fo_toolCall f), tr_toolName = tc_name (fo_toolCall f),
      tr_content = atr_content (fo_result f), tr_details = atr_details (fo_result f),
      tr_isError = fo_isError f, tr_timestamp = ts\<rparr>"

definition emitToolResultMessage :: "'w loop_env \<Rightarrow> tool_result_message \<Rightarrow> ('w, unit) eff" where
  "emitToolResultMessage env m =
     bindE (emitE (env_emit env) (MessageStart (ToolResultMsg m)))
       (\<lambda>_. emitE (env_emit env) (MessageEnd (ToolResultMsg m)))"

definition emit_tool_start :: "'w loop_env \<Rightarrow> tool_call \<Rightarrow> ('w, unit) eff" where
  "emit_tool_start env tc =
     emitE (env_emit env) (ToolExecutionStart (tc_id tc) (tc_name tc) (tc_arguments tc))"


section \<open>A batch of tool calls\<close>

record tool_batch =
  tb_messages :: "tool_result_message list"
  tb_terminate :: bool

definition settle_call ::
  "'w loop_env \<Rightarrow> 'w agent_context \<Rightarrow> assistant_message \<Rightarrow> 'w agent_loop_config \<Rightarrow> tool_call \<Rightarrow>
   'w preparation \<Rightarrow> ('w, finalized_outcome) eff" where
  "settle_call env ctx am cfg toolCall preparation =
     (case preparation of
        Immediate result isError \<Rightarrow>
          returnE \<lparr>fo_toolCall = toolCall, fo_result = result, fo_isError = isError\<rparr>
      | Prepared p \<Rightarrow>
          bindE (executePreparedToolCall env p) (\<lambda>executed.
          finalizeExecutedToolCall ctx am p executed cfg))"

definition publish_result :: "'w loop_env \<Rightarrow> finalized_outcome \<Rightarrow> ('w, tool_result_message) eff" where
  "publish_result env finalized =
     bindE (askE (env_now env)) (\<lambda>ts.
     let toolResultMessage = createToolResultMessage ts finalized
     in bindE (emitToolResultMessage env toolResultMessage) (\<lambda>_. returnE toolResultMessage))"

primrec sequential_loop ::
  "'w loop_env \<Rightarrow> 'w agent_context \<Rightarrow> assistant_message \<Rightarrow> 'w agent_loop_config \<Rightarrow> tool_call list \<Rightarrow>
   finalized_outcome list \<Rightarrow> tool_result_message list \<Rightarrow>
   ('w, finalized_outcome list \<times> tool_result_message list) eff" where
  "sequential_loop env ctx am cfg [] finalizedCalls messages = returnE (finalizedCalls, messages)"
| "sequential_loop env ctx am cfg (toolCall # toolCalls) finalizedCalls messages =
     bindE (emit_tool_start env toolCall) (\<lambda>_.
     bindE (prepareToolCall env ctx am toolCall cfg) (\<lambda>preparation.
     bindE (settle_call env ctx am cfg toolCall preparation) (\<lambda>finalized.
     bindE (emitToolExecutionEnd env finalized) (\<lambda>_.
     bindE (publish_result env finalized) (\<lambda>toolResultMessage.
     bindE (askE (env_aborted env)) (\<lambda>ab.
       if ab then returnE (finalizedCalls @ [finalized], messages @ [toolResultMessage])
       else sequential_loop env ctx am cfg toolCalls
              (finalizedCalls @ [finalized]) (messages @ [toolResultMessage])))))))"

definition executeToolCallsSequential ::
  "'w loop_env \<Rightarrow> 'w agent_context \<Rightarrow> assistant_message \<Rightarrow> tool_call list \<Rightarrow> 'w agent_loop_config \<Rightarrow>
   ('w, tool_batch) eff" where
  "executeToolCallsSequential env ctx am toolCalls cfg =
     bindE (sequential_loop env ctx am cfg toolCalls [] []) (\<lambda>(finalizedCalls, messages).
     returnE \<lparr>tb_messages = messages, tb_terminate = shouldTerminateToolBatch finalizedCalls\<rparr>)"

text \<open>
  The entries of \<open>finalizedCalls\<close> in a parallel batch. Each is at one of the points where the
  \<open>async\<close> function of the entry can be suspended: in the tool, before \<open>afterToolCall\<close>, before the
  end event, done. One step takes an entry to its next point; a call that throws makes
  \<open>Promise.all\<close>, and so the batch, fail at that step.
\<close>

datatype 'w entry_state =
    Running "'w prepared_tool_call" "'w tool_proc" "string option"
  | Executed "'w prepared_tool_call" executed_outcome
  | Finalized finalized_outcome
  | Settled finalized_outcome

fun is_settled :: "'w entry_state \<Rightarrow> bool" where
  "is_settled (Settled _) = True"
| "is_settled _ = False"

fun entry_call :: "'w entry_state \<Rightarrow> tool_call" where
  "entry_call (Running p _ _) = pr_toolCall p"
| "entry_call (Executed p _) = pr_toolCall p"
| "entry_call (Finalized f) = fo_toolCall f"
| "entry_call (Settled f) = fo_toolCall f"

definition workE :: "('w \<Rightarrow> 'w) \<Rightarrow> ('w, 'w) eff" where
  "workE f s = Some (Inr (f (fst s)), (f (fst s), snd s))"

fun entry_step ::
  "'w loop_env \<Rightarrow> 'w agent_context \<Rightarrow> assistant_message \<Rightarrow> 'w agent_loop_config \<Rightarrow> 'w entry_state \<Rightarrow>
   ('w, 'w entry_state) eff" where
  "entry_step env ctx am cfg (Running p (TWork f k) failed) =
     bindE (workE f) (\<lambda>w. returnE (Running p (k w) failed))"
| "entry_step env ctx am cfg (Running p (TUpdate r q) failed) =
     bindE (emit_update env p failed r) (\<lambda>failed'. returnE (Running p q failed'))"
| "entry_step env ctx am cfg (Running p (TDone r) failed) = await_updates failed (Executed p (tool_outcome r))"
| "entry_step env ctx am cfg (Executed p executed) =
     bindE (finalizeExecutedToolCall ctx am p executed cfg) (\<lambda>f. returnE (Finalized f))"
| "entry_step env ctx am cfg (Finalized f) = bindE (emitToolExecutionEnd env f) (\<lambda>_. returnE (Settled f))"
| "entry_step env ctx am cfg (Settled f) = returnE (Settled f)"

fun settled_outcome :: "'w entry_state \<Rightarrow> finalized_outcome" where
  "settled_outcome (Settled f) = f"
| "settled_outcome (Finalized f) = f"
| "settled_outcome e = \<lparr>fo_toolCall = entry_call e, fo_result = createErrorToolResult [], fo_isError = True\<rparr>"

definition ready_entries :: "'w entry_state list \<Rightarrow> nat list" where
  "ready_entries es = filter (\<lambda>i. \<not> is_settled (es ! i)) [0..<length es]"

definition picked :: "'w loop_env \<Rightarrow> nat \<Rightarrow> 'w entry_state list \<Rightarrow> 'w \<Rightarrow> nat" where
  "picked env n es w = ready_entries es ! (env_pick env n w mod length (ready_entries es))"

text \<open>\<open>await Promise.all(...)\<close>: the entries advance in some order until all are settled.\<close>

partial_function (option) run_entries ::
  "'w loop_env \<Rightarrow> 'w agent_context \<Rightarrow> assistant_message \<Rightarrow> 'w agent_loop_config \<Rightarrow> nat \<Rightarrow>
   'w entry_state list \<Rightarrow> ('w, finalized_outcome list) eff" where
  "run_entries env ctx am cfg n es s =
     (if ready_entries es = [] then returnE (map settled_outcome es) s
      else
        bindE (askE (picked env n es)) (\<lambda>i.
        bindE (entry_step env ctx am cfg (es ! i)) (\<lambda>e.
        run_entries env ctx am cfg (Suc n) (es[i := e]))) s)"

declare run_entries.simps [code]

primrec prepare_entries ::
  "'w loop_env \<Rightarrow> 'w agent_context \<Rightarrow> assistant_message \<Rightarrow> 'w agent_loop_config \<Rightarrow> tool_call list \<Rightarrow>
   'w entry_state list \<Rightarrow> ('w, 'w entry_state list) eff" where
  "prepare_entries env ctx am cfg [] entries = returnE entries"
| "prepare_entries env ctx am cfg (toolCall # toolCalls) entries =
     bindE (emit_tool_start env toolCall) (\<lambda>_.
     bindE (prepareToolCall env ctx am toolCall cfg) (\<lambda>preparation.
     bindE
       (case preparation of
          Immediate result isError \<Rightarrow>
            (let finalized = \<lparr>fo_toolCall = toolCall, fo_result = result, fo_isError = isError\<rparr>
             in bindE (emitToolExecutionEnd env finalized) (\<lambda>_. returnE (Settled finalized)))
        | Prepared p \<Rightarrow>
            returnE (Running p (tool_execute (pr_tool p) (tc_id (pr_toolCall p)) (pr_args p)) None))
       (\<lambda>entry.
     bindE (askE (env_aborted env)) (\<lambda>ab.
       if ab then returnE (entries @ [entry])
       else prepare_entries env ctx am cfg toolCalls (entries @ [entry])))))"

primrec publish_results ::
  "'w loop_env \<Rightarrow> finalized_outcome list \<Rightarrow> tool_result_message list \<Rightarrow> ('w, tool_result_message list) eff" where
  "publish_results env [] messages = returnE messages"
| "publish_results env (f # fs) messages =
     bindE (publish_result env f) (\<lambda>m. publish_results env fs (messages @ [m]))"

definition executeToolCallsParallel ::
  "'w loop_env \<Rightarrow> 'w agent_context \<Rightarrow> assistant_message \<Rightarrow> tool_call list \<Rightarrow> 'w agent_loop_config \<Rightarrow>
   ('w, tool_batch) eff" where
  "executeToolCallsParallel env ctx am toolCalls cfg =
     bindE (prepare_entries env ctx am cfg toolCalls []) (\<lambda>entries.
     bindE (run_entries env ctx am cfg 0 entries) (\<lambda>orderedFinalizedCalls.
     bindE (publish_results env orderedFinalizedCalls []) (\<lambda>messages.
     returnE \<lparr>tb_messages = messages, tb_terminate = shouldTerminateToolBatch orderedFinalizedCalls\<rparr>)))"

primrec group_loop ::
  "'w loop_env \<Rightarrow> 'w agent_context \<Rightarrow> assistant_message \<Rightarrow> 'w agent_loop_config \<Rightarrow> tool_call list list \<Rightarrow>
   tool_result_message list \<Rightarrow> ('w, tool_batch) eff" where
  "group_loop env ctx am cfg [] messages = returnE \<lparr>tb_messages = messages, tb_terminate = False\<rparr>"
| "group_loop env ctx am cfg (grp # grps) messages =
     (if length grp = 0 then group_loop env ctx am cfg grps messages
      else
        bindE (executeToolCallsParallel env ctx am grp cfg) (\<lambda>batch.
        bindE (askE (env_aborted env)) (\<lambda>ab.
          if tb_terminate batch \<or> ab
          then returnE \<lparr>tb_messages = messages @ tb_messages batch, tb_terminate = True\<rparr>
          else group_loop env ctx am cfg grps (messages @ tb_messages batch))))"

definition has_sequential :: "'w agent_context \<Rightarrow> tool_call list \<Rightarrow> bool" where
  "has_sequential ctx toolCalls =
     list_ex (\<lambda>tc. case find_tool ctx (tc_name tc) of
                     None \<Rightarrow> False | Some t \<Rightarrow> tool_executionMode t = Some Sequential) toolCalls"

definition executeToolCalls ::
  "'w loop_env \<Rightarrow> 'w agent_context \<Rightarrow> assistant_message \<Rightarrow> 'w agent_loop_config \<Rightarrow> ('w, tool_batch) eff" where
  "executeToolCalls env ctx am cfg =
     (let toolCalls = tool_calls_of (am_content am) in
      bindE
        (case cfg_recordToolCalls cfg of
           None \<Rightarrow> returnE ()
         | Some record \<Rightarrow> (if length toolCalls > 0 then callE (record toolCalls) else returnE ()))
        (\<lambda>_.
      if cfg_toolExecution cfg = Some Sequential \<or> has_sequential ctx toolCalls
      then executeToolCallsSequential env ctx am toolCalls cfg
      else
        bindE
          (case cfg_partitionToolCalls cfg of
             None \<Rightarrow> returnE [toolCalls]
           | Some split_calls \<Rightarrow>
               (if length toolCalls > 1 then callE (split_calls toolCalls) else returnE [toolCalls]))
          (\<lambda>groups.
        if length groups \<le> 1
        then executeToolCallsParallel env ctx am (case groups of [] \<Rightarrow> toolCalls | g # _ \<Rightarrow> g) cfg
        else group_loop env ctx am cfg groups [])))"


section \<open>One reply of the model\<close>

definition push_message :: "agent_message \<Rightarrow> 'w agent_context \<Rightarrow> 'w agent_context" where
  "push_message m ctx = ctx\<lparr>ac_messages := ac_messages ctx @ [m]\<rparr>"

definition replace_last_message :: "agent_message \<Rightarrow> 'w agent_context \<Rightarrow> 'w agent_context" where
  "replace_last_message m ctx = ctx\<lparr>ac_messages := (ac_messages ctx)[length (ac_messages ctx) - 1 := m]\<rparr>"

text \<open>
  The end of a stream, reached through \<open>done\<close> or \<open>error\<close> or when the stream is exhausted: the
  final message takes the place of the partial one, or is added when the stream never started.
\<close>

definition finish_reply ::
  "'w loop_env \<Rightarrow> ('w, assistant_message) hook \<Rightarrow> 'w agent_context \<Rightarrow> bool \<Rightarrow>
   ('w, assistant_message \<times> 'w agent_context) eff" where
  "finish_reply env result ctx addedPartial =
     bindE (callE result) (\<lambda>finalMessage.
     let ctx' = (if addedPartial then replace_last_message (AssistantMsg finalMessage) ctx
                 else push_message (AssistantMsg finalMessage) ctx)
     in bindE (if addedPartial then returnE () else emitE (env_emit env) (MessageStart (AssistantMsg finalMessage)))
          (\<lambda>_.
        bindE (emitE (env_emit env) (MessageEnd (AssistantMsg finalMessage))) (\<lambda>_.
        returnE (finalMessage, ctx'))))"

primrec consume_reply ::
  "'w reply_events \<Rightarrow> 'w loop_env \<Rightarrow> ('w, assistant_message) hook \<Rightarrow> 'w agent_context \<Rightarrow>
   assistant_message option \<Rightarrow> bool \<Rightarrow> ('w, assistant_message \<times> 'w agent_context) eff" where
  "consume_reply REnd env result ctx partialMessage addedPartial = finish_reply env result ctx addedPartial"
| "consume_reply (RThrow e) env result ctx partialMessage addedPartial = throwE e"
| "consume_reply (RWork f k) env result ctx partialMessage addedPartial =
     (\<lambda>s. consume_reply (k (f (fst s))) env result ctx partialMessage addedPartial (f (fst s), snd s))"
| "consume_reply (REvent event rest) env result ctx partialMessage addedPartial =
     (case event of
        EvStart m \<Rightarrow>
          bindE (emitE (env_emit env) (MessageStart (AssistantMsg m))) (\<lambda>_.
          consume_reply rest env result (push_message (AssistantMsg m) ctx) (Some m) True)
      | EvUpdate kind m \<Rightarrow>
          (case partialMessage of
             None \<Rightarrow> consume_reply rest env result ctx partialMessage addedPartial
           | Some _ \<Rightarrow>
               bindE (emitE (env_emit env) (MessageUpdate event (AssistantMsg m))) (\<lambda>_.
               consume_reply rest env result (replace_last_message (AssistantMsg m) ctx) (Some m) addedPartial))
      | EvDone _ _ \<Rightarrow> finish_reply env result ctx addedPartial
      | EvError _ _ \<Rightarrow> finish_reply env result ctx addedPartial)"

definition resolve_api_key :: "string option \<Rightarrow> string option \<Rightarrow> string option" where
  "resolve_api_key resolved fallback =
     (case resolved of Some k \<Rightarrow> (if k \<noteq> '''' then Some k else fallback) | None \<Rightarrow> fallback)"

definition streamAssistantResponse ::
  "'w loop_env \<Rightarrow> 'w agent_context \<Rightarrow> 'w agent_loop_config \<Rightarrow>
   ('w, assistant_message \<times> 'w agent_context) eff" where
  "streamAssistantResponse env ctx cfg =
     bindE (case cfg_transformContext cfg of
              None \<Rightarrow> returnE (ac_messages ctx)
            | Some transform \<Rightarrow> callE (transform (ac_messages ctx))) (\<lambda>messages.
     bindE (callE (cfg_convertToLlm cfg messages)) (\<lambda>llmMessages.
     let llmContext = \<lparr>lc_systemPrompt = ac_systemPrompt ctx, lc_messages = llmMessages, lc_tools = ac_tools ctx\<rparr>
     in bindE (case cfg_getApiKey cfg of
                 None \<Rightarrow> returnE None
               | Some get \<Rightarrow> callE (get (md_provider (cfg_model cfg)))) (\<lambda>key.
        bindE (callE (env_streamFn env (cfg_model cfg) llmContext
                 (cfg\<lparr>cfg_apiKey := resolve_api_key key (cfg_apiKey cfg)\<rparr>))) (\<lambda>response.
        consume_reply (rs_events response) env (rs_result response) ctx None False))))"

section \<open>The loop\<close>

record 'w loop_state =
  ls_context :: "'w agent_context"
  ls_newMessages :: "agent_message list"
  ls_config :: "'w agent_loop_config"
  ls_firstTurn :: bool
  ls_hasMoreToolCalls :: bool
  ls_pendingMessages :: "agent_message list"

datatype 'w turn_result = Stop "agent_message list" | Next "'w loop_state"

definition emit_message :: "'w loop_env \<Rightarrow> agent_message \<Rightarrow> ('w, unit) eff" where
  "emit_message env m =
     bindE (emitE (env_emit env) (MessageStart m)) (\<lambda>_. emitE (env_emit env) (MessageEnd m))"

definition inject_pending :: "'w loop_env \<Rightarrow> 'w loop_state \<Rightarrow> ('w, 'w loop_state) eff" where
  "inject_pending env l =
     bindE (for_eachE (emit_message env) (ls_pendingMessages l)) (\<lambda>_.
     returnE (l\<lparr>ls_context := fold push_message (ls_pendingMessages l) (ls_context l),
       ls_newMessages := ls_newMessages l @ ls_pendingMessages l, ls_pendingMessages := []\<rparr>))"

definition apply_turn_update :: "'w turn_update option \<Rightarrow> 'w loop_state \<Rightarrow> 'w loop_state" where
  "apply_turn_update snapshot l =
     (case snapshot of
        None \<Rightarrow> l
      | Some u \<Rightarrow>
          l\<lparr>ls_context := (case tu_context u of Some c \<Rightarrow> c | None \<Rightarrow> ls_context l),
            ls_config := (ls_config l)
              \<lparr>cfg_model := (case tu_model u of Some m \<Rightarrow> m | None \<Rightarrow> cfg_model (ls_config l)),
               cfg_reasoning :=
                 (case tu_thinkingLevel u of
                    None \<Rightarrow> cfg_reasoning (ls_config l)
                  | Some level \<Rightarrow> (if level = LevelOff then None else Some level))\<rparr>\<rparr>)"

definition turn_info :: "assistant_message \<Rightarrow> tool_result_message list \<Rightarrow> 'w loop_state \<Rightarrow> 'w turn_context" where
  "turn_info message toolResults l =
     \<lparr>tn_message = message, tn_toolResults = toolResults, tn_context = ls_context l,
      tn_newMessages = ls_newMessages l\<rparr>"

definition end_turn ::
  "'w loop_env \<Rightarrow> assistant_message \<Rightarrow> tool_result_message list \<Rightarrow> 'w loop_state \<Rightarrow> ('w, 'w turn_result) eff" where
  "end_turn env message toolResults l =
     bindE (emitE (env_emit env) (TurnEnd (AssistantMsg message) toolResults)) (\<lambda>_.
     bindE (call_optE None (map_option (\<lambda>h. h (turn_info message toolResults l))
              (cfg_prepareNextTurn (ls_config l)))) (\<lambda>snapshot.
     let l = apply_turn_update snapshot l
     in bindE (call_optE False (map_option (\<lambda>h. h (turn_info message toolResults l))
                 (cfg_shouldStopAfterTurn (ls_config l)))) (\<lambda>stop.
        if stop then
          bindE (emitE (env_emit env) (AgentEnd (ls_newMessages l))) (\<lambda>_. returnE (Stop (ls_newMessages l)))
        else
          bindE (call_optE [] (cfg_getSteeringMessages (ls_config l))) (\<lambda>pending.
          returnE (Next (l\<lparr>ls_pendingMessages := pending\<rparr>))))))"

text \<open>The rest of a turn once the reply is there: stop on a failed reply, or run its tool calls.\<close>

definition after_reply :: "'w loop_env \<Rightarrow> assistant_message \<Rightarrow> 'w loop_state \<Rightarrow> ('w, 'w turn_result) eff" where
  "after_reply env message l =
     (if am_stopReason message = StopError \<or> am_stopReason message = StopAborted then
        bindE (emitE (env_emit env) (TurnEnd (AssistantMsg message) [])) (\<lambda>_.
        bindE (emitE (env_emit env) (AgentEnd (ls_newMessages l))) (\<lambda>_.
        returnE (Stop (ls_newMessages l))))
      else if length (tool_calls_of (am_content message)) > 0 then
        bindE (executeToolCalls env (ls_context l) message (ls_config l)) (\<lambda>batch.
        end_turn env message (tb_messages batch)
          (l\<lparr>ls_hasMoreToolCalls := \<not> tb_terminate batch,
             ls_context := fold push_message (map ToolResultMsg (tb_messages batch)) (ls_context l),
             ls_newMessages := ls_newMessages l @ map ToolResultMsg (tb_messages batch)\<rparr>))
      else end_turn env message [] (l\<lparr>ls_hasMoreToolCalls := False\<rparr>))"

text \<open>One pass through the inner loop.\<close>

definition run_turn :: "'w loop_env \<Rightarrow> 'w loop_state \<Rightarrow> ('w, 'w turn_result) eff" where
  "run_turn env l =
     bindE (if ls_firstTurn l then returnE () else emitE (env_emit env) TurnStart) (\<lambda>_.
     bindE (inject_pending env (l\<lparr>ls_firstTurn := False\<rparr>)) (\<lambda>l.
     bindE (streamAssistantResponse env (ls_context l) (ls_config l)) (\<lambda>(message, ctx).
     after_reply env message
       (l\<lparr>ls_context := ctx, ls_newMessages := ls_newMessages l @ [AssistantMsg message]\<rparr>))))"

text \<open>The two nested loops. The result is the array \<open>newMessages\<close> the callers return.\<close>

partial_function (option) loop_turns ::
  "'w loop_env \<Rightarrow> 'w loop_state \<Rightarrow> ('w, agent_message list) eff" where
  "loop_turns env l s =
     (if ls_hasMoreToolCalls l \<or> length (ls_pendingMessages l) > 0 then
        bindE (run_turn env l) (\<lambda>r s.
          case r of Stop messages \<Rightarrow> returnE messages s | Next l' \<Rightarrow> loop_turns env l' s) s
      else
        bindE (call_optE [] (cfg_getFollowUpMessages (ls_config l))) (\<lambda>followUpMessages s.
          if length followUpMessages > 0 then
            loop_turns env (l\<lparr>ls_pendingMessages := followUpMessages, ls_hasMoreToolCalls := True\<rparr>) s
          else
            bindE (emitE (env_emit env) (AgentEnd (ls_newMessages l))) (\<lambda>_. returnE (ls_newMessages l)) s) s)"

declare loop_turns.simps [code]

definition runLoop ::
  "'w loop_env \<Rightarrow> 'w agent_context \<Rightarrow> agent_message list \<Rightarrow> 'w agent_loop_config \<Rightarrow> ('w, agent_message list) eff" where
  "runLoop env ctx newMessages cfg =
     bindE (call_optE [] (cfg_getSteeringMessages cfg)) (\<lambda>pendingMessages.
     loop_turns env \<lparr>ls_context = ctx, ls_newMessages = newMessages, ls_config = cfg, ls_firstTurn = True,
       ls_hasMoreToolCalls = True, ls_pendingMessages = pendingMessages\<rparr>)"

definition runAgentLoop ::
  "'w loop_env \<Rightarrow> agent_message list \<Rightarrow> 'w agent_context \<Rightarrow> 'w agent_loop_config \<Rightarrow> ('w, agent_message list) eff" where
  "runAgentLoop env prompts ctx cfg =
     bindE (emitE (env_emit env) AgentStart) (\<lambda>_.
     bindE (emitE (env_emit env) TurnStart) (\<lambda>_.
     bindE (for_eachE (emit_message env) prompts) (\<lambda>_.
     runLoop env (ctx\<lparr>ac_messages := ac_messages ctx @ prompts\<rparr>) prompts cfg)))"

definition no_messages_error :: string where
  "no_messages_error = ''Cannot continue: no messages in context''"

definition last_assistant_error :: string where
  "last_assistant_error =
     ''Cannot continue: the last message is from the assistant with no queued follow-up. Send a new prompt to continue.''"

definition runAgentLoopContinue ::
  "'w loop_env \<Rightarrow> 'w agent_context \<Rightarrow> 'w agent_loop_config \<Rightarrow> ('w, agent_message list) eff" where
  "runAgentLoopContinue env ctx cfg =
     (if length (ac_messages ctx) = 0 then throwE no_messages_error
      else if is_assistant (last (ac_messages ctx)) then throwE last_assistant_error
      else
        bindE (emitE (env_emit env) AgentStart) (\<lambda>_.
        bindE (emitE (env_emit env) TurnStart) (\<lambda>_.
        runLoop env ctx [] cfg)))"

end
