(* ===== verification/Agent.thy ===== *)
theory Agent
  imports AgentLoop
begin

text \<open>
  The class \<open>Agent\<close> and its message queues (\<open>packages/agent/src/agent.ts\<close>): the state a run
  reads and the events of the run update, the queues the run drains, and the life cycle that lets one
  run be active at a time.

  Callbacks and tools act on the agent through its public interface while a run is active: they queue
  messages, clear the queues, abort, and work on a world of their own. That part of the agent is the
  record \<open>agent_api\<close>, and their types say that they reach nothing else; callbacks that assign
  \<open>agent.state\<close>, call \<open>reset()\<close> or change the listeners during a run are outside the model.
\<close>

section \<open>Pending messages\<close>

datatype queue_mode = QueueAll | QueueOneAtATime

record pending_queue =
  pq_messages :: "agent_message list"
  pq_mode :: queue_mode

definition new_queue :: "queue_mode \<Rightarrow> pending_queue" where
  "new_queue mode = \<lparr>pq_messages = [], pq_mode = mode\<rparr>"

definition enqueue :: "agent_message \<Rightarrow> pending_queue \<Rightarrow> pending_queue" where
  "enqueue m q = q\<lparr>pq_messages := pq_messages q @ [m]\<rparr>"

definition hasItems :: "pending_queue \<Rightarrow> bool" where
  "hasItems q = (length (pq_messages q) > 0)"

definition drain :: "pending_queue \<Rightarrow> agent_message list \<times> pending_queue" where
  "drain q =
     (if pq_mode q = QueueAll then (pq_messages q, q\<lparr>pq_messages := []\<rparr>)
      else case pq_messages q of
             [] \<Rightarrow> ([], q)
           | m # ms \<Rightarrow> ([m], q\<lparr>pq_messages := ms\<rparr>))"

definition clear_queue :: "pending_queue \<Rightarrow> pending_queue" where
  "clear_queue q = q\<lparr>pq_messages := []\<rparr>"

section \<open>State\<close>

record 'x agent_api =
  api_steeringQueue :: pending_queue
  api_followUpQueue :: pending_queue
  api_aborted :: bool
  api_ext :: 'x

record 'x agent_state =
  as_systemPrompt :: string
  as_model :: llm_model
  as_thinkingLevel :: thinking_level
  as_tools :: "'x agent_api agent_tool list"
  as_messages :: "agent_message list"
  as_isStreaming :: bool
  as_streamingMessage :: "agent_message option"
  as_pendingToolCalls :: "string list"
  as_errorMessage :: "string option"

text \<open>
  \<open>ag_activeRun\<close> says whether \<open>activeRun\<close> is set; the state of its abort controller is
  \<open>api_aborted\<close>. \<open>ag_skipPoll\<close> is the variable \<open>skipInitialSteeringPoll\<close> that the loop
  configuration of the run captures. A listener is a key, its identity in the set, and a function of
  the event and of the abort signal.
\<close>

record 'x agent =
  ag_state :: "'x agent_state"
  ag_api :: "'x agent_api"
  ag_listeners :: "(nat \<times> (agent_event \<Rightarrow> bool \<Rightarrow> ('x agent_api, unit) hook)) list"
  ag_activeRun :: bool
  ag_skipPoll :: bool

record 'x agent_options =
  op_convertToLlm :: "(agent_message list \<Rightarrow> ('x agent_api, agent_message list) hook) option"
  op_transformContext :: "(agent_message list \<Rightarrow> ('x agent_api, agent_message list) hook) option"
  op_streamFn :: "llm_model \<Rightarrow> 'x agent llm_context \<Rightarrow> 'x agent agent_loop_config \<Rightarrow> ('x agent_api, 'x agent_api response) hook"
  op_getApiKey :: "(string \<Rightarrow> ('x agent_api, string option) hook) option"
  op_beforeToolCall :: "('x agent before_tool_call_context \<Rightarrow> ('x agent_api, before_tool_call_result option) hook) option"
  op_afterToolCall :: "('x agent after_tool_call_context \<Rightarrow> ('x agent_api, after_tool_call_result option) hook) option"
  op_prepareNextTurn :: "(bool \<Rightarrow> ('x agent_api, 'x agent_api turn_update option) hook) option"
  op_shouldStopAfterTurn :: "('x agent turn_context \<Rightarrow> ('x agent_api, bool) hook) option"
  op_partitionToolCalls :: "(tool_call list \<Rightarrow> ('x agent_api, tool_call list list) hook) option"
  op_recordToolCalls :: "(tool_call list \<Rightarrow> ('x agent_api, unit) hook) option"
  op_toolExecution :: "execution_mode option"
  op_requestOptions :: json
  op_validate :: "'x agent agent_tool \<Rightarrow> tool_call \<Rightarrow> string + json"
  op_now :: "'x agent_api \<Rightarrow> int"
  op_pick :: "nat \<Rightarrow> 'x agent \<Rightarrow> nat"

definition EMPTY_USAGE :: usage where
  "EMPTY_USAGE = \<lparr>u_input = 0, u_output = 0, u_cacheRead = 0, u_cacheWrite = 0, u_totalTokens = 0,
     u_cost = \<lparr>cost_input = 0, cost_output = 0, cost_cacheRead = 0, cost_cacheWrite = 0, cost_total = 0\<rparr>\<rparr>"

definition DEFAULT_MODEL :: llm_model where
  "DEFAULT_MODEL = \<lparr>md_id = ''unknown'', md_name = ''unknown'', md_api = ''unknown'', md_provider = ''unknown'',
     md_baseUrl = '''', md_reasoning = False, md_input = [],
     md_cost = \<lparr>mc_input = 0, mc_output = 0, mc_cacheRead = 0, mc_cacheWrite = 0\<rparr>,
     md_contextWindow = 0, md_maxTokens = 0, md_extra = JUndefined\<rparr>"

record 'x initial_state =
  is_systemPrompt :: "string option"
  is_model :: "llm_model option"
  is_thinkingLevel :: "thinking_level option"
  is_tools :: "'x agent_api agent_tool list option"
  is_messages :: "agent_message list option"

definition default_to :: "'a \<Rightarrow> 'a option \<Rightarrow> 'a" where
  "default_to d x = (case x of Some v \<Rightarrow> v | None \<Rightarrow> d)"

definition createMutableAgentState :: "'x initial_state option \<Rightarrow> 'x agent_state" where
  "createMutableAgentState initial =
     \<lparr>as_systemPrompt = default_to '''' (Option.bind initial is_systemPrompt),
      as_model = default_to DEFAULT_MODEL (Option.bind initial is_model),
      as_thinkingLevel = default_to LevelOff (Option.bind initial is_thinkingLevel),
      as_tools = default_to [] (Option.bind initial is_tools),
      as_messages = default_to [] (Option.bind initial is_messages),
      as_isStreaming = False, as_streamingMessage = None, as_pendingToolCalls = [], as_errorMessage = None\<rparr>"

definition new_agent :: "'x initial_state option \<Rightarrow> queue_mode option \<Rightarrow> queue_mode option \<Rightarrow> 'x \<Rightarrow> 'x agent" where
  "new_agent initial steeringMode followUpMode x =
     \<lparr>ag_state = createMutableAgentState initial,
      ag_api = \<lparr>api_steeringQueue = new_queue (default_to QueueOneAtATime steeringMode),
        api_followUpQueue = new_queue (default_to QueueOneAtATime followUpMode), api_aborted = False, api_ext = x\<rparr>,
      ag_listeners = [], ag_activeRun = False, ag_skipPoll = False\<rparr>"

definition defaultConvertToLlm :: "agent_message list \<Rightarrow> agent_message list" where
  "defaultConvertToLlm messages = filter is_llm_message messages"

section \<open>Operations outside the run\<close>

definition subscribe :: "nat \<Rightarrow> (agent_event \<Rightarrow> bool \<Rightarrow> ('x agent_api, unit) hook) \<Rightarrow> 'x agent \<Rightarrow> 'x agent" where
  "subscribe k f a = (if k \<in> fst ` set (ag_listeners a) then a else a\<lparr>ag_listeners := ag_listeners a @ [(k, f)]\<rparr>)"

definition unsubscribe :: "nat \<Rightarrow> 'x agent \<Rightarrow> 'x agent" where
  "unsubscribe k a = a\<lparr>ag_listeners := filter (\<lambda>(k', f). k' \<noteq> k) (ag_listeners a)\<rparr>"

definition steer :: "agent_message \<Rightarrow> 'x agent_api \<Rightarrow> 'x agent_api" where
  "steer m a = a\<lparr>api_steeringQueue := enqueue m (api_steeringQueue a)\<rparr>"

definition followUp :: "agent_message \<Rightarrow> 'x agent_api \<Rightarrow> 'x agent_api" where
  "followUp m a = a\<lparr>api_followUpQueue := enqueue m (api_followUpQueue a)\<rparr>"

definition clearSteeringQueue :: "'x agent_api \<Rightarrow> 'x agent_api" where
  "clearSteeringQueue a = a\<lparr>api_steeringQueue := clear_queue (api_steeringQueue a)\<rparr>"

definition clearFollowUpQueue :: "'x agent_api \<Rightarrow> 'x agent_api" where
  "clearFollowUpQueue a = a\<lparr>api_followUpQueue := clear_queue (api_followUpQueue a)\<rparr>"

definition clearAllQueues :: "'x agent_api \<Rightarrow> 'x agent_api" where
  "clearAllQueues a = clearFollowUpQueue (clearSteeringQueue a)"

definition hasQueuedMessages :: "'x agent_api \<Rightarrow> bool" where
  "hasQueuedMessages a = (hasItems (api_steeringQueue a) \<or> hasItems (api_followUpQueue a))"

definition set_steeringMode :: "queue_mode \<Rightarrow> 'x agent \<Rightarrow> 'x agent" where
  "set_steeringMode mode a =
     a\<lparr>ag_api := (ag_api a)\<lparr>api_steeringQueue := (api_steeringQueue (ag_api a))\<lparr>pq_mode := mode\<rparr>\<rparr>\<rparr>"

definition set_followUpMode :: "queue_mode \<Rightarrow> 'x agent \<Rightarrow> 'x agent" where
  "set_followUpMode mode a =
     a\<lparr>ag_api := (ag_api a)\<lparr>api_followUpQueue := (api_followUpQueue (ag_api a))\<lparr>pq_mode := mode\<rparr>\<rparr>\<rparr>"

definition set_tools :: "'x agent_api agent_tool list \<Rightarrow> 'x agent_state \<Rightarrow> 'x agent_state" where
  "set_tools nextTools st = st\<lparr>as_tools := nextTools\<rparr>"

definition set_messages :: "agent_message list \<Rightarrow> 'x agent_state \<Rightarrow> 'x agent_state" where
  "set_messages nextMessages st = st\<lparr>as_messages := nextMessages\<rparr>"

definition abort :: "'x agent \<Rightarrow> 'x agent" where
  "abort a = (if ag_activeRun a then a\<lparr>ag_api := (ag_api a)\<lparr>api_aborted := True\<rparr>\<rparr> else a)"

definition reset :: "'x agent \<Rightarrow> 'x agent" where
  "reset a =
     a\<lparr>ag_state := (ag_state a)\<lparr>as_messages := [], as_isStreaming := False, as_streamingMessage := None,
         as_pendingToolCalls := [], as_errorMessage := None\<rparr>,
       ag_api := clearSteeringQueue (clearFollowUpQueue (ag_api a))\<rparr>"


section \<open>Callbacks and tools during a run\<close>

text \<open>
  A callback runs on the agent by running on its interface. The same for a tool and for the stream of
  a provider, step by step.
\<close>

definition on_api :: "('x agent_api, 'a) hook \<Rightarrow> ('x agent, 'a) hook" where
  "on_api h a = (let (r, api) = h (ag_api a) in (r, a\<lparr>ag_api := api\<rparr>))"

definition work_on_api :: "('x agent_api \<Rightarrow> 'x agent_api) \<Rightarrow> 'x agent \<Rightarrow> 'x agent" where
  "work_on_api f a = a\<lparr>ag_api := f (ag_api a)\<rparr>"

primrec tool_on_api :: "'x agent_api tool_proc \<Rightarrow> 'x agent tool_proc" where
  "tool_on_api (TDone r) = TDone r"
| "tool_on_api (TUpdate r q) = TUpdate r (tool_on_api q)"
| "tool_on_api (TWork f k) = TWork (work_on_api f) (\<lambda>a. tool_on_api (k (ag_api a)))"

definition agent_tool_on_api :: "'x agent_api agent_tool \<Rightarrow> 'x agent agent_tool" where
  "agent_tool_on_api t =
     \<lparr>tool_name = tool_name t, tool_label = tool_label t, tool_description = tool_description t,
      tool_parameters = tool_parameters t, tool_executionMode = tool_executionMode t,
      tool_prepareArguments = tool_prepareArguments t,
      tool_execute = (\<lambda>i args. tool_on_api (tool_execute t i args))\<rparr>"

definition context_on_api :: "'x agent_api agent_context \<Rightarrow> 'x agent agent_context" where
  "context_on_api c =
     \<lparr>ac_systemPrompt = ac_systemPrompt c, ac_messages = ac_messages c,
      ac_tools = map_option (map agent_tool_on_api) (ac_tools c)\<rparr>"

definition update_on_api :: "'x agent_api turn_update \<Rightarrow> 'x agent turn_update" where
  "update_on_api u =
     \<lparr>tu_context = map_option context_on_api (tu_context u), tu_model = tu_model u,
      tu_thinkingLevel = tu_thinkingLevel u\<rparr>"

primrec reply_on_api :: "'x agent_api reply_events \<Rightarrow> 'x agent reply_events" where
  "reply_on_api REnd = REnd"
| "reply_on_api (RThrow e) = RThrow e"
| "reply_on_api (REvent ev q) = REvent ev (reply_on_api q)"
| "reply_on_api (RWork f k) = RWork (work_on_api f) (\<lambda>a. reply_on_api (k (ag_api a)))"

definition response_on_api :: "'x agent_api response \<Rightarrow> 'x agent response" where
  "response_on_api r = \<lparr>rs_events = reply_on_api (rs_events r), rs_result = on_api (rs_result r)\<rparr>"

definition map_hook :: "('a \<Rightarrow> 'b) \<Rightarrow> ('w, 'a) hook \<Rightarrow> ('w, 'b) hook" where
  "map_hook f h w = apfst (map_sum id f) (h w)"

section \<open>Events\<close>

definition add_to_set :: "'a \<Rightarrow> 'a list \<Rightarrow> 'a list" where
  "add_to_set x xs = (if x \<in> set xs then xs else xs @ [x])"

definition reduce_event :: "agent_event \<Rightarrow> 'x agent_state \<Rightarrow> 'x agent_state" where
  "reduce_event event st =
     (case event of
        MessageStart m \<Rightarrow> st\<lparr>as_streamingMessage := Some m\<rparr>
      | MessageUpdate e m \<Rightarrow> st\<lparr>as_streamingMessage := Some m\<rparr>
      | MessageEnd m \<Rightarrow> st\<lparr>as_streamingMessage := None, as_messages := as_messages st @ [m]\<rparr>
      | ToolExecutionStart i n args \<Rightarrow> st\<lparr>as_pendingToolCalls := add_to_set i (as_pendingToolCalls st)\<rparr>
      | ToolExecutionEnd i n r e \<Rightarrow> st\<lparr>as_pendingToolCalls := filter (\<lambda>j. j \<noteq> i) (as_pendingToolCalls st)\<rparr>
      | TurnEnd m rs \<Rightarrow>
          (case m of
             AssistantMsg am \<Rightarrow>
               (case am_errorMessage am of
                  Some e \<Rightarrow> (if e \<noteq> '''' then st\<lparr>as_errorMessage := Some e\<rparr> else st)
                | None \<Rightarrow> st)
           | _ \<Rightarrow> st)
      | AgentEnd ms \<Rightarrow> st\<lparr>as_streamingMessage := None\<rparr>
      | _ \<Rightarrow> st)"

primrec notify_listeners ::
  "(nat \<times> (agent_event \<Rightarrow> bool \<Rightarrow> ('x agent_api, unit) hook)) list \<Rightarrow> agent_event \<Rightarrow> ('x agent, unit) hook" where
  "notify_listeners [] event a = (Inr (), a)"
| "notify_listeners (l # ls) event a =
     (case on_api (snd l event (api_aborted (ag_api a))) a of
        (Inl e, a') \<Rightarrow> (Inl e, a')
      | (Inr _, a') \<Rightarrow> notify_listeners ls event a')"

definition no_run_error :: string where
  "no_run_error = ''Agent listener invoked outside active run''"

definition processEvents :: "agent_event \<Rightarrow> ('x agent, unit) hook" where
  "processEvents event a =
     (let a = a\<lparr>ag_state := reduce_event event (ag_state a)\<rparr>
      in if \<not> ag_activeRun a then (Inl no_run_error, a)
         else notify_listeners (ag_listeners a) event a)"

section \<open>Runs\<close>

definition createContextSnapshot :: "'x agent \<Rightarrow> 'x agent agent_context" where
  "createContextSnapshot a =
     \<lparr>ac_systemPrompt = as_systemPrompt (ag_state a), ac_messages = as_messages (ag_state a),
      ac_tools = Some (map agent_tool_on_api (as_tools (ag_state a)))\<rparr>"

definition poll_steering :: "('x agent, agent_message list) hook" where
  "poll_steering a =
     (if ag_skipPoll a then (Inr [], a\<lparr>ag_skipPoll := False\<rparr>)
      else let (ms, q) = drain (api_steeringQueue (ag_api a))
           in (Inr ms, a\<lparr>ag_api := (ag_api a)\<lparr>api_steeringQueue := q\<rparr>\<rparr>))"

definition poll_followUp :: "('x agent, agent_message list) hook" where
  "poll_followUp a =
     (let (ms, q) = drain (api_followUpQueue (ag_api a))
      in (Inr ms, a\<lparr>ag_api := (ag_api a)\<lparr>api_followUpQueue := q\<rparr>\<rparr>))"

definition createLoopConfig :: "'x agent_options \<Rightarrow> 'x agent \<Rightarrow> 'x agent agent_loop_config" where
  "createLoopConfig op a =
     \<lparr>cfg_model = as_model (ag_state a),
      cfg_reasoning = (if as_thinkingLevel (ag_state a) = LevelOff then None else Some (as_thinkingLevel (ag_state a))),
      cfg_apiKey = None,
      cfg_options = op_requestOptions op,
      cfg_convertToLlm =
        (case op_convertToLlm op of
           Some f \<Rightarrow> (\<lambda>ms. on_api (f ms)) | None \<Rightarrow> (\<lambda>ms a. (Inr (defaultConvertToLlm ms), a))),
      cfg_transformContext = map_option (\<lambda>f ms. on_api (f ms)) (op_transformContext op),
      cfg_getApiKey = map_option (\<lambda>f p. on_api (f p)) (op_getApiKey op),
      cfg_shouldStopAfterTurn = map_option (\<lambda>f c. on_api (f c)) (op_shouldStopAfterTurn op),
      cfg_prepareNextTurn =
        map_option (\<lambda>f c a. map_hook (map_option update_on_api) (on_api (f (api_aborted (ag_api a)))) a) (op_prepareNextTurn op),
      cfg_getSteeringMessages = Some poll_steering,
      cfg_getFollowUpMessages = Some poll_followUp,
      cfg_toolExecution = Some (default_to Parallel (op_toolExecution op)),
      cfg_partitionToolCalls = map_option (\<lambda>f cs. on_api (f cs)) (op_partitionToolCalls op),
      cfg_recordToolCalls = map_option (\<lambda>f cs. on_api (f cs)) (op_recordToolCalls op),
      cfg_beforeToolCall = map_option (\<lambda>f c. on_api (f c)) (op_beforeToolCall op),
      cfg_afterToolCall = map_option (\<lambda>f c. on_api (f c)) (op_afterToolCall op)\<rparr>"

definition agent_env :: "'x agent_options \<Rightarrow> 'x agent loop_env" where
  "agent_env op =
     \<lparr>env_emit = processEvents, env_aborted = (\<lambda>a. api_aborted (ag_api a)), env_now = (\<lambda>a. op_now op (ag_api a)),
      env_streamFn = (\<lambda>model lc cfg. map_hook response_on_api (on_api (op_streamFn op model lc cfg))),
      env_validate = op_validate op, env_pick = op_pick op\<rparr>"

definition modifyE :: "('w \<Rightarrow> 'w) \<Rightarrow> ('w, unit) eff" where
  "modifyE f s = Some (Inr (), (f (fst s), snd s))"

definition finallyE :: "('w, 'a) eff \<Rightarrow> ('w \<Rightarrow> 'w) \<Rightarrow> ('w, 'a) eff" where
  "finallyE m f s = Option.bind (m s) (\<lambda>(r, s'). Some (r, (f (fst s'), snd s')))"

definition failure_message :: "string \<Rightarrow> bool \<Rightarrow> int \<Rightarrow> 'x agent_state \<Rightarrow> assistant_message" where
  "failure_message e aborted ts st =
     \<lparr>am_content = [TextBlock '''' None], am_api = md_api (as_model st), am_provider = md_provider (as_model st),
      am_model = md_id (as_model st), am_extra = JUndefined, am_usage = EMPTY_USAGE,
      am_stopReason = (if aborted then StopAborted else StopError), am_errorMessage = Some e, am_timestamp = ts\<rparr>"

definition handleRunFailure :: "'x agent_options \<Rightarrow> string \<Rightarrow> ('x agent, unit) eff" where
  "handleRunFailure op e =
     bindE (askE (\<lambda>a. failure_message e (api_aborted (ag_api a)) (op_now op (ag_api a)) (ag_state a))) (\<lambda>m.
     bindE (emitE processEvents (MessageStart (AssistantMsg m))) (\<lambda>_.
     bindE (emitE processEvents (MessageEnd (AssistantMsg m))) (\<lambda>_.
     bindE (emitE processEvents (TurnEnd (AssistantMsg m) [])) (\<lambda>_.
     emitE processEvents (AgentEnd [AssistantMsg m])))))"

definition start_run :: "'x agent \<Rightarrow> 'x agent" where
  "start_run a =
     a\<lparr>ag_activeRun := True, ag_api := (ag_api a)\<lparr>api_aborted := False\<rparr>,
       ag_state := (ag_state a)\<lparr>as_isStreaming := True, as_streamingMessage := None, as_errorMessage := None\<rparr>\<rparr>"

definition finishRun :: "'x agent \<Rightarrow> 'x agent" where
  "finishRun a =
     a\<lparr>ag_state := (ag_state a)\<lparr>as_isStreaming := False, as_streamingMessage := None, as_pendingToolCalls := []\<rparr>,
       ag_activeRun := False\<rparr>"

definition processing_error :: string where
  "processing_error = ''Agent is already processing.''"

definition runWithLifecycle :: "'x agent_options \<Rightarrow> ('x agent, unit) eff \<Rightarrow> ('x agent, unit) eff" where
  "runWithLifecycle op executor =
     bindE (askE ag_activeRun) (\<lambda>active.
       if active then throwE processing_error
       else bindE (modifyE start_run) (\<lambda>_. finallyE (catchE executor (handleRunFailure op)) finishRun))"

definition runPromptMessages :: "'x agent_options \<Rightarrow> agent_message list \<Rightarrow> bool \<Rightarrow> ('x agent, unit) eff" where
  "runPromptMessages op messages skipInitialSteeringPoll =
     runWithLifecycle op
       (bindE (askE createContextSnapshot) (\<lambda>ctx.
        bindE (modifyE (\<lambda>a. a\<lparr>ag_skipPoll := skipInitialSteeringPoll\<rparr>)) (\<lambda>_.
        bindE (askE (createLoopConfig op)) (\<lambda>cfg.
        bindE (runAgentLoop (agent_env op) messages ctx cfg) (\<lambda>_. returnE ())))))"

definition runContinuation :: "'x agent_options \<Rightarrow> ('x agent, unit) eff" where
  "runContinuation op =
     runWithLifecycle op
       (bindE (askE createContextSnapshot) (\<lambda>ctx.
        bindE (modifyE (\<lambda>a. a\<lparr>ag_skipPoll := False\<rparr>)) (\<lambda>_.
        bindE (askE (createLoopConfig op)) (\<lambda>cfg.
        bindE (runAgentLoopContinue (agent_env op) ctx cfg) (\<lambda>_. returnE ())))))"

datatype prompt_input = PromptText string "part list option" | PromptMessage agent_message | PromptMessages "agent_message list"

definition normalizePromptInput :: "prompt_input \<Rightarrow> int \<Rightarrow> agent_message list" where
  "normalizePromptInput input ts =
     (case input of
        PromptMessages ms \<Rightarrow> ms
      | PromptMessage m \<Rightarrow> [m]
      | PromptText text images \<Rightarrow>
          [UserMsg \<lparr>um_content = CParts (TextPart text None # (case images of Some ps \<Rightarrow> ps | None \<Rightarrow> [])),
             um_timestamp = ts\<rparr>])"

definition busy_error :: string where
  "busy_error =
     ''Agent is already processing a prompt. Use steer() or followUp() to queue messages, or wait for completion.''"

definition prompt :: "'x agent_options \<Rightarrow> prompt_input \<Rightarrow> ('x agent, unit) eff" where
  "prompt op input =
     bindE (askE ag_activeRun) (\<lambda>active.
       if active then throwE busy_error
       else bindE (askE (\<lambda>a. normalizePromptInput input (op_now op (ag_api a)))) (\<lambda>messages.
            runPromptMessages op messages False))"

definition continue_busy_error :: string where
  "continue_busy_error = ''Agent is already processing. Wait for completion before continuing.''"

definition no_messages_to_continue :: string where
  "no_messages_to_continue = ''No messages to continue from''"

definition drain_steering :: "('x agent, agent_message list) hook" where
  "drain_steering a =
     (let (ms, q) = drain (api_steeringQueue (ag_api a))
      in (Inr ms, a\<lparr>ag_api := (ag_api a)\<lparr>api_steeringQueue := q\<rparr>\<rparr>))"

definition continue :: "'x agent_options \<Rightarrow> ('x agent, unit) eff" where
  "continue op =
     bindE (askE (\<lambda>a. (ag_activeRun a, as_messages (ag_state a)))) (\<lambda>(active, messages).
       if active then throwE continue_busy_error
       else if messages = [] then throwE no_messages_to_continue
       else if is_assistant (last messages) then
         bindE (callE drain_steering) (\<lambda>queuedSteering.
           if length queuedSteering > 0 then runPromptMessages op queuedSteering True
           else
             bindE (callE poll_followUp) (\<lambda>queuedFollowUps.
               if length queuedFollowUps > 0 then runPromptMessages op queuedFollowUps False
               else throwE last_assistant_error))
       else runContinuation op)"

end
