(* ===== verification/AgentEvents.thy ===== *)
theory AgentEvents
  imports AgentLoop "HOL-Library.Sublist"
begin

text \<open>
  What the agent loop promises to the listeners of its events, stated as a reader of the event
  sequence, and the proof that every run keeps the promise, whatever the provider, the tools, the
  hooks and the order in which concurrent calls are resumed.
\<close>

section \<open>The protocol of events\<close>

text \<open>
  A listener that keeps the phase of the run, whether a message is open, the calls that have started
  and not ended, and the completed messages. It rejects an event the protocol of
  \<open>AgentEvent\<close> in \<open>packages/agent/src/types.ts\<close> does not allow: a message outside a turn or
  inside another one, an update or end of a call that does not run, a turn that ends with an open
  message or a running call or whose message and tool results are not the last ones completed, and
  an \<open>agent_end\<close> that does not report exactly the completed messages.
\<close>

datatype run_phase = BeforeRun | BetweenTurns | InTurn | AfterRun

record event_log =
  el_phase :: run_phase
  el_open :: bool
  el_running :: "string multiset"
  el_messages :: "agent_message list"

definition empty_log :: event_log where
  "empty_log = \<lparr>el_phase = BeforeRun, el_open = False, el_running = {#}, el_messages = []\<rparr>"

definition quiet :: "event_log \<Rightarrow> bool" where
  "quiet l = (el_phase l = InTurn \<and> \<not> el_open l)"

definition log_step :: "event_log \<Rightarrow> agent_event \<Rightarrow> event_log option" where
  "log_step l ev =
     (case ev of
        AgentStart \<Rightarrow> if el_phase l = BeforeRun then Some (l\<lparr>el_phase := BetweenTurns\<rparr>) else None
      | TurnStart \<Rightarrow> if el_phase l = BetweenTurns then Some (l\<lparr>el_phase := InTurn\<rparr>) else None
      | MessageStart m \<Rightarrow> if quiet l \<and> el_running l = {#} then Some (l\<lparr>el_open := True\<rparr>) else None
      | MessageUpdate e m \<Rightarrow> if el_open l then Some l else None
      | MessageEnd m \<Rightarrow>
          if el_open l then Some (l\<lparr>el_open := False, el_messages := el_messages l @ [m]\<rparr>) else None
      | ToolExecutionStart i n as \<Rightarrow>
          if quiet l then Some (l\<lparr>el_running := add_mset i (el_running l)\<rparr>) else None
      | ToolExecutionUpdate i n as r \<Rightarrow> if i \<in># el_running l then Some l else None
      | ToolExecutionEnd i n r e \<Rightarrow>
          if i \<in># el_running l then Some (l\<lparr>el_running := el_running l - {#i#}\<rparr>) else None
      | TurnEnd m rs \<Rightarrow>
          if quiet l \<and> el_running l = {#} \<and>
             drop (length (el_messages l) - Suc (length rs)) (el_messages l) = m # map ToolResultMsg rs
          then Some (l\<lparr>el_phase := BetweenTurns\<rparr>) else None
      | AgentEnd ms \<Rightarrow>
          if el_phase l = BetweenTurns \<and> ms = el_messages l then Some (l\<lparr>el_phase := AfterRun\<rparr>) else None)"

definition read_log :: "agent_event list \<Rightarrow> event_log option" where
  "read_log evs = foldl (\<lambda>l ev. Option.bind l (\<lambda>l. log_step l ev)) (Some empty_log) evs"

lemma read_log_snoc: "read_log (evs @ [ev]) = Option.bind (read_log evs) (\<lambda>l. log_step l ev)"
  by (simp add: read_log_def)

section \<open>Following the log through the effects\<close>

definition log_at :: "event_log \<Rightarrow> 'w st \<Rightarrow> bool" where
  "log_at l s = (read_log (snd s) = Some l)"

text \<open>A run that throws leaves a sequence that the reader accepts as far as it goes.\<close>

definition readable :: "string \<Rightarrow> 'w st \<Rightarrow> bool" where
  "readable e s = (read_log (snd s) \<noteq> None)"

lemma log_at_readable: "log_at l s \<Longrightarrow> readable e s"
  by (simp add: log_at_def readable_def)

lemma log_at_snd: "log_at l s \<Longrightarrow> snd s' = snd s \<Longrightarrow> log_at l s'"
  by (simp add: log_at_def)

lemma wp_emit_log:
  assumes "log_at l s" and "log_step l ev = Some l'" and "\<And>s'. log_at l' s' \<Longrightarrow> Q () s'"
  shows "wp (emitE sink ev) Q readable s"
  using assms by (intro wp_emitE_any) (auto simp: log_at_def readable_def read_log_snoc)

lemma wp_call_log:
  assumes "log_at l s" and "\<And>a s'. log_at l s' \<Longrightarrow> Q a s'"
  shows "wp (callE h) Q readable s"
  using assms by (intro wp_callE_any) (auto simp: log_at_def readable_def)

lemma wp_call_opt_log:
  assumes "log_at l s" and "\<And>a s'. log_at l s' \<Longrightarrow> Q a s'"
  shows "wp (call_optE d h) Q readable s"
  using assms by (intro wp_call_optE_any) (auto simp: log_at_def readable_def)

lemma wp_ask_log:
  assumes "log_at l s" and "\<And>a. Q a s"
  shows "wp (askE f) Q readable s"
  using assms by simp

text \<open>A message that is started and ended at once is one more completed message.\<close>

definition idle :: "event_log \<Rightarrow> bool" where
  "idle l = (quiet l \<and> el_running l = {#})"

definition add_messages :: "agent_message list \<Rightarrow> event_log \<Rightarrow> event_log" where
  "add_messages ms l = l\<lparr>el_messages := el_messages l @ ms\<rparr>"

lemma idle_add_messages [simp]: "idle (add_messages ms l) = idle l"
  by (simp add: idle_def quiet_def add_messages_def)

lemma add_messages_add_messages [simp]: "add_messages ms (add_messages ms' l) = add_messages (ms' @ ms) l"
  by (simp add: add_messages_def)

lemma add_messages_Nil [simp]: "add_messages [] l = l"
  by (simp add: add_messages_def)

lemma add_messages_simps [simp]:
  "el_phase (add_messages ms l) = el_phase l" "el_open (add_messages ms l) = el_open l"
  "el_running (add_messages ms l) = el_running l" "el_messages (add_messages ms l) = el_messages l @ ms"
  by (simp_all add: add_messages_def)

lemma wp_message_pair:
  assumes "log_at l s" and "idle l" and "\<And>s'. log_at (add_messages [m] l) s' \<Longrightarrow> Q () s'"
  shows "wp (bindE (emitE sink (MessageStart m)) (\<lambda>_. emitE sink (MessageEnd m))) Q readable s"
proof -
  have "log_step l (MessageStart m) = Some (l\<lparr>el_open := True\<rparr>)"
    using assms(2) by (simp add: log_step_def idle_def)
  moreover have "log_step (l\<lparr>el_open := True\<rparr>) (MessageEnd m) = Some (add_messages [m] l)"
    using assms(2) by (simp add: log_step_def idle_def quiet_def add_messages_def)
  ultimately show ?thesis using assms(1,3) by (auto intro!: wp_emit_log)
qed

lemma wp_emit_message:
  assumes "log_at l s" and "idle l" and "\<And>s'. log_at (add_messages [m] l) s' \<Longrightarrow> Q () s'"
  shows "wp (emit_message env m) Q readable s"
  unfolding emit_message_def by (rule wp_message_pair) (use assms in auto)

lemma wp_emit_messages:
  assumes "log_at l s" and "idle l" and "\<And>s'. log_at (add_messages ms l) s' \<Longrightarrow> Q () s'"
  shows "wp (for_eachE (emit_message env) ms) Q readable s"
  by (rule wp_for_eachE [where I = "\<lambda>ms'. log_at (add_messages ms' l)"])
    (use assms in \<open>auto intro!: wp_emit_message\<close>)


section \<open>One tool call\<close>

definition prepared_for :: "tool_call \<Rightarrow> 'w preparation \<Rightarrow> bool" where
  "prepared_for tc p = (case p of Prepared q \<Rightarrow> pr_toolCall q = tc | Immediate _ _ \<Rightarrow> True)"

lemma wp_check_abort:
  assumes "Q operation_aborted s" and "wp m Q E s"
  shows "wp (check_abort env m) Q E s"
  using assms by (simp add: check_abort_def)

text \<open>Preparing a call emits nothing and never throws.\<close>

lemma wp_prepareToolCall:
  assumes "\<And>p s'. snd s' = snd s \<Longrightarrow> prepared_for tc p \<Longrightarrow> Q p s'"
  shows "wp (prepareToolCall env ctx am tc cfg) Q E s"
proof -
  have imm: "Q (Immediate r b) s'" if "snd s' = snd s" for r b s'
    using that by (auto intro!: assms simp: prepared_for_def)
  have prep: "wp (check_abort env (returnE (Prepared \<lparr>pr_toolCall = tc, pr_tool = t, pr_args = v\<rparr>))) Q E' s'"
    if "snd s' = snd s" for t v s' and E' :: "string \<Rightarrow> 'a st \<Rightarrow> bool"
    using that by (auto intro!: wp_check_abort assms imm simp: prepared_for_def operation_aborted_def)
  have blk: "wp (check_abort env (case b of
        None \<Rightarrow> check_abort env (returnE (Prepared \<lparr>pr_toolCall = tc, pr_tool = t, pr_args = v\<rparr>))
      | Some b \<Rightarrow> if bt_block b then returnE (blocked_outcome b)
          else check_abort env (returnE (Prepared \<lparr>pr_toolCall = tc, pr_tool = t, pr_args = v\<rparr>)))) Q E' s'"
    if "snd s' = snd s" for b t v s' and E' :: "string \<Rightarrow> 'a st \<Rightarrow> bool"
    using that
    by (cases b) (auto intro!: wp_check_abort imm prep simp: operation_aborted_def blocked_outcome_def)
  show ?thesis
    unfolding prepareToolCall_def Let_def
    by (auto split: option.split sum.split intro!: imm prep wp_callE_any blk)
qed

lemma wp_emit_update:
  assumes "log_at l s" and "tc_id (pr_toolCall p) \<in># el_running l" and "\<And>f s'. log_at l s' \<Longrightarrow> Q f s'"
  shows "wp (emit_update env p failed r) Q readable s"
proof -
  have "log_at l (w, snd s @ [ToolExecutionUpdate (tc_id (pr_toolCall p)) n as r])" for w :: 'a and n as
    using assms(1,2) by (simp add: log_at_def read_log_snoc log_step_def)
  then show ?thesis unfolding emit_update_def by (auto intro!: wp_emitE_any assms(3))
qed

lemma wp_await_updates:
  assumes "log_at l s" and "Q a s"
  shows "wp (await_updates failed a) Q readable s"
  using assms by (auto simp: await_updates_def log_at_readable split: option.split)

lemma wp_run_tool:
  assumes "log_at l s" and "tc_id (pr_toolCall p) \<in># el_running l" and "\<And>r s'. log_at l s' \<Longrightarrow> Q r s'"
  shows "wp (run_tool q env p failed) Q readable s"
  using assms(1)
proof (induction q arbitrary: failed s)
  case (TDone r)
  then show ?case by (auto intro!: wp_await_updates assms(3))
next
  case (TUpdate r q)
  then show ?case by (auto intro!: wp_emit_update assms(2))
next
  case (TWork f k)
  have "wp (run_tool (k (f (fst s))) env p failed) Q readable (f (fst s), snd s)"
    using TWork.prems by (intro TWork.IH) (auto simp: log_at_def)
  then show ?case by (simp add: wp_def)
qed

lemma wp_executePreparedToolCall:
  assumes "log_at l s" and "tc_id (pr_toolCall p) \<in># el_running l" and "\<And>r s'. log_at l s' \<Longrightarrow> Q r s'"
  shows "wp (executePreparedToolCall env p) Q readable s"
  unfolding executePreparedToolCall_def by (rule wp_run_tool) (use assms in auto)

text \<open>Finalizing a call emits nothing and never throws.\<close>

lemma wp_finalizeExecutedToolCall:
  assumes "\<And>f s'. snd s' = snd s \<Longrightarrow> fo_toolCall f = pr_toolCall p \<Longrightarrow> Q f s'"
  shows "wp (finalizeExecutedToolCall ctx am p executed cfg) Q E s"
  unfolding finalizeExecutedToolCall_def
  by (cases executed) (auto simp: Let_def split: option.split intro!: wp_callE_any assms)

definition start_running :: "string \<Rightarrow> event_log \<Rightarrow> event_log" where
  "start_running i l = l\<lparr>el_running := add_mset i (el_running l)\<rparr>"

lemma start_running_simps [simp]:
  "el_running (start_running i l) = add_mset i (el_running l)" "quiet (start_running i l) = quiet l"
  "el_messages (start_running i l) = el_messages l"
  by (simp_all add: start_running_def quiet_def)

lemma wp_emit_tool_start:
  assumes "log_at l s" and "quiet l" and "\<And>s'. log_at (start_running (tc_id tc) l) s' \<Longrightarrow> Q () s'"
  shows "wp (emit_tool_start env tc) Q readable s"
  unfolding emit_tool_start_def
  by (rule wp_emit_log [OF assms(1)]) (use assms in \<open>auto simp: log_step_def start_running_def\<close>)

lemma wp_emitToolExecutionEnd:
  assumes "log_at (start_running (tc_id (fo_toolCall f)) l) s" and "\<And>s'. log_at l s' \<Longrightarrow> Q () s'"
  shows "wp (emitToolExecutionEnd env f) Q readable s"
  unfolding emitToolExecutionEnd_def
  by (rule wp_emit_log [OF assms(1)]) (use assms in \<open>auto simp: log_step_def start_running_def\<close>)

lemma wp_publish_result:
  assumes "log_at l s" and "idle l"
    and "\<And>m ts s'. log_at (add_messages [ToolResultMsg m] l) s' \<Longrightarrow> m = createToolResultMessage ts f \<Longrightarrow> Q m s'"
  shows "wp (publish_result env f) Q readable s"
proof -
  have "wp (emitToolResultMessage env m) (\<lambda>_. Q m) readable s" if "m = createToolResultMessage ts f" for m ts
    unfolding emitToolResultMessage_def
    by (rule wp_message_pair [OF assms(1,2)]) (use that assms(3) in auto)
  then show ?thesis by (simp add: publish_result_def Let_def)
qed

lemma wp_settle_call:
  assumes "log_at l s" and "tc_id tc \<in># el_running l" and "prepared_for tc p"
    and "\<And>f s'. log_at l s' \<Longrightarrow> fo_toolCall f = tc \<Longrightarrow> Q f s'"
  shows "wp (settle_call env ctx am cfg tc p) Q readable s"
proof (cases p)
  case (Prepared q)
  then have q: "pr_toolCall q = tc" using assms(3) by (simp add: prepared_for_def)
  have "wp (finalizeExecutedToolCall ctx am q ex cfg) Q readable s'" if "log_at l s'" for ex s'
    by (rule wp_finalizeExecutedToolCall) (use that q assms(4) log_at_snd in metis)
  then show ?thesis using Prepared q assms(1,2)
    by (auto simp: settle_call_def intro!: wp_executePreparedToolCall)
qed (use assms in \<open>auto simp: settle_call_def\<close>)


section \<open>Concurrent calls come to an end\<close>

text \<open>
  A step takes an entry to a smaller one: deeper into the tool's tree, or to a later phase. The steps
  of a batch are then decreasing in the multiset extension of that order, whichever entry is picked.
\<close>

definition entry_next ::
  "'w loop_env \<Rightarrow> 'w agent_context \<Rightarrow> assistant_message \<Rightarrow> 'w agent_loop_config \<Rightarrow>
   ('w entry_state \<times> 'w entry_state) set" where
  "entry_next env ctx am cfg =
     {(e', e). \<not> is_settled e \<and> (\<exists>s s'. entry_step env ctx am cfg e s = Some (Inr e', s'))}"

lemma bindE_Some_iff:
  "bindE m k s = Some (Inr b, s') \<longleftrightarrow> (\<exists>a s''. m s = Some (Inr a, s'') \<and> k a s'' = Some (Inr b, s'))"
  by (auto simp: bindE_def split: bind_splits sum.splits)

lemmas entry_next_simps = entry_next_def bindE_Some_iff returnE_def await_updates_def throwE_def

lemma entry_next_cases:
  "(e, Running p (TWork f k) failed) \<in> entry_next env ctx am cfg \<Longrightarrow> \<exists>w. e = Running p (k w) failed"
  "(e, Running p (TUpdate r q) failed) \<in> entry_next env ctx am cfg \<Longrightarrow> \<exists>failed'. e = Running p q failed'"
  "(e, Running p (TDone d) failed) \<in> entry_next env ctx am cfg \<Longrightarrow> \<exists>ex. e = Executed p ex"
  "(e, Executed p ex) \<in> entry_next env ctx am cfg \<Longrightarrow> \<exists>fo. e = Finalized fo"
  "(e, Finalized fo) \<in> entry_next env ctx am cfg \<Longrightarrow> e = Settled fo"
  by (force simp: entry_next_simps split: option.splits)+

lemma wf_entry_next: "wf (entry_next env ctx am cfg)"
proof -
  let ?r = "entry_next env ctx am cfg"
  have settled: "Settled f \<in> Wellfounded.acc ?r" for f
    by (rule accI) (simp add: entry_next_def)
  have finalized: "Finalized f \<in> Wellfounded.acc ?r" for f
    by (rule accI) (use settled entry_next_cases(5) in metis)
  have executed: "Executed p ex \<in> Wellfounded.acc ?r" for p ex
    by (rule accI) (use finalized entry_next_cases(4) in metis)
  have running: "Running p q failed \<in> Wellfounded.acc ?r" for p q failed
  proof (induction q arbitrary: failed)
    case (TDone r)
    show ?case by (rule accI) (use executed entry_next_cases(3) in metis)
  next
    case (TUpdate r q)
    show ?case by (rule accI) (use TUpdate entry_next_cases(2) in metis)
  next
    case (TWork f k)
    show ?case by (rule accI) (use TWork entry_next_cases(1) rangeI in metis)
  qed
  have "e \<in> Wellfounded.acc ?r" for e by (cases e) (simp_all add: settled finalized executed running)
  then show ?thesis by (simp add: wf_iff_acc)
qed

lemma ready_entries_iff: "i \<in> set (ready_entries es) \<longleftrightarrow> i < length es \<and> \<not> is_settled (es ! i)"
  by (auto simp: ready_entries_def)

lemma ready_entries_Nil_iff: "ready_entries es = [] \<longleftrightarrow> list_all is_settled es"
  by (auto simp: ready_entries_def filter_empty_conv list_all_length)

lemma picked_ready: "ready_entries es \<noteq> [] \<Longrightarrow> picked env n es w \<in> set (ready_entries es)"
  by (simp add: picked_def)

lemma entries_update_mult:
  assumes "i < length es" and "(e, es ! i) \<in> r"
  shows "(mset (es[i := e]), mset es) \<in> mult r"
proof -
  have mem: "es ! i \<in># mset es" using assms(1) by simp
  have "mset (es[i := e]) = (mset es - {#es ! i#}) + {#e#}" using assms(1) by (simp add: mset_update)
  moreover have "mset es = (mset es - {#es ! i#}) + {#es ! i#}" using mem by simp
  ultimately show ?thesis using assms(2) one_step_implies_mult [of "{#es ! i#}" "{#e#}" r "mset es - {#es ! i#}"]
    by auto
qed

lemma entries_induct:
  assumes "\<And>es. (\<And>i e s s'. i \<in> set (ready_entries es) \<Longrightarrow>
      entry_step env ctx am cfg (es ! i) s = Some (Inr e, s') \<Longrightarrow> P (es[i := e])) \<Longrightarrow> P es"
  shows "P es"
proof -
  have "wf (inv_image (mult (entry_next env ctx am cfg)) mset)"
    by (intro wf_inv_image wf_mult wf_entry_next)
  then show ?thesis
  proof (induction es rule: wf_induct_rule)
    case (less es)
    show ?case
    proof (rule assms)
      fix i e s s'
      assume i: "i \<in> set (ready_entries es)" and st: "entry_step env ctx am cfg (es ! i) s = Some (Inr e, s')"
      then have "(e, es ! i) \<in> entry_next env ctx am cfg" unfolding entry_next_def ready_entries_iff by blast
      then show "P (es[i := e])"
        using i by (intro less) (auto simp: ready_entries_iff intro: entries_update_mult)
    qed
  qed
qed

lemma returns_prepareToolCall: "returns (prepareToolCall env ctx am tc cfg)"
  by (auto simp: prepareToolCall_def Let_def check_abort_def split: option.split intro!: returns_catchE returns_bindE)

lemma returns_emit_update: "returns (emit_update env p failed r)"
  by (auto simp: emit_update_def)

lemma returns_await_updates: "returns (await_updates failed a)"
  by (simp add: await_updates_def split: option.split)

lemma returns_run_tool: "returns (run_tool q env p failed)"
proof (induction q arbitrary: failed)
  case (TWork f k)
  then show ?case by (auto simp: returns_def)
qed (auto simp: returns_await_updates returns_emit_update)

lemma returns_finalize: "returns (finalizeExecutedToolCall ctx am p executed cfg)"
  by (cases executed) (auto simp: finalizeExecutedToolCall_def Let_def split: option.split)

lemma returns_entry_step: "returns (entry_step env ctx am cfg e)"
  by (cases "(env, ctx, am, cfg, e)" rule: entry_step.cases)
    (auto simp: returns_await_updates returns_emit_update returns_finalize emitToolExecutionEnd_def
      returns_def [of "workE _"] workE_def)

lemma returns_run_entries: "returns (run_entries env ctx am cfg n es)"
proof (induction es arbitrary: n rule: entries_induct [where env = env and ctx = ctx and am = am and cfg = cfg])
  case (1 es)
  show ?case
    unfolding returns_def
  proof (intro allI)
    fix s :: "'a st"
    let ?i = "picked env n es (fst s)"
    show "run_entries env ctx am cfg n es s \<noteq> None"
    proof (cases "ready_entries es = []")
      case False
      then have i: "?i \<in> set (ready_entries es)" by (rule picked_ready)
      obtain r s' where st: "entry_step env ctx am cfg (es ! ?i) s = Some (r, s')"
        using returns_entry_step [of env ctx am cfg "es ! ?i"] unfolding returns_def by (metis old.prod.exhaust not_None_eq)
      show ?thesis
      proof (cases r)
        case (Inr e)
        have "run_entries env ctx am cfg (Suc n) (es[?i := e]) s' \<noteq> None"
          using 1 [OF i, of s e s'] st Inr unfolding returns_def by blast
        then show ?thesis using Inr st False
          by (subst run_entries.simps) (simp add: bindE_def askE_def)
      qed (use st False in \<open>subst run_entries.simps, simp add: bindE_def askE_def\<close>)
    qed (subst run_entries.simps, simp add: returnE_def)
  qed
qed


section \<open>Batches\<close>

definition set_running :: "string multiset \<Rightarrow> event_log \<Rightarrow> event_log" where
  "set_running R l = l\<lparr>el_running := R\<rparr>"

lemma set_running_simps [simp]:
  "el_running (set_running R l) = R" "quiet (set_running R l) = quiet l"
  "set_running R (set_running R' l) = set_running R l" "set_running (el_running l) l = l"
  "start_running i (set_running R l) = set_running (add_mset i R) l"
  by (simp_all add: set_running_def quiet_def start_running_def)

definition unsettled :: "'w entry_state list \<Rightarrow> string multiset" where
  "unsettled es = mset (map (\<lambda>e. tc_id (entry_call e)) (filter (\<lambda>e. \<not> is_settled e) es))"

lemma unsettled_simps [simp]:
  "unsettled [] = {#}" "unsettled (xs @ ys) = unsettled xs + unsettled ys"
  "unsettled (e # es) = (if is_settled e then unsettled es else add_mset (tc_id (entry_call e)) (unsettled es))"
  by (simp_all add: unsettled_def)

lemma unsettled_settled: "list_all is_settled es \<Longrightarrow> unsettled es = {#}"
  by (induction es) auto

lemma wp_entry_step:
  assumes "log_at (set_running (add_mset (tc_id (entry_call e)) R) l) s" and "\<not> is_settled e"
    and Q: "\<And>e' s'. entry_call e' = entry_call e \<Longrightarrow> log_at (set_running (unsettled [e'] + R) l) s' \<Longrightarrow> Q e' s'"
  shows "wp (entry_step env ctx am cfg e) Q readable s"
proof (cases "(env, ctx, am, cfg, e)" rule: entry_step.cases)
  case (1 env ctx am cfg p f k failed)
  then show ?thesis using assms by (auto simp: wp_def workE_def bindE_def returnE_def log_at_def)
next
  case (2 env ctx am cfg p r q failed)
  then show ?thesis using assms by (auto intro!: wp_emit_update)
next
  case (3 env ctx am cfg p r failed)
  then show ?thesis using assms(1) by (auto intro!: wp_await_updates Q)
next
  case (4 env ctx am cfg p executed)
  have "Q (Finalized f) s'" if "snd s' = snd s" "fo_toolCall f = pr_toolCall p" for f s'
    using that 4 assms(1) by (auto intro!: Q simp: log_at_def)
  then show ?thesis using 4 by (auto intro!: wp_finalizeExecutedToolCall)
next
  case (5 env ctx am cfg f)
  then show ?thesis using assms by (auto intro!: wp_emitToolExecutionEnd [where l = "set_running R l"])
qed (use assms(2) in simp)

lemma run_entries_done: "ready_entries es = [] \<Longrightarrow> run_entries env ctx am cfg n es = returnE (map settled_outcome es)"
  by (rule ext) (subst run_entries.simps, simp)

lemma run_entries_step: "ready_entries es \<noteq> [] \<Longrightarrow> run_entries env ctx am cfg n es =
    bindE (askE (picked env n es)) (\<lambda>i. bindE (entry_step env ctx am cfg (es ! i)) (\<lambda>e.
      run_entries env ctx am cfg (Suc n) (es[i := e])))"
  by (rule ext) (subst run_entries.simps, simp)

lemma wp_run_entries:
  assumes "log_at (set_running (unsettled es) l) s" and "el_running l = {#}"
    and "\<And>fs s'. map fo_toolCall fs = map entry_call es \<Longrightarrow> log_at l s' \<Longrightarrow> Q fs s'"
  shows "wp (run_entries env ctx am cfg n es) Q readable s"
  using assms(1,3)
proof (induction es arbitrary: n s rule: entries_induct [where env = env and ctx = ctx and am = am and cfg = cfg])
  case (1 es)
  show ?case
  proof (cases "ready_entries es = []")
    case True
    then have all: "list_all is_settled es" by (simp add: ready_entries_Nil_iff)
    then have "map fo_toolCall (map settled_outcome es) = map entry_call es"
      by (induction es) (auto elim: is_settled.elims)
    moreover have "log_at l s"
      using 1(2) unsettled_settled [OF all] assms(2) by (metis set_running_simps(4))
    ultimately have "Q (map settled_outcome es) s" using 1(3) by blast
    then show ?thesis using True by (simp add: run_entries_done)
  next
    case False
    define i where "i = picked env n es (fst s)"
    have i: "i \<in> set (ready_entries es)" unfolding i_def using False by (rule picked_ready)
    then have len: "i < length es" and ns: "\<not> is_settled (es ! i)" by (auto simp: ready_entries_iff)
    define xs ys where "xs = take i es" and "ys = drop (Suc i) es"
    have es: "es = xs @ es ! i # ys" unfolding xs_def ys_def using len by (rule id_take_nth_drop)
    have upd: "es[i := e] = xs @ e # ys" for e unfolding xs_def ys_def using len by (rule upd_conv_take_nth_drop)
    have uns: "unsettled es = add_mset (tc_id (entry_call (es ! i))) (unsettled xs + unsettled ys)"
      by (subst es) (simp add: ns)
    have step: "wp (entry_step env ctx am cfg (es ! i))
        (\<lambda>e s'. entry_call e = entry_call (es ! i) \<and> log_at (set_running (unsettled (es[i := e])) l) s') readable s"
      by (rule wp_entry_step [where R = "unsettled xs + unsettled ys" and l = l])
        (use 1(2) uns ns upd in \<open>auto split: if_splits\<close>)
    have calls: "map entry_call (es[i := e]) = map entry_call es" if "entry_call e = entry_call (es ! i)" for e
      using that len by (simp add: map_update list_update_same_conv)
    have "wp (entry_step env ctx am cfg (es ! i)) (\<lambda>e. wp (run_entries env ctx am cfg (Suc n) (es[i := e])) Q readable) readable s"
    proof (cases "entry_step env ctx am cfg (es ! i) s")
      case (Some p)
      obtain r s' where p: "p = (r, s')" by (cases p)
      show ?thesis
      proof (cases r)
        case (Inr e)
        then have st: "entry_step env ctx am cfg (es ! i) s = Some (Inr e, s')" using Some p by simp
        then have "wp (run_entries env ctx am cfg (Suc n) (es[i := e])) Q readable s'"
          using 1(1) [OF i st] wp_Inr [OF step st] 1(3) calls by metis
        then show ?thesis using st by (simp add: wp_def)
      qed (use wp_Inl [OF step] Some p in \<open>simp add: wp_def\<close>)
    qed (simp add: wp_def)
    then show ?thesis using False by (simp add: run_entries_step i_def)
  qed
qed

text \<open>Without an abort every call of a batch is answered; with one, a prefix.\<close>

definition answers :: "'w loop_env \<Rightarrow> tool_call list \<Rightarrow> tool_call list \<Rightarrow> bool" where
  "answers env calls answered =
     (\<exists>n \<le> length calls. answered = take n calls \<and> ((\<forall>w. \<not> env_aborted env w) \<longrightarrow> n = length calls))"

lemma answers_Nil [simp]: "answers env [] xs \<longleftrightarrow> xs = []"
  by (simp add: answers_def)

lemma answers_Cons: "answers env cs as \<Longrightarrow> answers env (c # cs) (c # as)"
  unfolding answers_def by (metis Suc_le_mono length_Cons take_Suc_Cons)

lemma answers_first: "env_aborted env w \<Longrightarrow> answers env (c # cs) [c]"
  by (auto simp: answers_def intro!: exI [of _ 1])

lemma wp_prepare_entries:
  assumes "log_at (set_running (unsettled es) l) s" and "quiet l"
    and "\<And>es' cs s'. map entry_call es' = map entry_call es @ cs \<Longrightarrow> answers env tcs cs \<Longrightarrow>
      log_at (set_running (unsettled es') l) s' \<Longrightarrow> Q es' s'"
  shows "wp (prepare_entries env ctx am cfg tcs es) Q readable s"
  using assms(1,3)
proof (induction tcs arbitrary: es s Q)
  case (Cons tc tcs)
  define nx where "nx entry = wp (bindE (askE (env_aborted env)) (\<lambda>ab.
      if ab then returnE (es @ [entry]) else prepare_entries env ctx am cfg tcs (es @ [entry]))) Q readable" for entry
  have nxt: "nx entry s'"
    if "entry_call entry = tc" "log_at (set_running (unsettled (es @ [entry])) l) s'" for entry s'
  proof (cases "env_aborted env (fst s')")
    case True
    have "Q (es @ [entry]) s'"
      by (rule Cons.prems(2) [of _ "[tc]"]) (use that True in \<open>auto intro: answers_first\<close>)
    then show ?thesis using True by (simp add: nx_def)
  next
    case False
    have "wp (prepare_entries env ctx am cfg tcs (es @ [entry])) Q readable s'"
      by (rule Cons.IH [OF that(2)]) (use that(1) in \<open>auto intro!: Cons.prems(2) [where cs = "tc # _"] answers_Cons\<close>)
    then show ?thesis using False by (simp add: nx_def)
  qed
  have entry: "wp (case preparation of
        Immediate result isError \<Rightarrow>
          (let finalized = \<lparr>fo_toolCall = tc, fo_result = result, fo_isError = isError\<rparr>
           in bindE (emitToolExecutionEnd env finalized) (\<lambda>_. returnE (Settled finalized)))
      | Prepared p \<Rightarrow>
          returnE (Running p (tool_execute (pr_tool p) (tc_id (pr_toolCall p)) (pr_args p)) None)) nx readable s'"
    if "prepared_for tc preparation" "log_at (set_running (add_mset (tc_id tc) (unsettled es)) l) s'" for preparation s'
    using that
    by (cases preparation)
      (auto simp: prepared_for_def Let_def add_ac
        intro!: nxt wp_emitToolExecutionEnd [where l = "set_running (unsettled es) l"])
  have "wp (emit_tool_start env tc) (\<lambda>_. wp (prepareToolCall env ctx am tc cfg) (\<lambda>p. wp (case p of
        Immediate result isError \<Rightarrow>
          (let finalized = \<lparr>fo_toolCall = tc, fo_result = result, fo_isError = isError\<rparr>
           in bindE (emitToolExecutionEnd env finalized) (\<lambda>_. returnE (Settled finalized)))
      | Prepared p \<Rightarrow>
          returnE (Running p (tool_execute (pr_tool p) (tc_id (pr_toolCall p)) (pr_args p)) None)) nx readable) readable)
      readable s"
    by (rule wp_emit_tool_start [OF Cons.prems(1)])
      (auto intro!: wp_prepareToolCall entry simp: assms(2) elim: log_at_snd)
  then show ?case unfolding nx_def by simp
qed simp


definition answer_to :: "tool_call \<Rightarrow> tool_result_message \<Rightarrow> bool" where
  "answer_to tc m = (tr_toolCallId m = tc_id tc \<and> tr_toolName m = tc_name tc)"

lemma answer_to_create [simp]: "answer_to (fo_toolCall f) (createToolResultMessage ts f)"
  by (simp add: answer_to_def createToolResultMessage_def)

lemma wp_publish_results:
  assumes "log_at l s" and "idle l"
    and "\<And>ms' s'. list_all2 answer_to (map fo_toolCall fs) ms' \<Longrightarrow>
      log_at (add_messages (map ToolResultMsg ms') l) s' \<Longrightarrow> Q (ms @ ms') s'"
  shows "wp (publish_results env fs ms) Q readable s"
  using assms
proof (induction fs arbitrary: ms l s)
  case (Cons f fs)
  have "wp (publish_results env fs (ms @ [m])) Q readable s'"
    if m: "log_at (add_messages [ToolResultMsg m] l) s'" "m = createToolResultMessage ts f" for m ts s'
  proof (rule Cons.IH [OF m(1)])
    fix ms' and s'' :: "'a st"
    assume "list_all2 answer_to (map fo_toolCall fs) ms'"
      and "log_at (add_messages (map ToolResultMsg ms') (add_messages [ToolResultMsg m] l)) s''"
    then show "Q ((ms @ [m]) @ ms') s''" using Cons.prems(3) [of "m # ms'" s''] m(2) by simp
  qed (simp add: Cons.prems(2))
  then show ?case by (auto intro!: wp_publish_result [OF Cons.prems(1,2)])
qed simp

text \<open>
  What a batch delivers in a run that is not aborted: one result for each call, in the order of the
  calls, or for a prefix of them when a group of the batch asked to stop.
\<close>

definition never_aborted :: "'w loop_env \<Rightarrow> bool" where
  "never_aborted env = (\<forall>w. \<not> env_aborted env w)"

definition answered_by :: "tool_call list \<Rightarrow> tool_batch \<Rightarrow> bool" where
  "answered_by calls b =
     (\<exists>n \<le> length calls. list_all2 answer_to (take n calls) (tb_messages b) \<and>
        (\<not> tb_terminate b \<longrightarrow> n = length calls))"

lemma answers_never_aborted: "never_aborted env \<Longrightarrow> answers env calls cs \<Longrightarrow> cs = calls"
  by (auto simp: answers_def never_aborted_def)

lemma answered_by_all: "list_all2 answer_to calls (tb_messages b) \<Longrightarrow> answered_by calls b"
  by (auto simp: answered_by_def)

lemma idle_quiet: "idle l \<Longrightarrow> quiet l" "idle l \<Longrightarrow> el_running l = {#}"
  by (simp_all add: idle_def)

lemma wp_executeToolCallsParallel:
  assumes "log_at l s" and "idle l"
    and "\<And>b cs s'. answers env tcs cs \<Longrightarrow> list_all2 answer_to cs (tb_messages b) \<Longrightarrow>
      log_at (add_messages (map ToolResultMsg (tb_messages b)) l) s' \<Longrightarrow> Q b s'"
  shows "wp (executeToolCallsParallel env ctx am tcs cfg) Q readable s"
proof -
  have publish: "wp (publish_results env fs []) (\<lambda>ms. Q \<lparr>tb_messages = ms, tb_terminate = t\<rparr>) readable s'"
    if "log_at l s'" "answers env tcs (map fo_toolCall fs)" for fs t s'
    by (rule wp_publish_results [OF that(1) assms(2)]) (use that(2) assms(3) in auto)
  have "wp (run_entries env ctx am cfg 0 es)
      (\<lambda>fs. wp (publish_results env fs [])
        (\<lambda>ms. Q \<lparr>tb_messages = ms, tb_terminate = shouldTerminateToolBatch fs\<rparr>) readable) readable s'"
    if "map entry_call es = cs" "answers env tcs cs" "log_at (set_running (unsettled es) l) s'" for es cs s'
    by (rule wp_run_entries [OF that(3) idle_quiet(2) [OF assms(2)]]) (use that publish in auto)
  moreover have "log_at (set_running (unsettled []) l) s"
    using assms(1) idle_quiet(2) [OF assms(2)] by (metis set_running_simps(4) unsettled_simps(1))
  ultimately show ?thesis
    unfolding executeToolCallsParallel_def
    using idle_quiet(1) [OF assms(2)] by (auto intro!: wp_prepare_entries)
qed

lemma wp_sequential_loop:
  assumes "log_at l s" and "idle l"
    and "\<And>fs' ms' cs s'. answers env tcs cs \<Longrightarrow> list_all2 answer_to cs ms' \<Longrightarrow>
      log_at (add_messages (map ToolResultMsg ms') l) s' \<Longrightarrow> Q (fs', ms @ ms') s'"
  shows "wp (sequential_loop env ctx am cfg tcs fs ms) Q readable s"
  using assms
proof (induction tcs arbitrary: l s fs ms)
  case (Cons tc tcs)
  define nx where "nx f m = wp (bindE (askE (env_aborted env)) (\<lambda>ab.
      if ab then returnE (fs @ [f], ms @ [m])
      else sequential_loop env ctx am cfg tcs (fs @ [f]) (ms @ [m]))) Q readable" for f m
  have nxt: "nx f m s'" if m: "answer_to tc m" "log_at (add_messages [ToolResultMsg m] l) s'" for f m s'
  proof (cases "env_aborted env (fst s')")
    case True
    have "Q (fs @ [f], ms @ [m]) s'"
      by (rule Cons.prems(3) [of "[tc]"]) (use m True in \<open>auto intro: answers_first\<close>)
    then show ?thesis using True by (simp add: nx_def)
  next
    case False
    have "wp (sequential_loop env ctx am cfg tcs (fs @ [f]) (ms @ [m])) Q readable s'"
    proof (rule Cons.IH [OF m(2)])
      fix fs' ms' cs and s'' :: "'a st"
      assume "answers env tcs cs" "list_all2 answer_to cs ms'"
        "log_at (add_messages (map ToolResultMsg ms') (add_messages [ToolResultMsg m] l)) s''"
      then show "Q (fs', (ms @ [m]) @ ms') s''"
        using Cons.prems(3) [of "tc # cs" "m # ms'" s'' fs'] m(1) by (simp add: answers_Cons)
    qed (simp add: Cons.prems(2))
    then show ?thesis using False by (simp add: nx_def)
  qed
  have publish: "wp (publish_result env f) (nx f) readable s'"
    if "fo_toolCall f = tc" "log_at l s'" for f s'
    by (rule wp_publish_result [OF that(2) Cons.prems(2)]) (use that(1) nxt answer_to_create in metis)
  have settle: "wp (settle_call env ctx am cfg tc p)
      (\<lambda>f. wp (emitToolExecutionEnd env f) (\<lambda>_. wp (publish_result env f) (nx f) readable) readable) readable s'"
    if "prepared_for tc p" "log_at (start_running (tc_id tc) l) s'" for p s'
    by (rule wp_settle_call [OF that(2) _ that(1)]) (auto intro!: wp_emitToolExecutionEnd publish)
  have "wp (emit_tool_start env tc) (\<lambda>_. wp (prepareToolCall env ctx am tc cfg) (\<lambda>p.
      wp (settle_call env ctx am cfg tc p) (\<lambda>f. wp (emitToolExecutionEnd env f)
        (\<lambda>_. wp (publish_result env f) (nx f) readable) readable) readable) readable) readable s"
    by (rule wp_emit_tool_start [OF Cons.prems(1)])
      (auto intro!: wp_prepareToolCall settle simp: idle_quiet(1) [OF Cons.prems(2)] elim: log_at_snd)
  then show ?case unfolding nx_def by simp
qed simp

lemma wp_executeToolCallsSequential:
  assumes "log_at l s" and "idle l"
    and "\<And>b cs s'. answers env tcs cs \<Longrightarrow> list_all2 answer_to cs (tb_messages b) \<Longrightarrow>
      log_at (add_messages (map ToolResultMsg (tb_messages b)) l) s' \<Longrightarrow> Q b s'"
  shows "wp (executeToolCallsSequential env ctx am tcs cfg) Q readable s"
  unfolding executeToolCallsSequential_def
  using assms by (auto intro!: wp_sequential_loop simp: split_beta)


lemma wp_group_loop:
  assumes "log_at l s" and "idle l"
    and "\<And>b ms' s'. tb_messages b = ms @ ms' \<Longrightarrow> log_at (add_messages (map ToolResultMsg ms') l) s' \<Longrightarrow>
      (never_aborted env \<Longrightarrow> answered_by (concat gs) (b\<lparr>tb_messages := ms'\<rparr>)) \<Longrightarrow> Q b s'"
  shows "wp (group_loop env ctx am cfg gs ms) Q readable s"
  using assms
proof (induction gs arbitrary: l s ms)
  case Nil
  have "Q \<lparr>tb_messages = ms, tb_terminate = False\<rparr> s"
    by (rule Nil.prems(3) [of _ "[]"]) (simp_all add: Nil.prems(1) answered_by_all)
  then show ?case by simp
next
  case (Cons g gs)
  show ?case
  proof (cases "g = []")
    case True
    then show ?thesis using Cons.IH [OF Cons.prems(1,2), of ms] Cons.prems(3) by simp
  next
    case False
    define nx where "nx b = wp (bindE (askE (env_aborted env)) (\<lambda>ab.
        if tb_terminate b \<or> ab then returnE \<lparr>tb_messages = ms @ tb_messages b, tb_terminate = True\<rparr>
        else group_loop env ctx am cfg gs (ms @ tb_messages b))) Q readable" for b :: tool_batch
    have nxt: "nx b s'"
      if b: "answers env g cs" "list_all2 answer_to cs (tb_messages b)"
        "log_at (add_messages (map ToolResultMsg (tb_messages b)) l) s'" for b cs s'
    proof (cases "tb_terminate b \<or> env_aborted env (fst s')")
      case True
      have "answered_by (concat (g # gs)) \<lparr>tb_messages = tb_messages b, tb_terminate = True\<rparr>" if "never_aborted env"
        using answers_never_aborted [OF that b(1)] b(2) by (auto simp: answered_by_def intro!: exI [of _ "length g"])
      then have "Q \<lparr>tb_messages = ms @ tb_messages b, tb_terminate = True\<rparr> s'"
        by (intro Cons.prems(3) [of _ "tb_messages b"]) (use b(3) in simp_all)
      then show ?thesis using True by (simp add: nx_def)
    next
      case False
      have "wp (group_loop env ctx am cfg gs (ms @ tb_messages b)) Q readable s'"
      proof (rule Cons.IH [OF b(3)])
        fix b' ms' and s'' :: "'a st"
        assume b': "tb_messages b' = (ms @ tb_messages b) @ ms'"
          and at: "log_at (add_messages (map ToolResultMsg ms') (add_messages (map ToolResultMsg (tb_messages b)) l)) s''"
          and ans: "never_aborted env \<Longrightarrow> answered_by (concat gs) (b'\<lparr>tb_messages := ms'\<rparr>)"
        have "answered_by (concat (g # gs)) (b'\<lparr>tb_messages := tb_messages b @ ms'\<rparr>)" if na: "never_aborted env"
        proof -
          obtain n where "n \<le> length (concat gs)" "list_all2 answer_to (take n (concat gs)) ms'"
            "\<not> tb_terminate b' \<longrightarrow> n = length (concat gs)"
            using ans [OF na] by (auto simp: answered_by_def)
          then show ?thesis using b(2) answers_never_aborted [OF na b(1)]
            by (auto simp: answered_by_def intro!: exI [of _ "length g + n"] list_all2_appendI)
        qed
        then show "Q b' s''" by (intro Cons.prems(3) [of _ "tb_messages b @ ms'"]) (use b' at in simp_all)
      qed (simp add: Cons.prems(2))
      then show ?thesis using False by (simp add: nx_def)
    qed
    have "wp (executeToolCallsParallel env ctx am g cfg) nx readable s"
      by (rule wp_executeToolCallsParallel [OF Cons.prems(1,2)]) (use nxt in auto)
    then show ?thesis using False unfolding nx_def by simp
  qed
qed

text \<open>
  \<open>splits_calls cfg\<close>: the partition hook of the configuration, when it is called with calls whose ids
  are distinct, returns the calls cut into groups.
\<close>

definition splits_calls :: "'w agent_loop_config \<Rightarrow> bool" where
  "splits_calls cfg =
     (\<forall>f calls w gs w'. cfg_partitionToolCalls cfg = Some f \<and> distinct (map tc_id calls) \<and>
        f calls w = (Inr gs, w') \<longrightarrow> concat gs = calls)"

lemma splits_callsD:
  "splits_calls cfg \<Longrightarrow> cfg_partitionToolCalls cfg = Some f \<Longrightarrow> distinct (map tc_id calls) \<Longrightarrow>
   f calls w = (Inr gs, w') \<Longrightarrow> concat gs = calls"
  unfolding splits_calls_def by blast

lemma wp_executeToolCalls:
  assumes "log_at l s" and "idle l"
    and "\<And>b s'. log_at (add_messages (map ToolResultMsg (tb_messages b)) l) s' \<Longrightarrow>
      (never_aborted env \<Longrightarrow> splits_calls cfg \<Longrightarrow> distinct (map tc_id (tool_calls_of (am_content am))) \<Longrightarrow>
        answered_by (tool_calls_of (am_content am)) b) \<Longrightarrow> Q b s'"
  shows "wp (executeToolCalls env ctx am cfg) Q readable s"
proof -
  define calls where "calls = tool_calls_of (am_content am)"
  note post = assms(3) [folded calls_def]
  have seq: "wp (executeToolCallsSequential env ctx am calls cfg) Q readable s'" if "log_at l s'" for s'
    by (rule wp_executeToolCallsSequential [OF that assms(2)])
      (auto intro!: post answered_by_all dest: answers_never_aborted)
  have par: "wp (executeToolCallsParallel env ctx am g cfg) Q readable s'"
    if "log_at l s'" "splits_calls cfg \<Longrightarrow> distinct (map tc_id calls) \<Longrightarrow> g = calls" for g s'
    by (rule wp_executeToolCallsParallel [OF that(1) assms(2)])
      (use that(2) in \<open>auto intro!: post answered_by_all dest: answers_never_aborted\<close>)
  have grp: "wp (group_loop env ctx am cfg gs []) Q readable s'"
    if "log_at l s'" "splits_calls cfg \<Longrightarrow> distinct (map tc_id calls) \<Longrightarrow> concat gs = calls" for gs s'
    by (rule wp_group_loop [OF that(1) assms(2)]) (use that(2) in \<open>auto intro!: post\<close>)
  define run where "run gs = (if length gs \<le> 1
      then executeToolCallsParallel env ctx am (case gs of [] \<Rightarrow> calls | g # _ \<Rightarrow> g) cfg
      else group_loop env ctx am cfg gs [])" for gs
  have run: "wp (run gs) Q readable s'"
    if "log_at l s'" "splits_calls cfg \<Longrightarrow> distinct (map tc_id calls) \<Longrightarrow> concat gs = calls" for gs s'
    using that by (cases gs) (auto simp: run_def simp del: group_loop.simps intro!: par grp)
  have groups: "wp (case cfg_partitionToolCalls cfg of
        None \<Rightarrow> returnE [calls]
      | Some f \<Rightarrow> (if length calls > 1 then callE (f calls) else returnE [calls])) (\<lambda>gs. wp (run gs) Q readable) readable s'"
    if at: "log_at l s'" for s'
  proof (cases "cfg_partitionToolCalls cfg")
    case (Some f)
    have "wp (callE (f calls)) (\<lambda>gs. wp (run gs) Q readable) readable s'"
      using at Some
      by (auto simp: wp_callE log_at_def readable_def split: prod.split sum.split intro!: run dest: splits_callsD)
    then show ?thesis using Some run [OF at, of "[calls]"] by simp
  qed (use run [OF at, of "[calls]"] in simp)
  have "wp (case cfg_recordToolCalls cfg of
        None \<Rightarrow> returnE ()
      | Some record \<Rightarrow> (if length calls > 0 then callE (record calls) else returnE ()))
      (\<lambda>_. log_at l) readable s"
    using assms(1) by (auto split: option.split intro: wp_call_log)
  then show ?thesis
    unfolding executeToolCalls_def Let_def calls_def [symmetric] run_def [symmetric]
    by (auto elim!: wp_mono intro!: seq groups simp del: One_nat_def)
qed


section \<open>The reply\<close>

text \<open>The provider starts a reply at most once; its documentation puts \<open>start\<close> before the other events.\<close>

primrec starts_once :: "'w reply_events \<Rightarrow> bool \<Rightarrow> bool" where
  "starts_once REnd started = True"
| "starts_once (RThrow e) started = True"
| "starts_once (REvent event rest) started =
     (case event of
        EvStart _ \<Rightarrow> \<not> started \<and> starts_once rest True
      | EvUpdate _ _ \<Rightarrow> starts_once rest started
      | EvDone _ _ \<Rightarrow> True
      | EvError _ _ \<Rightarrow> True)"
| "starts_once (RWork f k) started = (\<forall>w. starts_once (k w) started)"

definition sound_stream :: "'w loop_env \<Rightarrow> bool" where
  "sound_stream env =
     (\<forall>model ctx cfg w r w'. env_streamFn env model ctx cfg w = (Inr r, w') \<longrightarrow> starts_once (rs_events r) False)"

lemma sound_streamD:
  "sound_stream env \<Longrightarrow> env_streamFn env model ctx cfg w = (Inr r, w') \<Longrightarrow> starts_once (rs_events r) False"
  unfolding sound_stream_def by blast

definition opened :: "bool \<Rightarrow> event_log \<Rightarrow> event_log" where
  "opened b l = (if b then l\<lparr>el_open := True\<rparr> else l)"

lemma log_step_open:
  "idle l \<Longrightarrow> log_step l (MessageStart m) = Some (opened True l)"
  "idle l \<Longrightarrow> log_step (opened True l) (MessageEnd m) = Some (add_messages [m] l)"
  "log_step (opened True l) (MessageUpdate ev m) = Some (opened True l)"
  by (simp_all add: log_step_def opened_def idle_def quiet_def add_messages_def)

lemma wp_finish_reply:
  assumes "log_at (opened added l) s" and "idle l"
    and "\<And>m ctx' s'. log_at (add_messages [AssistantMsg m] l) s' \<Longrightarrow> Q (m, ctx') s'"
  shows "wp (finish_reply env result ctx added) Q readable s"
proof -
  have fin: "wp (emitE (env_emit env) (MessageEnd (AssistantMsg m))) (\<lambda>_. Q (m, ctx')) readable s'"
    if "log_at (opened True l) s'" for m ctx' s'
    by (rule wp_emit_log [OF that log_step_open(2) [OF assms(2)]]) (rule assms(3))
  have st: "wp (if added then returnE () else emitE (env_emit env) (MessageStart (AssistantMsg m)))
      (\<lambda>_. log_at (opened True l)) readable s'" if "log_at (opened added l) s'" for m s'
    using that log_step_open(1) [OF assms(2)] by (auto simp: opened_def [of False] intro: wp_emit_log)
  have "wp (bindE (if added then returnE () else emitE (env_emit env) (MessageStart (AssistantMsg m))) (\<lambda>_.
      bindE (emitE (env_emit env) (MessageEnd (AssistantMsg m))) (\<lambda>_. returnE (m, ctx')))) Q readable s'"
    if "log_at (opened added l) s'" for m ctx' s'
    using wp_mono [OF st [OF that]] fin by (simp only: wp_bindE wp_returnE)
  then show ?thesis
    unfolding finish_reply_def Let_def by (simp only: wp_bindE) (auto intro!: wp_call_log [OF assms(1)] simp del: wp_if)
qed

lemma wp_consume_reply:
  assumes "log_at (opened added l) s" and "idle l" and "starts_once q added" and "added \<longleftrightarrow> part \<noteq> None"
    and "\<And>m ctx' s'. log_at (add_messages [AssistantMsg m] l) s' \<Longrightarrow> Q (m, ctx') s'"
  shows "wp (consume_reply q env result ctx part added) Q readable s"
  using assms(1,3,4)
proof (induction q arbitrary: s ctx part added)
  case REnd
  then show ?case by (auto intro!: wp_finish_reply assms(2,5))
next
  case (RThrow e)
  then show ?case by (simp add: log_at_readable)
next
  case (RWork f k)
  have "wp (consume_reply (k (f (fst s))) env result ctx part added) Q readable (f (fst s), snd s)"
    using RWork.prems by (intro RWork.IH) (auto simp: log_at_def)
  then show ?case by (simp add: wp_def)
next
  case (REvent event rest)
  show ?case
  proof (cases event)
    case (EvStart m)
    then have "log_at l s" using REvent.prems by (simp add: opened_def)
    then show ?thesis
      using EvStart REvent.prems(2)
      by (auto intro!: wp_emit_log [where l' = "opened True l"] REvent.IH simp: log_step_open assms(2))
  next
    case (EvUpdate kind m)
    then show ?thesis
      using REvent.prems
      by (cases part) (auto intro!: wp_emit_log [where l' = "opened True l"] REvent.IH simp: log_step_open)
  next
    case (EvDone r m)
    then show ?thesis using REvent.prems(1) by (auto intro!: wp_finish_reply assms(2,5))
  next
    case (EvError r m)
    then show ?thesis using REvent.prems(1) by (auto intro!: wp_finish_reply assms(2,5))
  qed
qed

lemma wp_streamAssistantResponse:
  assumes "log_at l s" and "idle l" and "sound_stream env"
    and "\<And>m ctx' s'. log_at (add_messages [AssistantMsg m] l) s' \<Longrightarrow> Q (m, ctx') s'"
  shows "wp (streamAssistantResponse env ctx cfg) Q readable s"
proof -
  have reply: "wp (callE (env_streamFn env model lc cfg'))
      (\<lambda>r. wp (consume_reply (rs_events r) env (rs_result r) ctx None False) Q readable) readable s'"
    if "log_at l s'" for model lc cfg' s'
    using that assms(2-)
    by (auto simp: wp_callE log_at_readable opened_def log_at_def readable_def
        intro!: wp_consume_reply [where l = l] dest: sound_streamD split: prod.split sum.split)
  show ?thesis
    unfolding streamAssistantResponse_def Let_def
    by (auto split: option.split intro!: wp_call_log reply assms(1))
qed

section \<open>Turns and runs\<close>

definition between :: "event_log \<Rightarrow> bool" where
  "between l = (el_phase l = BetweenTurns \<and> \<not> el_open l \<and> el_running l = {#})"

text \<open>Before a turn the log is between turns, or in the turn that the run opened for its prompts.\<close>

definition turn_ready :: "bool \<Rightarrow> event_log \<Rightarrow> bool" where
  "turn_ready first l = (if first then idle l else between l)"

definition set_phase :: "run_phase \<Rightarrow> event_log \<Rightarrow> event_log" where
  "set_phase p l = l\<lparr>el_phase := p\<rparr>"

lemma set_phase_simps [simp]:
  "el_messages (set_phase p l) = el_messages l" "el_phase (set_phase p l) = p"
  "idle l \<Longrightarrow> between (set_phase BetweenTurns l)" "between l \<Longrightarrow> idle (set_phase InTurn l)"
  by (simp_all add: set_phase_def idle_def quiet_def between_def)

lemma log_step_phases:
  "between l \<Longrightarrow> log_step l TurnStart = Some (set_phase InTurn l)"
  "between l \<Longrightarrow> log_step l (AgentEnd (el_messages l)) = Some (set_phase AfterRun l)"
  "idle l \<Longrightarrow> el_messages l = pre @ m # map ToolResultMsg rs \<Longrightarrow>
    log_step l (TurnEnd m rs) = Some (set_phase BetweenTurns l)"
  by (simp_all add: log_step_def set_phase_def between_def idle_def)

text \<open>What holds where a turn stops the run, or leaves it in a state to go on from.\<close>

definition run_ended :: "agent_message list \<Rightarrow> agent_message list \<Rightarrow> 'w st \<Rightarrow> bool" where
  "run_ended prompts ms s =
     (\<exists>l. log_at l s \<and> el_phase l = AfterRun \<and> el_messages l = ms \<and> last (snd s) = AgentEnd ms \<and> prefix prompts ms)"

definition loop_inv :: "agent_message list \<Rightarrow> 'w loop_state \<Rightarrow> 'w st \<Rightarrow> bool" where
  "loop_inv prompts ls s =
     (\<exists>l. log_at l s \<and> turn_ready (ls_firstTurn ls) l \<and> el_messages l = ls_newMessages ls \<and>
        prefix prompts (ls_newMessages ls))"

definition turn_post :: "agent_message list \<Rightarrow> 'w turn_result \<Rightarrow> 'w st \<Rightarrow> bool" where
  "turn_post prompts r s =
     (case r of Stop ms \<Rightarrow> run_ended prompts ms s | Next ls \<Rightarrow> loop_inv prompts ls s \<and> \<not> ls_firstTurn ls)"

lemma wp_agent_end:
  assumes "log_at l s" and "between l" and "el_messages l = ms" and "prefix prompts ms"
    and "\<And>s'. run_ended prompts ms s' \<Longrightarrow> Q () s'"
  shows "wp (emitE sink (AgentEnd ms)) Q readable s"
proof -
  have "log_at (set_phase AfterRun l) (w, snd s @ [AgentEnd ms])" for w :: 'a
    using assms(1,3) log_step_phases(2) [OF assms(2)] by (simp add: log_at_def read_log_snoc)
  then show ?thesis using assms(3,4)
    by (intro wp_emitE_any assms(5))
      (auto simp: run_ended_def intro: log_at_readable [of "set_phase AfterRun l"] intro!: exI [of _ "set_phase AfterRun l"])
qed

lemma apply_turn_update_simps [simp]:
  "ls_newMessages (apply_turn_update u l) = ls_newMessages l"
  "ls_firstTurn (apply_turn_update u l) = ls_firstTurn l"
  by (simp_all add: apply_turn_update_def split: option.split)

lemma wp_end_turn:
  assumes "log_at l s" and "idle l" and "el_messages l = pre @ AssistantMsg m # map ToolResultMsg rs"
    and "ls_newMessages ls = el_messages l" and "\<not> ls_firstTurn ls" and "prefix prompts (el_messages l)"
  shows "wp (end_turn env m rs ls) (turn_post prompts) readable s"
proof -
  let ?l = "set_phase BetweenTurns l"
  have bt: "between ?l" using assms(2) by simp
  have stop: "wp (emitE (env_emit env) (AgentEnd (ls_newMessages ls))) (\<lambda>_. turn_post prompts (Stop (ls_newMessages ls))) readable s'"
    if "log_at ?l s'" for s' :: "'a st"
    by (rule wp_agent_end [OF that bt]) (use assms(4,6) in \<open>auto simp: turn_post_def\<close>)
  have go: "turn_post prompts (Next (ls'\<lparr>ls_pendingMessages := p\<rparr>)) s'"
    if "log_at ?l s'" "ls_newMessages ls' = ls_newMessages ls" "\<not> ls_firstTurn ls'" for ls' :: "'a loop_state" and p s'
    using that bt assms(4,6) by (auto simp: turn_post_def loop_inv_def turn_ready_def intro!: exI [of _ ?l])
  have "wp (emitE (env_emit env) (TurnEnd (AssistantMsg m) rs)) (\<lambda>_. log_at ?l) readable s"
    using log_step_phases(3) [OF assms(2,3)] by (auto intro: wp_emit_log [OF assms(1)])
  then show ?thesis
    unfolding end_turn_def Let_def
    by (auto elim!: wp_mono intro!: wp_call_opt_log stop go simp: assms(5))
qed


lemma wp_inject_pending:
  assumes "log_at l s" and "idle l"
    and "\<And>ls' s'. log_at (add_messages (ls_pendingMessages ls) l) s' \<Longrightarrow>
      ls_newMessages ls' = ls_newMessages ls @ ls_pendingMessages ls \<Longrightarrow>
      ls_firstTurn ls' = ls_firstTurn ls \<Longrightarrow> Q ls' s'"
  shows "wp (inject_pending env ls) Q readable s"
  unfolding inject_pending_def using assms by (auto intro!: wp_emit_messages)

lemma wp_after_reply:
  assumes "log_at l s" and "idle l" and "el_messages l = pre @ [AssistantMsg m]"
    and "ls_newMessages ls = el_messages l" and "\<not> ls_firstTurn ls" and "prefix prompts (el_messages l)"
  shows "wp (after_reply env m ls) (turn_post prompts) readable s"
proof -
  have "wp (emitE (env_emit env) (TurnEnd (AssistantMsg m) [])) (\<lambda>_. wp (emitE (env_emit env)
      (AgentEnd (ls_newMessages ls))) (\<lambda>_. turn_post prompts (Stop (ls_newMessages ls))) readable) readable s"
  proof (rule wp_emit_log [OF assms(1)])
    show "log_step l (TurnEnd (AssistantMsg m) []) = Some (set_phase BetweenTurns l)"
      using assms(3) by (intro log_step_phases(3) [OF assms(2)]) simp
    show "wp (emitE (env_emit env) (AgentEnd (ls_newMessages ls)))
        (\<lambda>_. turn_post prompts (Stop (ls_newMessages ls))) readable s'"
      if "log_at (set_phase BetweenTurns l) s'" for s' :: "'a st"
      by (rule wp_agent_end [OF that]) (use assms in \<open>auto simp: turn_post_def\<close>)
  qed
  moreover have "wp (executeToolCalls env ctx m cfg)
      (\<lambda>b. wp (end_turn env m (tb_messages b) (upd b)) (turn_post prompts) readable) readable s"
    if "\<And>b. \<not> ls_firstTurn (upd b) \<and> ls_newMessages (upd b) = ls_newMessages ls @ map ToolResultMsg (tb_messages b)"
    for ctx cfg upd
    by (rule wp_executeToolCalls [OF assms(1,2)])
      (use that assms in \<open>auto intro!: wp_end_turn [where pre = pre]\<close>)
  moreover have "wp (end_turn env m [] upd) (turn_post prompts) readable s"
    if "\<not> ls_firstTurn upd" "ls_newMessages upd = ls_newMessages ls" for upd
    by (rule wp_end_turn [OF assms(1,2), where pre = pre]) (use that assms in auto)
  ultimately show ?thesis using assms(5) by (simp add: after_reply_def)
qed

lemma wp_run_turn:
  assumes "loop_inv prompts ls s" and "sound_stream env"
  shows "wp (run_turn env ls) (turn_post prompts) readable s"
proof -
  obtain l0 where l0: "log_at l0 s" "turn_ready (ls_firstTurn ls) l0" "el_messages l0 = ls_newMessages ls"
    "prefix prompts (ls_newMessages ls)" using assms(1) by (auto simp: loop_inv_def)
  define l where "l = (if ls_firstTurn ls then l0 else set_phase InTurn l0)"
  have l: "idle l" "el_messages l = ls_newMessages ls" using l0(2,3) by (auto simp: l_def turn_ready_def)
  have start: "wp (if ls_firstTurn ls then returnE () else emitE (env_emit env) TurnStart) (\<lambda>_. log_at l) readable s"
    using l0(1,2) log_step_phases(1) by (auto simp: l_def turn_ready_def intro: wp_emit_log)
  define tail where "tail ls' = bindE (streamAssistantResponse env (ls_context ls') (ls_config ls')) (\<lambda>(message, ctx).
      after_reply env message
        (ls'\<lparr>ls_context := ctx, ls_newMessages := ls_newMessages ls' @ [AssistantMsg message]\<rparr>))" for ls'
  have tail: "wp (tail ls') (turn_post prompts) readable s'"
    if "log_at la s'" "idle la" "el_messages la = ls_newMessages ls'" "\<not> ls_firstTurn ls'"
      "prefix prompts (ls_newMessages ls')" for ls' s' la
    unfolding tail_def using that
    by (auto intro!: wp_streamAssistantResponse [OF that(1,2) assms(2)] wp_after_reply)
  have "wp (inject_pending env (ls\<lparr>ls_firstTurn := False\<rparr>)) (\<lambda>ls'. wp (tail ls') (turn_post prompts) readable) readable s'"
    if "log_at l s'" for s'
    by (rule wp_inject_pending [OF that l(1)])
      (use l l0(4) in \<open>auto intro!: tail [where la = "add_messages (ls_pendingMessages ls) l"]\<close>)
  then show ?thesis
    unfolding run_turn_def tail_def [symmetric] using wp_mono [OF start] by simp
qed


lemma wp_loop_turns:
  assumes "I l s"
    and turn: "\<And>l s. I l s \<Longrightarrow> wp (run_turn env l) (\<lambda>r. case r of Stop ms \<Rightarrow> Q ms | Next l' \<Rightarrow> I l') E s"
    and follow: "\<And>l s. I l s \<Longrightarrow> \<not> ls_hasMoreToolCalls l \<Longrightarrow>
      wp (call_optE [] (cfg_getFollowUpMessages (ls_config l))) (\<lambda>ms s'.
        if ms \<noteq> [] then I (l\<lparr>ls_pendingMessages := ms, ls_hasMoreToolCalls := True\<rparr>) s'
        else wp (emitE (env_emit env) (AgentEnd (ls_newMessages l))) (\<lambda>_. Q (ls_newMessages l)) E s') E s"
  shows "wp (loop_turns env l) Q E s"
proof -
  define R where "R y = (case y of (Inl e, s') \<Rightarrow> E e s' | (Inr a, s') \<Rightarrow> Q a s')"
    for y :: "(string + agent_message list) \<times> 'a st"
  have wp_R: "wp m Q E s \<longleftrightarrow> (\<forall>y. m s = Some y \<longrightarrow> R y)" for m s
    by (auto simp: wp_def R_def split: option.split prod.split sum.split)
  have "env = env \<longrightarrow> I l s \<longrightarrow> R y" if "loop_turns env l s = Some y" for y
  proof (rule loop_turns.raw_induct [where P = "\<lambda>env' l s y. env' = env \<longrightarrow> I l s \<longrightarrow> R y", OF _ that], goal_cases)
    case (1 loop env' l s y)
    show ?case
    proof (intro impI)
      assume env: "env' = env" and inv: "I l s"
      have rec: "wp (loop env l') Q E s'" if "I l' s'" for l' s'
        unfolding wp_R using 1(1) that by simp
      have "wp (\<lambda>s. case r of Stop ms \<Rightarrow> returnE ms s | Next l' \<Rightarrow> loop env l' s) Q E s'"
        if "(case r of Stop ms \<Rightarrow> Q ms | Next l' \<Rightarrow> I l') s'" for r s'
        by (cases r) (use that rec in simp_all)
      then have "wp (bindE (run_turn env l) (\<lambda>r s. case r of Stop ms \<Rightarrow> returnE ms s | Next l' \<Rightarrow> loop env l' s)) Q E s"
        unfolding wp_bindE by (intro wp_mono [OF turn [OF inv]])
      moreover have "wp (bindE (call_optE [] (cfg_getFollowUpMessages (ls_config l))) (\<lambda>ms s.
          if length ms > 0 then loop env (l\<lparr>ls_pendingMessages := ms, ls_hasMoreToolCalls := True\<rparr>) s
          else bindE (emitE (env_emit env) (AgentEnd (ls_newMessages l))) (\<lambda>_. returnE (ls_newMessages l)) s)) Q E s"
        if "\<not> ls_hasMoreToolCalls l"
      proof -
        have "wp (\<lambda>s. if length ms > 0 then loop env (l\<lparr>ls_pendingMessages := ms, ls_hasMoreToolCalls := True\<rparr>) s
            else bindE (emitE (env_emit env) (AgentEnd (ls_newMessages l))) (\<lambda>_. returnE (ls_newMessages l)) s) Q E s'"
          if "if ms \<noteq> [] then I (l\<lparr>ls_pendingMessages := ms, ls_hasMoreToolCalls := True\<rparr>) s'
            else wp (emitE (env_emit env) (AgentEnd (ls_newMessages l))) (\<lambda>_. Q (ls_newMessages l)) E s'" for ms s'
          by (cases "ms = []") (use that rec in simp_all)
        then show ?thesis unfolding wp_bindE by (intro wp_mono [OF follow [OF inv that]])
      qed
      ultimately show "R y" using 1(2) env unfolding wp_R by (cases y) (auto split: if_splits)
    qed
  qed
  then show ?thesis unfolding wp_R using assms(1) by blast
qed


lemma wp_runLoop:
  assumes "log_at l s" and "idle l" and "el_messages l = newMessages" and "sound_stream env"
  shows "wp (runLoop env ctx newMessages cfg) (run_ended newMessages) readable s"
proof -
  define I where "I ls s = (loop_inv newMessages ls s \<and> (ls_firstTurn ls \<longrightarrow> ls_hasMoreToolCalls ls))"
    for ls :: "'a loop_state" and s
  have turn: "wp (run_turn env ls) (\<lambda>r. case r of Stop ms \<Rightarrow> run_ended newMessages ms | Next ls' \<Rightarrow> I ls') readable s'"
    if "I ls s'" for ls s'
    by (rule wp_mono [OF wp_run_turn [OF _ assms(4)]])
      (use that in \<open>auto simp: I_def turn_post_def split: turn_result.splits\<close>)
  have follow: "wp (call_optE [] h) (\<lambda>ms s'.
      if ms \<noteq> [] then I (ls\<lparr>ls_pendingMessages := ms, ls_hasMoreToolCalls := True\<rparr>) s'
      else wp (emitE (env_emit env) (AgentEnd (ls_newMessages ls))) (\<lambda>_. run_ended newMessages (ls_newMessages ls)) readable s')
      readable s'"
    if "I ls s'" "\<not> ls_hasMoreToolCalls ls" for ls s' h
  proof -
    from that obtain l where l: "log_at l s'" "between l" "el_messages l = ls_newMessages ls"
      "prefix newMessages (ls_newMessages ls)" "\<not> ls_firstTurn ls"
      by (auto simp: I_def loop_inv_def turn_ready_def)
    then have "I (ls\<lparr>ls_pendingMessages := ms, ls_hasMoreToolCalls := True\<rparr>) s''" if "log_at l s''" for ms s''
      using that by (auto simp: I_def loop_inv_def turn_ready_def)
    moreover have "wp (emitE (env_emit env) (AgentEnd (ls_newMessages ls))) (\<lambda>_. run_ended newMessages (ls_newMessages ls)) readable s''"
      if "log_at l s''" for s''
      by (rule wp_agent_end [OF that l(2,3,4)])
    ultimately show ?thesis using l(1) by (auto intro!: wp_call_opt_log)
  qed
  have "wp (loop_turns env \<lparr>ls_context = ctx, ls_newMessages = newMessages, ls_config = cfg, ls_firstTurn = True,
      ls_hasMoreToolCalls = True, ls_pendingMessages = p\<rparr>) (run_ended newMessages) readable s'"
    if "log_at l s'" for p s'
  proof (rule wp_loop_turns [where I = I])
    show "I \<lparr>ls_context = ctx, ls_newMessages = newMessages, ls_config = cfg, ls_firstTurn = True,
        ls_hasMoreToolCalls = True, ls_pendingMessages = p\<rparr> s'"
      using that assms(2,3) by (auto simp: I_def loop_inv_def turn_ready_def)
  qed (rule turn follow; assumption)+
  then show ?thesis unfolding runLoop_def by (auto intro!: wp_call_opt_log [OF assms(1)])
qed

lemma read_log_begin: "read_log [] = Some empty_log"
  by (simp add: read_log_def)

lemma wp_begin_run:
  assumes "\<And>l s'. log_at l s' \<Longrightarrow> idle l \<Longrightarrow> el_messages l = [] \<Longrightarrow> wp m Q readable s'"
  shows "wp (bindE (emitE sink AgentStart) (\<lambda>_. bindE (emitE sink TurnStart) (\<lambda>_. m))) Q readable (w, [])"
proof -
  let ?l = "empty_log\<lparr>el_phase := BetweenTurns\<rparr>"
  have "log_at empty_log (w, [])" by (simp add: log_at_def read_log_begin)
  moreover have "log_step empty_log AgentStart = Some ?l" by (simp add: log_step_def empty_log_def)
  moreover have "log_step ?l TurnStart = Some (?l\<lparr>el_phase := InTurn\<rparr>)" by (simp add: log_step_def)
  moreover have "idle (?l\<lparr>el_phase := InTurn\<rparr>)" "el_messages (?l\<lparr>el_phase := InTurn\<rparr>) = []"
    by (simp_all add: idle_def quiet_def empty_log_def)
  ultimately show ?thesis using assms by (auto intro!: wp_emit_log)
qed

lemma wp_runAgentLoop:
  assumes "sound_stream env"
  shows "wp (runAgentLoop env prompts ctx cfg) (run_ended prompts) readable (w, [])"
proof -
  have "wp (for_eachE (emit_message env) prompts)
      (\<lambda>_. wp (runLoop env ctx' prompts cfg) (run_ended prompts) readable) readable s'"
    if "log_at l s'" "idle l" "el_messages l = []" for l s' ctx'
    by (rule wp_emit_messages [OF that(1,2)]) (use that assms in \<open>auto intro!: wp_runLoop\<close>)
  then show ?thesis unfolding runAgentLoop_def by (intro wp_begin_run) simp
qed

lemma wp_runAgentLoopContinue:
  assumes "sound_stream env"
  shows "wp (runAgentLoopContinue env ctx cfg) (run_ended []) readable (w, [])"
proof -
  have "wp (runLoop env ctx [] cfg) (run_ended []) readable s'"
    if "log_at l s'" "idle l" "el_messages l = []" for l s'
    by (rule wp_runLoop) (use that assms in auto)
  then have "wp (bindE (emitE (env_emit env) AgentStart) (\<lambda>_. bindE (emitE (env_emit env) TurnStart)
      (\<lambda>_. runLoop env ctx [] cfg))) (run_ended []) readable (w, [])" by (rule wp_begin_run)
  then show ?thesis by (simp add: runAgentLoopContinue_def readable_def read_log_begin)
qed

text \<open>The completed messages of a log are the messages of its \<open>message_end\<close> events.\<close>

fun ended_message :: "agent_event \<Rightarrow> agent_message option" where
  "ended_message (MessageEnd m) = Some m"
| "ended_message _ = None"

definition ended_messages :: "agent_event list \<Rightarrow> agent_message list" where
  "ended_messages evs = List.map_filter ended_message evs"

lemma log_step_messages: "log_step l ev = Some l' \<Longrightarrow> el_messages l' = el_messages l @ ended_messages [ev]"
  by (cases ev) (auto simp: log_step_def ended_messages_def map_filter_simps split: if_splits)

lemma read_log_messages: "read_log evs = Some l \<Longrightarrow> el_messages l = ended_messages evs"
proof (induction evs arbitrary: l rule: rev_induct)
  case Nil
  then show ?case by (auto simp: read_log_begin empty_log_def ended_messages_def map_filter_simps)
next
  case (snoc ev evs)
  then show ?case
    by (auto simp: read_log_snoc ended_messages_def map_filter_append map_filter_simps bind_eq_Some_conv
        dest!: log_step_messages)
qed

end
