(* ===== verification/LoopInvariant.thy ===== *)
theory LoopInvariant
  imports AgentEvents
begin

text \<open>
  What a client of the agent loop may rely on: an invariant of the world and the emitted events that
  every callback, tool and provider keeps, and that every emission takes along, holds whenever the
  loop returns or throws. The loop is the provider of the contract \<open>loop_client\<close>; the class
  \<open>Agent\<close> is the client that instantiates it.
\<close>

section \<open>Keeping an invariant\<close>

definition ensures :: "('w st \<Rightarrow> bool) \<Rightarrow> ('w, 'a) eff \<Rightarrow> ('a \<Rightarrow> bool) \<Rightarrow> bool" where
  "ensures J m P = (\<forall>s. J s \<longrightarrow> wp m (\<lambda>a s'. J s' \<and> P a) (\<lambda>_. J) s)"

abbreviation keeps :: "('w st \<Rightarrow> bool) \<Rightarrow> ('w, 'a) eff \<Rightarrow> bool" where
  "keeps J m \<equiv> ensures J m (\<lambda>_. True)"

definition hook_keeps :: "('w st \<Rightarrow> bool) \<Rightarrow> ('w, 'a) hook \<Rightarrow> bool" where
  "hook_keeps J h = (\<forall>w t r w'. J (w, t) \<and> h w = (r, w') \<longrightarrow> J (w', t))"

lemma ensures_wp: "ensures J m P \<Longrightarrow> J s \<Longrightarrow> wp m (\<lambda>a s'. J s' \<and> P a) (\<lambda>_. J) s"
  unfolding ensures_def by blast

lemma ensuresI: "(\<And>s. J s \<Longrightarrow> wp m (\<lambda>a s'. J s' \<and> P a) (\<lambda>_. J) s) \<Longrightarrow> ensures J m P"
  unfolding ensures_def by blast

lemma ensures_returnE [intro]: "P a \<Longrightarrow> ensures J (returnE a) P"
  by (simp add: ensures_def)

lemma ensures_throwE [simp, intro]: "ensures J (throwE e) P"
  by (simp add: ensures_def)

lemma ensures_askE [intro]: "(\<And>a. P a) \<Longrightarrow> ensures J (askE f) P"
  by (simp add: ensures_def)

lemma ensures_liftE [intro]: "(\<And>a. r = Inr a \<Longrightarrow> P a) \<Longrightarrow> ensures J (liftE r) P"
  by (simp add: ensures_def split: sum.split)

lemma ensures_bindE:
  assumes "ensures J m P" and "\<And>a. P a \<Longrightarrow> ensures J (k a) P'"
  shows "ensures J (bindE m k) P'"
proof (rule ensuresI)
  fix s assume "J s"
  from ensures_wp [OF assms(1) this] show "wp (bindE m k) (\<lambda>a s'. J s' \<and> P' a) (\<lambda>_. J) s"
    unfolding wp_bindE by (rule wp_mono) (use ensures_wp [OF assms(2)] in blast)+
qed

lemma ensures_then:
  assumes "keeps J m" and "\<And>a. ensures J (k a) P'"
  shows "ensures J (bindE m k) P'"
  by (rule ensures_bindE [OF assms(1)]) (rule assms(2))

lemma ensures_catchE:
  assumes "ensures J m P" and "\<And>e. ensures J (h e) P"
  shows "ensures J (catchE m h) P"
proof (rule ensuresI)
  fix s assume "J s"
  from ensures_wp [OF assms(1) this] show "wp (catchE m h) (\<lambda>a s'. J s' \<and> P a) (\<lambda>_. J) s"
    unfolding wp_catchE by (rule wp_mono) (use ensures_wp [OF assms(2)] in blast)+
qed

lemma ensures_if [intro]: "(b \<Longrightarrow> ensures J m P) \<Longrightarrow> (\<not> b \<Longrightarrow> ensures J n P) \<Longrightarrow> ensures J (if b then m else n) P"
  by simp

lemma ensures_weaken: "ensures J m P \<Longrightarrow> (\<And>a. P a \<Longrightarrow> P' a) \<Longrightarrow> ensures J m P'"
  unfolding ensures_def by (blast intro: wp_mono)

lemma ensures_callE:
  assumes "hook_keeps J h" and "\<And>w a w'. h w = (Inr a, w') \<Longrightarrow> P a"
  shows "ensures J (callE h) P"
proof (rule ensuresI)
  fix s assume J: "J s"
  obtain r w' where h: "h (fst s) = (r, w')" by (cases "h (fst s)")
  have "J (w', snd s)" using assms(1) J h unfolding hook_keeps_def by (metis prod.collapse)
  then show "wp (callE h) (\<lambda>a s'. J s' \<and> P a) (\<lambda>_. J) s"
    using h assms(2) by (cases r) (auto simp: wp_callE)
qed

lemma keeps_callE: "hook_keeps J h \<Longrightarrow> keeps J (callE h)"
  by (auto simp: ensures_def wp_callE hook_keeps_def split: prod.split sum.split)

lemma keeps_call_optE: "(\<And>f. h = Some f \<Longrightarrow> hook_keeps J f) \<Longrightarrow> keeps J (call_optE d h)"
  by (auto simp: call_optE_def intro!: keeps_callE split: option.split)

lemma keeps_for_eachE: "(\<And>x. keeps J (f x)) \<Longrightarrow> keeps J (for_eachE f xs)"
  by (induction xs) (auto intro!: ensures_then)

section \<open>Good callbacks\<close>

primrec good_proc :: "('w st \<Rightarrow> bool) \<Rightarrow> 'w tool_proc \<Rightarrow> bool" where
  "good_proc J (TDone r) = True"
| "good_proc J (TUpdate r q) = good_proc J q"
| "good_proc J (TWork f k) = ((\<forall>w t. J (w, t) \<longrightarrow> J (f w, t)) \<and> (\<forall>w. good_proc J (k w)))"

primrec good_reply :: "('w st \<Rightarrow> bool) \<Rightarrow> 'w reply_events \<Rightarrow> bool" where
  "good_reply J REnd = True"
| "good_reply J (RThrow e) = True"
| "good_reply J (REvent ev q) = good_reply J q"
| "good_reply J (RWork f k) = ((\<forall>w t. J (w, t) \<longrightarrow> J (f w, t)) \<and> (\<forall>w. good_reply J (k w)))"

definition good_tool :: "('w st \<Rightarrow> bool) \<Rightarrow> 'w agent_tool \<Rightarrow> bool" where
  "good_tool J t = (\<forall>i args. good_proc J (tool_execute t i args))"

definition good_context :: "('w st \<Rightarrow> bool) \<Rightarrow> 'w agent_context \<Rightarrow> bool" where
  "good_context J c = (\<forall>ts. ac_tools c = Some ts \<longrightarrow> (\<forall>t\<in>set ts. good_tool J t))"

definition good_update :: "('w st \<Rightarrow> bool) \<Rightarrow> 'w turn_update option \<Rightarrow> bool" where
  "good_update J u = (\<forall>v c. u = Some v \<and> tu_context v = Some c \<longrightarrow> good_context J c)"

definition good_config :: "('w st \<Rightarrow> bool) \<Rightarrow> 'w agent_loop_config \<Rightarrow> bool" where
  "good_config J cfg =
     ((\<forall>ms. hook_keeps J (cfg_convertToLlm cfg ms)) \<and>
      (\<forall>f ms. cfg_transformContext cfg = Some f \<longrightarrow> hook_keeps J (f ms)) \<and>
      (\<forall>f p. cfg_getApiKey cfg = Some f \<longrightarrow> hook_keeps J (f p)) \<and>
      (\<forall>f c. cfg_shouldStopAfterTurn cfg = Some f \<longrightarrow> hook_keeps J (f c)) \<and>
      (\<forall>f c. cfg_prepareNextTurn cfg = Some f \<longrightarrow>
        hook_keeps J (f c) \<and> (\<forall>w u w'. f c w = (Inr u, w') \<longrightarrow> good_update J u)) \<and>
      (\<forall>f. cfg_getSteeringMessages cfg = Some f \<longrightarrow> hook_keeps J f) \<and>
      (\<forall>f. cfg_getFollowUpMessages cfg = Some f \<longrightarrow> hook_keeps J f) \<and>
      (\<forall>f cs. cfg_partitionToolCalls cfg = Some f \<longrightarrow> hook_keeps J (f cs)) \<and>
      (\<forall>f cs. cfg_recordToolCalls cfg = Some f \<longrightarrow> hook_keeps J (f cs)) \<and>
      (\<forall>f c. cfg_beforeToolCall cfg = Some f \<longrightarrow> hook_keeps J (f c)) \<and>
      (\<forall>f c. cfg_afterToolCall cfg = Some f \<longrightarrow> hook_keeps J (f c)))"

lemma good_configD:
  assumes "good_config J cfg"
  shows "hook_keeps J (cfg_convertToLlm cfg ms)"
    and "cfg_transformContext cfg = Some f1 \<Longrightarrow> hook_keeps J (f1 ms)"
    and "cfg_getApiKey cfg = Some f2 \<Longrightarrow> hook_keeps J (f2 p)"
    and "cfg_shouldStopAfterTurn cfg = Some f3 \<Longrightarrow> hook_keeps J (f3 c)"
    and "cfg_prepareNextTurn cfg = Some f4 \<Longrightarrow> hook_keeps J (f4 c)"
    and "cfg_prepareNextTurn cfg = Some f4 \<Longrightarrow> f4 c w = (Inr u, w') \<Longrightarrow> good_update J u"
    and "cfg_getSteeringMessages cfg = Some f5 \<Longrightarrow> hook_keeps J f5"
    and "cfg_getFollowUpMessages cfg = Some f6 \<Longrightarrow> hook_keeps J f6"
    and "cfg_partitionToolCalls cfg = Some f7 \<Longrightarrow> hook_keeps J (f7 cs)"
    and "cfg_recordToolCalls cfg = Some f8 \<Longrightarrow> hook_keeps J (f8 cs)"
    and "cfg_beforeToolCall cfg = Some f9 \<Longrightarrow> hook_keeps J (f9 bc)"
    and "cfg_afterToolCall cfg = Some f10 \<Longrightarrow> hook_keeps J (f10 afc)"
  using assms by (auto simp: good_config_def, blast)

lemma good_context_tool: "good_context J ctx \<Longrightarrow> find_tool ctx n = Some t \<Longrightarrow> good_tool J t"
  by (auto simp: good_context_def find_tool_def find_Some_iff split: option.splits)

lemma good_context_messages [simp]: "good_context J (ctx\<lparr>ac_messages := ms\<rparr>) = good_context J ctx"
  by (simp add: good_context_def)

lemma good_context_push [simp]:
  "good_context J (push_message m ctx) = good_context J ctx"
  "good_context J (replace_last_message m ctx) = good_context J ctx"
  "good_context J (fold push_message ms ctx) = good_context J ctx"
proof -
  show push: "good_context J (push_message m ctx) = good_context J ctx" for m ctx
    by (simp add: push_message_def)
  show "good_context J (fold push_message ms ctx) = good_context J ctx"
    by (induction ms arbitrary: ctx) (simp_all add: push)
qed (simp add: replace_last_message_def)

definition good_prepared :: "('w st \<Rightarrow> bool) \<Rightarrow> 'w preparation \<Rightarrow> bool" where
  "good_prepared J p = (case p of Prepared q \<Rightarrow> good_tool J (pr_tool q) | Immediate _ _ \<Rightarrow> True)"

lemma good_prepared_simps [simp]:
  "good_prepared J (Prepared q) = good_tool J (pr_tool q)" "good_prepared J (Immediate r e)"
  by (simp_all add: good_prepared_def)

fun good_entry :: "('w st \<Rightarrow> bool) \<Rightarrow> 'w entry_state \<Rightarrow> bool" where
  "good_entry J (Running p q failed) = good_proc J q"
| "good_entry J e = True"

definition good_turn :: "('w st \<Rightarrow> bool) \<Rightarrow> 'w turn_result \<Rightarrow> bool" where
  "good_turn J r =
     (case r of Stop ms \<Rightarrow> True | Next l \<Rightarrow> good_context J (ls_context l) \<and> good_config J (ls_config l))"

lemma good_config_model [simp]:
  "good_config J (cfg\<lparr>cfg_model := m, cfg_reasoning := r\<rparr>) = good_config J cfg"
  by (simp add: good_config_def)

lemma good_apply_update:
  assumes "good_update J u" and "good_context J (ls_context l)" and "good_config J (ls_config l)"
  shows "good_context J (ls_context (apply_turn_update u l)) \<and> good_config J (ls_config (apply_turn_update u l))"
  using assms by (auto simp: apply_turn_update_def good_update_def split: option.split)

section \<open>The contract\<close>

locale loop_client =
  fixes env :: "'w loop_env" and J :: "'w st \<Rightarrow> bool"
  assumes emit_keeps: "J (w, t) \<Longrightarrow> env_emit env ev w = (r, w') \<Longrightarrow> J (w', t @ [ev])"
    and stream_keeps: "hook_keeps J (env_streamFn env model lc cfg)"
    and stream_good: "env_streamFn env model lc cfg w = (Inr rp, w') \<Longrightarrow>
      good_reply J (rs_events rp) \<and> hook_keeps J (rs_result rp)"
begin

lemma keeps_emit: "keeps J (emitE (env_emit env) ev)"
  by (auto simp: ensures_def wp_emitE dest: emit_keeps split: prod.split sum.split)

lemma keeps_emits:
  "keeps J (emit_tool_start env tc)" "keeps J (emitToolExecutionEnd env f)" "keeps J (emit_message env m)"
  "keeps J (emitToolResultMessage env r)"
  unfolding emit_tool_start_def emitToolExecutionEnd_def emit_message_def emitToolResultMessage_def
  by (auto intro!: ensures_then keeps_emit)

lemma keeps_emit_update: "keeps J (emit_update env p failed r)"
  unfolding emit_update_def by (auto intro!: ensures_catchE ensures_then keeps_emit)

lemma keeps_await_updates: "keeps J (await_updates failed a)"
  by (auto simp: await_updates_def split: option.split)

lemma keeps_run_tool: "good_proc J q \<Longrightarrow> keeps J (run_tool q env p failed)"
proof (induction q arbitrary: failed)
  case (TUpdate r q)
  then show ?case by (auto intro!: ensures_then keeps_emit_update)
next
  case (TWork f k)
  then show ?case by (auto simp: ensures_def wp_def)
qed (simp add: keeps_await_updates)

lemma ensures_check_abort: "ensures J m (good_prepared J) \<Longrightarrow> ensures J (check_abort env m) (good_prepared J)"
  unfolding check_abort_def by (auto intro!: ensures_then [OF ensures_askE] ensures_returnE simp: operation_aborted_def)

lemma ensures_prepareToolCall:
  assumes "good_context J ctx" and "good_config J cfg"
  shows "ensures J (prepareToolCall env ctx am tc cfg) (good_prepared J)"
  using good_context_tool [OF assms(1), of "tc_name tc"]
  unfolding prepareToolCall_def Let_def
  by (auto split: option.split simp: blocked_outcome_def
      intro!: ensures_returnE ensures_catchE ensures_then [OF ensures_liftE] ensures_then [OF keeps_callE]
        ensures_check_abort good_configD(11) [OF assms(2)])

lemma keeps_finalize:
  assumes "good_config J cfg"
  shows "keeps J (finalizeExecutedToolCall ctx am p executed cfg)"
  unfolding finalizeExecutedToolCall_def
  by (cases executed)
    (auto simp: Let_def split: option.split
      intro!: ensures_returnE ensures_catchE ensures_then [OF keeps_callE] good_configD(12) [OF assms])

lemma keeps_executePreparedToolCall: "good_tool J (pr_tool p) \<Longrightarrow> keeps J (executePreparedToolCall env p)"
  by (simp add: executePreparedToolCall_def good_tool_def keeps_run_tool)

lemma keeps_settle_call:
  assumes "good_config J cfg" and "good_prepared J p"
  shows "keeps J (settle_call env ctx am cfg tc p)"
  using assms unfolding settle_call_def
  by (auto split: preparation.split
      intro!: ensures_returnE ensures_then [OF keeps_executePreparedToolCall] keeps_finalize)

lemma keeps_publish_result: "keeps J (publish_result env f)"
  unfolding publish_result_def Let_def
  by (auto intro!: ensures_then [OF ensures_askE] ensures_then [OF keeps_emits(4)] ensures_returnE)

lemma keeps_sequential_loop:
  assumes "good_context J ctx" and "good_config J cfg"
  shows "keeps J (sequential_loop env ctx am cfg tcs fs ms)"
proof (induction tcs arbitrary: fs ms)
  case (Cons tc tcs)
  have "keeps J (bindE (publish_result env f) (\<lambda>m. bindE (askE (env_aborted env)) (\<lambda>ab.
      if ab then returnE (fs @ [f], ms @ [m])
      else sequential_loop env ctx am cfg tcs (fs @ [f]) (ms @ [m]))))" for f
    using Cons by (auto intro!: ensures_then [OF keeps_publish_result] ensures_then [OF ensures_askE] ensures_returnE)
  then show ?case
    by (auto intro!: ensures_then [OF keeps_emits(1)] ensures_bindE [OF ensures_prepareToolCall [OF assms]]
        ensures_then [OF keeps_settle_call [OF assms(2)]] ensures_then [OF keeps_emits(2)])
qed (auto intro!: ensures_returnE)

lemma keeps_sequential:
  assumes "good_context J ctx" and "good_config J cfg"
  shows "keeps J (executeToolCallsSequential env ctx am tcs cfg)"
  unfolding executeToolCallsSequential_def split_beta
  by (auto intro!: ensures_then [OF keeps_sequential_loop [OF assms]] ensures_returnE)

lemma ensures_entry_step:
  assumes "good_config J cfg" and "good_entry J e"
  shows "ensures J (entry_step env ctx am cfg e) (good_entry J)"
proof (cases "(env, ctx, am, cfg, e)" rule: entry_step.cases)
  case (1 env' ctx am cfg p f k failed)
  then show ?thesis using assms by (auto simp: ensures_def wp_def workE_def bindE_def returnE_def)
next
  case (3 env' ctx am cfg p r failed)
  then show ?thesis by (auto simp: await_updates_def split: option.split intro!: ensures_returnE)
qed (use assms in \<open>auto intro!: ensures_returnE ensures_then [OF keeps_emit_update] ensures_then [OF keeps_finalize]
    ensures_then [OF keeps_emits(2)]\<close>)

lemma keeps_run_entries:
  assumes "good_config J cfg" and "\<forall>e\<in>set es. good_entry J e"
  shows "keeps J (run_entries env ctx am cfg n es)"
  using assms(2)
proof (induction es arbitrary: n rule: entries_induct [where env = env and ctx = ctx and am = am and cfg = cfg])
  case (1 es)
  show ?case
  proof (cases "ready_entries es = []")
    case False
    show ?thesis
    proof (rule ensuresI)
      fix s assume J: "J s"
      let ?i = "picked env n es (fst s)"
      have i: "?i \<in> set (ready_entries es)" using False by (rule picked_ready)
      have step: "wp (entry_step env ctx am cfg (es ! ?i)) (\<lambda>e s'. J s' \<and> good_entry J e) (\<lambda>_. J) s"
        using i 1(2) J by (intro ensures_wp [OF ensures_entry_step [OF assms(1)]]) (auto simp: ready_entries_iff)
      have "wp (entry_step env ctx am cfg (es ! ?i))
          (\<lambda>e. wp (run_entries env ctx am cfg (Suc n) (es[?i := e])) (\<lambda>a s'. J s' \<and> True) (\<lambda>_. J)) (\<lambda>_. J) s"
      proof (cases "entry_step env ctx am cfg (es ! ?i) s")
        case (Some p)
        obtain r s' where p: "p = (r, s')" by (cases p)
        show ?thesis
        proof (cases r)
          case (Inr e)
          then have st: "entry_step env ctx am cfg (es ! ?i) s = Some (Inr e, s')" using Some p by simp
          have good: "J s' \<and> good_entry J e" by (rule wp_Inr [OF step st])
          have "\<forall>e'\<in>set (es[?i := e]). good_entry J e'"
            using good 1(2) set_update_subset_insert [of es ?i e] by blast
          then have "wp (run_entries env ctx am cfg (Suc n) (es[?i := e])) (\<lambda>a s'. J s' \<and> True) (\<lambda>_. J) s'"
            using ensures_wp [OF 1(1) [OF i st]] good by blast
          then show ?thesis using st by (simp add: wp_def)
        qed (use wp_Inl [OF step] Some p in \<open>simp add: wp_def\<close>)
      qed (simp add: wp_def)
      then show "wp (run_entries env ctx am cfg n es) (\<lambda>a s'. J s' \<and> True) (\<lambda>_. J) s"
        using False by (simp add: run_entries_step)
    qed
  qed (auto simp: run_entries_done intro!: ensures_returnE)
qed

lemma ensures_prepare_entries:
  assumes "good_context J ctx" and "good_config J cfg" and "\<forall>e\<in>set es. good_entry J e"
  shows "ensures J (prepare_entries env ctx am cfg tcs es) (\<lambda>es. \<forall>e\<in>set es. good_entry J e)"
  using assms(3)
proof (induction tcs arbitrary: es)
  case (Cons tc tcs)
  have entry: "ensures J (case p of
        Immediate result isError \<Rightarrow>
          (let finalized = \<lparr>fo_toolCall = tc, fo_result = result, fo_isError = isError\<rparr>
           in bindE (emitToolExecutionEnd env finalized) (\<lambda>_. returnE (Settled finalized)))
      | Prepared p \<Rightarrow> returnE (Running p (tool_execute (pr_tool p) (tc_id (pr_toolCall p)) (pr_args p)) None)) (good_entry J)"
    if "good_prepared J p" for p
    using that by (cases p) (auto simp: Let_def good_tool_def intro!: ensures_returnE ensures_then [OF keeps_emits(2)])
  show ?case
    by (auto intro!: ensures_then [OF keeps_emits(1)] ensures_bindE [OF ensures_prepareToolCall [OF assms(1,2)]]
        ensures_bindE [OF entry] ensures_then [OF ensures_askE] ensures_returnE Cons simp: Cons.prems)
qed (auto intro!: ensures_returnE)

lemma keeps_publish_results: "keeps J (publish_results env fs ms)"
  by (induction fs arbitrary: ms) (auto intro!: ensures_then [OF keeps_publish_result] ensures_returnE)

lemma keeps_parallel:
  assumes "good_context J ctx" and "good_config J cfg"
  shows "keeps J (executeToolCallsParallel env ctx am tcs cfg)"
  unfolding executeToolCallsParallel_def
  by (rule ensures_bindE [OF ensures_prepare_entries [OF assms]])
    (auto intro!: ensures_then [OF keeps_run_entries [OF assms(2)]] ensures_then [OF keeps_publish_results] ensures_returnE)

lemma keeps_group_loop:
  assumes "good_context J ctx" and "good_config J cfg"
  shows "keeps J (group_loop env ctx am cfg gs ms)"
  by (induction gs arbitrary: ms)
    (auto intro!: ensures_then [OF keeps_parallel [OF assms]] ensures_then [OF ensures_askE] ensures_returnE)

lemma keeps_executeToolCalls:
  assumes "good_context J ctx" and "good_config J cfg"
  shows "keeps J (executeToolCalls env ctx am cfg)"
proof -
  have "keeps J (case cfg_recordToolCalls cfg of
      None \<Rightarrow> returnE () | Some record \<Rightarrow> (if length cs > 0 then callE (record cs) else returnE ()))" for cs
    by (auto split: option.split intro!: ensures_returnE keeps_callE good_configD(10) [OF assms(2)])
  moreover have "keeps J (case cfg_partitionToolCalls cfg of
      None \<Rightarrow> returnE [cs] | Some f \<Rightarrow> (if length cs > 1 then callE (f cs) else returnE [cs]))" for cs
    by (auto split: option.split intro!: ensures_returnE keeps_callE good_configD(9) [OF assms(2)])
  ultimately show ?thesis
    unfolding executeToolCalls_def Let_def
    by (intro ensures_then ensures_if keeps_sequential keeps_parallel keeps_group_loop assms)
qed

lemma ensures_finish_reply:
  assumes "hook_keeps J result" and "good_context J ctx"
  shows "ensures J (finish_reply env result ctx added) (\<lambda>(m, ctx'). good_context J ctx')"
  unfolding finish_reply_def Let_def using assms
  by (auto intro!: ensures_then [OF keeps_callE] ensures_then [OF keeps_emit] ensures_returnE)

lemma ensures_consume_reply:
  assumes "hook_keeps J result" and "good_reply J q" and "good_context J ctx"
  shows "ensures J (consume_reply q env result ctx part added) (\<lambda>(m, ctx'). good_context J ctx')"
  using assms(2,3)
proof (induction q arbitrary: ctx part added)
  case (RWork f k)
  have "ensures J (consume_reply (k (f w)) env result ctx part added) (\<lambda>(m, ctx'). good_context J ctx')" for w
    using RWork by auto
  then show ?case using RWork.prems(1) by (auto simp: ensures_def wp_def)
next
  case (REvent event q)
  have rest: "ensures J (consume_reply q env result c p b) (\<lambda>(m, ctx'). good_context J ctx')" if "good_context J c" for c p b
    using REvent that by auto
  show ?case
    using REvent.prems(2)
    by (cases event; cases part)
      (auto intro!: ensures_finish_reply assms(1) ensures_then [OF keeps_emit] rest)
qed (auto intro!: ensures_finish_reply assms(1))

lemma ensures_streamAssistantResponse:
  assumes "good_context J ctx" and "good_config J cfg"
  shows "ensures J (streamAssistantResponse env ctx cfg) (\<lambda>(m, ctx'). good_context J ctx')"
proof -
  have stream: "ensures J (callE (env_streamFn env model lc cfg')) (\<lambda>r. good_reply J (rs_events r) \<and> hook_keeps J (rs_result r))"
    for model lc cfg'
    by (rule ensures_callE [OF stream_keeps]) (rule stream_good)
  have transform: "keeps J (case cfg_transformContext cfg of None \<Rightarrow> returnE ms | Some f \<Rightarrow> callE (f ms))" for ms
    by (auto split: option.split intro!: ensures_returnE keeps_callE good_configD(2) [OF assms(2)])
  have key: "keeps J (case cfg_getApiKey cfg of None \<Rightarrow> returnE None | Some f \<Rightarrow> callE (f p))" for p
    by (auto split: option.split intro!: ensures_returnE keeps_callE good_configD(3) [OF assms(2)])
  show ?thesis
    unfolding streamAssistantResponse_def Let_def
    by (rule ensures_then [OF transform], rule ensures_then [OF keeps_callE [OF good_configD(1) [OF assms(2)]]],
        rule ensures_then [OF key], rule ensures_bindE [OF stream], rule ensures_consume_reply)
      (auto simp: assms(1))
qed

lemma ensures_end_turn:
  assumes "good_context J (ls_context l)" and "good_config J (ls_config l)"
  shows "ensures J (end_turn env m rs l) (good_turn J)"
proof -
  have prepare: "ensures J (call_optE None (map_option (\<lambda>h. h c) (cfg_prepareNextTurn (ls_config l)))) (good_update J)" for c
  proof (cases "cfg_prepareNextTurn (ls_config l)")
    case None
    then show ?thesis by (auto simp: call_optE_def good_update_def intro!: ensures_returnE)
  next
    case (Some f)
    have "ensures J (callE (f c)) (good_update J)"
      by (rule ensures_callE [OF good_configD(5) [OF assms(2) Some]]) (rule good_configD(6) [OF assms(2) Some])
    then show ?thesis by (simp add: Some call_optE_def)
  qed
  have rest: "ensures J
      (bindE (call_optE False (map_option (\<lambda>h. h c) (cfg_shouldStopAfterTurn (ls_config l')))) (\<lambda>stop.
        if stop then bindE (emitE (env_emit env) (AgentEnd ms)) (\<lambda>_. returnE (Stop ms))
        else bindE (call_optE [] (cfg_getSteeringMessages (ls_config l'))) (\<lambda>pending.
          returnE (Next (l'\<lparr>ls_pendingMessages := pending\<rparr>))))) (good_turn J)"
    if "good_context J (ls_context l')" "good_config J (ls_config l')" for l' c ms
    using that
    by (intro ensures_then [OF keeps_call_optE] ensures_if ensures_then [OF keeps_emit] ensures_returnE)
      (auto simp: good_turn_def dest: good_configD)
  show ?thesis
    unfolding end_turn_def Let_def
    by (rule ensures_then [OF keeps_emit], rule ensures_bindE [OF prepare], rule rest)
      (use assms in \<open>auto simp: good_apply_update\<close>)
qed

lemma ensures_after_reply:
  assumes "good_context J (ls_context l)" and "good_config J (ls_config l)"
  shows "ensures J (after_reply env m l) (good_turn J)"
  unfolding after_reply_def using assms
  by (auto intro!: ensures_then [OF keeps_emit] ensures_then [OF keeps_executeToolCalls] ensures_end_turn ensures_returnE
      simp: good_turn_def [of J "Stop _"])

lemma ensures_run_turn:
  assumes "good_context J (ls_context l)" and "good_config J (ls_config l)"
  shows "ensures J (run_turn env l) (good_turn J)"
  unfolding run_turn_def inject_pending_def bindE_assoc bindE_returnE split_beta
  by (rule ensures_then, force intro!: ensures_returnE simp: keeps_emit,
      rule ensures_then [OF keeps_for_eachE [OF keeps_emits(3)]],
      rule ensures_bindE [OF ensures_streamAssistantResponse], simp add: assms, simp add: assms, rule ensures_after_reply)
    (auto simp: assms)

lemma keeps_loop_turns:
  assumes "good_context J (ls_context l)" and "good_config J (ls_config l)"
  shows "keeps J (loop_turns env l)"
proof (rule ensuresI)
  fix s assume J: "J s"
  define I where "I l s = (J s \<and> good_context J (ls_context l) \<and> good_config J (ls_config l))" for l :: "'w loop_state" and s
  show "wp (loop_turns env l) (\<lambda>a s'. J s' \<and> True) (\<lambda>_. J) s"
  proof (rule wp_loop_turns [where I = I])
    show "I l s" using J assms by (simp add: I_def)
    show "wp (run_turn env l) (\<lambda>r. case r of Stop ms \<Rightarrow> \<lambda>s'. J s' \<and> True | Next l' \<Rightarrow> I l') (\<lambda>_. J) s" if "I l s" for l s
      by (rule wp_mono [OF ensures_wp [OF ensures_run_turn]])
        (use that in \<open>auto simp: I_def good_turn_def split: turn_result.splits\<close>)
    fix l s assume I: "I l s"
    have "wp (call_optE [] (cfg_getFollowUpMessages (ls_config l))) (\<lambda>a s'. J s' \<and> True) (\<lambda>_. J) s"
      using I by (intro ensures_wp keeps_call_optE) (auto simp: I_def dest: good_configD)
    then show "wp (call_optE [] (cfg_getFollowUpMessages (ls_config l))) (\<lambda>ms s'.
        if ms \<noteq> [] then I (l\<lparr>ls_pendingMessages := ms, ls_hasMoreToolCalls := True\<rparr>) s'
        else wp (emitE (env_emit env) (AgentEnd (ls_newMessages l))) (\<lambda>_ s'. J s' \<and> True) (\<lambda>_. J) s') (\<lambda>_. J) s"
      by (rule wp_mono) (use I ensures_wp [OF keeps_emit] in \<open>auto simp: I_def\<close>)
  qed
qed

lemma keeps_runLoop:
  assumes "good_context J ctx" and "good_config J cfg"
  shows "keeps J (runLoop env ctx ms cfg)"
  unfolding runLoop_def using assms
  by (auto intro!: ensures_then [OF keeps_call_optE] keeps_loop_turns dest: good_configD)

lemma keeps_runAgentLoop:
  assumes "good_context J ctx" and "good_config J cfg"
  shows "keeps J (runAgentLoop env prompts ctx cfg)"
  unfolding runAgentLoop_def using assms
  by (auto intro!: ensures_then [OF keeps_emit] ensures_then [OF keeps_for_eachE [OF keeps_emits(3)]] keeps_runLoop)

lemma keeps_runAgentLoopContinue:
  assumes "good_context J ctx" and "good_config J cfg"
  shows "keeps J (runAgentLoopContinue env ctx cfg)"
  unfolding runAgentLoopContinue_def using assms
  by (auto intro!: ensures_then [OF keeps_emit] keeps_runLoop)

end

end
