(* ===== verification/AgentLoopProps.thy ===== *)
theory AgentLoopProps
  imports AgentEvents
begin

text \<open>
  The properties of the agent loop: every run follows the event protocol and reports exactly its
  messages; the calls of a reply are answered one by one in order; turns end, however concurrent
  calls are scheduled; one call runs the same way in both execution modes; the context the model sees
  is the transcript.
\<close>

section \<open>A turn always ends\<close>

lemma returns_if [intro]: "returns m \<Longrightarrow> returns n \<Longrightarrow> returns (if b then m else n)"
  by simp

lemma returns_settle_call: "returns (settle_call env ctx am cfg tc p)"
  by (auto simp: settle_call_def executePreparedToolCall_def returns_run_tool returns_finalize split: preparation.split)

lemma returns_publish_result: "returns (publish_result env f)"
  by (auto simp: publish_result_def emitToolResultMessage_def Let_def)

lemma returns_sequential_loop: "returns (sequential_loop env ctx am cfg tcs fs ms)"
  by (induction tcs arbitrary: fs ms)
    (auto simp: emit_tool_start_def emitToolExecutionEnd_def
      intro!: returns_bindE returns_prepareToolCall returns_settle_call returns_publish_result)

lemma returns_executeToolCallsSequential: "returns (executeToolCallsSequential env ctx am tcs cfg)"
  by (auto simp: executeToolCallsSequential_def intro!: returns_sequential_loop)

lemma returns_prepare_entries: "returns (prepare_entries env ctx am cfg tcs es)"
  by (induction tcs arbitrary: es)
    (auto simp: emit_tool_start_def emitToolExecutionEnd_def Let_def split: preparation.split
      intro!: returns_bindE returns_prepareToolCall)

lemma returns_publish_results: "returns (publish_results env fs ms)"
  by (induction fs arbitrary: ms) (auto intro!: returns_bindE returns_publish_result)

lemma returns_executeToolCallsParallel: "returns (executeToolCallsParallel env ctx am tcs cfg)"
  by (auto simp: executeToolCallsParallel_def
      intro!: returns_bindE returns_prepare_entries returns_run_entries returns_publish_results)

lemma returns_group_loop: "returns (group_loop env ctx am cfg gs ms)"
  by (induction gs arbitrary: ms) (auto intro!: returns_bindE returns_executeToolCallsParallel)

lemma returns_executeToolCalls: "returns (executeToolCalls env ctx am cfg)"
  by (auto simp: executeToolCalls_def Let_def split: option.split
      intro!: returns_bindE returns_executeToolCallsSequential returns_executeToolCallsParallel returns_group_loop)

lemma returns_finish_reply: "returns (finish_reply env result ctx added)"
  by (auto simp: finish_reply_def Let_def)

lemma returns_consume_reply: "returns (consume_reply q env result ctx part added)"
proof (induction q arbitrary: ctx part added)
  case (RWork f k)
  then show ?case by (auto simp: returns_def)
qed (auto simp: returns_finish_reply split: assistant_event.split option.split)

lemma returns_streamAssistantResponse: "returns (streamAssistantResponse env ctx cfg)"
  by (auto simp: streamAssistantResponse_def Let_def split: option.split
      intro!: returns_bindE returns_consume_reply)

lemma returns_end_turn: "returns (end_turn env m rs l)"
  by (auto simp: end_turn_def Let_def intro!: returns_bindE)

lemma returns_after_reply: "returns (after_reply env m l)"
  by (auto simp: after_reply_def intro!: returns_bindE returns_executeToolCalls returns_end_turn)

lemma returns_run_turn: "returns (run_turn env l)"
  by (auto simp: run_turn_def inject_pending_def emit_message_def split_beta
      intro!: returns_bindE returns_for_eachE returns_streamAssistantResponse returns_after_reply)



section \<open>A batch of one call\<close>

lemma run_entries_single:
  "run_entries env ctx am cfg n [e] =
     (if is_settled e then returnE [settled_outcome e]
      else bindE (entry_step env ctx am cfg e) (\<lambda>e'. run_entries env ctx am cfg (Suc n) [e']))"
proof (cases "is_settled e")
  case False
  then have ready: "ready_entries [e] = [0]" by (simp add: ready_entries_def)
  then have "picked env n [e] = (\<lambda>w. 0)" by (rule_tac ext) (simp add: picked_def)
  then show ?thesis using False ready
    by (simp add: run_entries_step) (rule ext, simp add: bindE_def askE_def)
qed (simp add: run_entries_done ready_entries_Nil_iff)

lemma run_entries_running:
  "run_entries env ctx am cfg n [Running p q failed] =
     bindE (run_tool q env p failed) (\<lambda>executed.
     bindE (finalizeExecutedToolCall ctx am p executed cfg) (\<lambda>f.
     bindE (emitToolExecutionEnd env f) (\<lambda>_. returnE [f])))"
proof (induction q arbitrary: n failed)
  case (TDone r)
  show ?case
    by (cases failed) (simp_all add: run_entries_single [of _ _ _ _ _ "Running _ _ _"] await_updates_def
        run_entries_single [of _ _ _ _ _ "Executed _ _"] run_entries_single [of _ _ _ _ _ "Finalized _"]
        run_entries_single [of _ _ _ _ _ "Settled _"] bindE_assoc)
next
  case (TUpdate r q)
  then show ?case by (simp add: run_entries_single [of _ _ _ _ _ "Running _ _ _"] bindE_assoc)
next
  case (TWork f k)
  have "run_entries env ctx am cfg n [Running p (TWork f k) failed] =
      bindE (workE f) (\<lambda>w. run_entries env ctx am cfg (Suc n) [Running p (k w) failed])"
    by (subst run_entries_single) (simp add: bindE_assoc)
  then show ?case by (rule_tac ext) (simp add: TWork.IH [OF rangeI] bindE_def workE_def)
qed

lemma publish_one: "publish_results env [f] [] = bindE (publish_result env f) (\<lambda>m. returnE [m])"
  by simp

lemma bindE_ask_const: "bindE (askE f) (\<lambda>_. m) = m"
  by (rule ext) (simp add: bindE_def askE_def)

text \<open>
  C9: For a single call the two execution modes are the same: preparing the call and then running it
  as a concurrent entry has exactly the effects, the events and the result of running it in sequence.
\<close>

theorem single_call_modes_agree:
  "executeToolCallsParallel env ctx am [tc] cfg = executeToolCallsSequential env ctx am [tc] cfg"
proof -
  define run where "run preparation = (case preparation of
        Immediate result isError \<Rightarrow>
          (let finalized = \<lparr>fo_toolCall = tc, fo_result = result, fo_isError = isError\<rparr>
           in bindE (emitToolExecutionEnd env finalized) (\<lambda>_. returnE (Settled finalized)))
      | Prepared p \<Rightarrow>
          returnE (Running p (tool_execute (pr_tool p) (tc_id (pr_toolCall p)) (pr_args p)) None))" for preparation :: "'a preparation"
  have settle: "bindE (run preparation) (\<lambda>e. run_entries env ctx am cfg 0 [e]) =
      bindE (settle_call env ctx am cfg tc preparation) (\<lambda>f. bindE (emitToolExecutionEnd env f) (\<lambda>_. returnE [f]))"
    for preparation
    by (cases preparation)
      (simp_all add: run_def settle_call_def executePreparedToolCall_def run_entries_running bindE_assoc Let_def
        run_entries_single [of _ _ _ _ _ "Settled _"])
  have par: "executeToolCallsParallel env ctx am [tc] cfg =
      bindE (emit_tool_start env tc) (\<lambda>_. bindE (prepareToolCall env ctx am tc cfg) (\<lambda>preparation.
      bindE (bindE (run preparation) (\<lambda>e. run_entries env ctx am cfg 0 [e])) (\<lambda>fs.
      bindE (publish_results env fs []) (\<lambda>messages.
      returnE \<lparr>tb_messages = messages, tb_terminate = shouldTerminateToolBatch fs\<rparr>))))"
    by (simp add: executeToolCallsParallel_def bindE_assoc bindE_ask_const run_def [symmetric] cong: if_cong)
  have seq: "executeToolCallsSequential env ctx am [tc] cfg =
      bindE (emit_tool_start env tc) (\<lambda>_. bindE (prepareToolCall env ctx am tc cfg) (\<lambda>preparation.
      bindE (settle_call env ctx am cfg tc preparation) (\<lambda>f. bindE (emitToolExecutionEnd env f) (\<lambda>_.
      bindE (publish_result env f) (\<lambda>m.
      returnE \<lparr>tb_messages = [m], tb_terminate = shouldTerminateToolBatch [f]\<rparr>)))))"
    by (simp add: executeToolCallsSequential_def bindE_assoc bindE_ask_const cong: if_cong)
  show ?thesis unfolding par seq settle by (simp add: bindE_assoc)
qed


section \<open>A run to evaluate\<close>

text \<open>
  A world that counts; one tool that works once, reports an update and echoes; a provider whose first
  reply makes two calls and whose second ends the run.
\<close>

definition demo_result :: agent_tool_result where
  "demo_result = \<lparr>atr_content = [TextPart ''hi'' None], atr_details = JNull, atr_terminate = None\<rparr>"

definition demo_tool :: "nat agent_tool" where
  "demo_tool = \<lparr>tool_name = ''echo'', tool_label = ''echo'', tool_description = '''', tool_parameters = JObj [],
     tool_executionMode = None, tool_prepareArguments = None,
     tool_execute = (\<lambda>i args. TWork Suc (\<lambda>w. TUpdate demo_result (TDone (Inr demo_result))))\<rparr>"

definition demo_usage :: usage where
  "demo_usage = \<lparr>u_input = 1, u_output = 1, u_cacheRead = 0, u_cacheWrite = 0, u_totalTokens = 2,
     u_cost = \<lparr>cost_input = 0, cost_output = 0, cost_cacheRead = 0, cost_cacheWrite = 0, cost_total = 0\<rparr>\<rparr>"

definition demo_assistant :: "block list \<Rightarrow> stop_reason \<Rightarrow> assistant_message" where
  "demo_assistant content reason =
     \<lparr>am_content = content, am_api = ''a'', am_provider = ''p'', am_model = ''m'', am_extra = JNull,
      am_usage = demo_usage, am_stopReason = reason, am_errorMessage = None, am_timestamp = 0\<rparr>"

definition demo_call :: "string \<Rightarrow> tool_call" where
  "demo_call i = \<lparr>tc_id = i, tc_name = ''echo'', tc_arguments = [], tc_thoughtSignature = None\<rparr>"

definition demo_reply :: "nat \<Rightarrow> assistant_message" where
  "demo_reply n =
     (if n \<le> 1 then demo_assistant [ToolCallBlock (demo_call ''1''), ToolCallBlock (demo_call ''2'')] StopToolUse
      else demo_assistant [TextBlock ''done'' None] StopStop)"

definition demo_stream ::
  "llm_model \<Rightarrow> nat llm_context \<Rightarrow> nat agent_loop_config \<Rightarrow> (nat, nat response) hook" where
  "demo_stream model lc cfg w =
     (let m = demo_reply (length (lc_messages lc))
      in (Inr \<lparr>rs_events = REvent (EvStart m) (REvent (EvDone (am_stopReason m) m) REnd), rs_result = (\<lambda>w. (Inr m, w))\<rparr>, w))"

definition demo_loop_env :: "nat loop_env" where
  "demo_loop_env = \<lparr>env_emit = (\<lambda>ev w. (Inr (), Suc w)), env_aborted = (\<lambda>w. False), env_now = int,
     env_streamFn = demo_stream, env_validate = (\<lambda>tool tc. Inr (JObj (tc_arguments tc))), env_pick = (\<lambda>n w. w)\<rparr>"

definition demo_model :: llm_model where
  "demo_model = \<lparr>md_id = ''m'', md_name = ''m'', md_api = ''a'', md_provider = ''p'', md_baseUrl = '''',
     md_reasoning = False, md_input = [], md_cost = \<lparr>mc_input = 0, mc_output = 0, mc_cacheRead = 0, mc_cacheWrite = 0\<rparr>,
     md_contextWindow = 0, md_maxTokens = 0, md_extra = JNull\<rparr>"

definition session_partition_hook :: "tool_call list \<Rightarrow> ('w, tool_call list list) hook" where
  "session_partition_hook calls w = (Inr (partitionToolCalls calls), w)"

definition demo_loop_config :: "nat agent_loop_config" where
  "demo_loop_config = \<lparr>cfg_model = demo_model, cfg_reasoning = None, cfg_apiKey = None, cfg_options = JNull,
     cfg_convertToLlm = (\<lambda>ms w. (Inr (convertToLlm ms), w)), cfg_transformContext = None, cfg_getApiKey = None,
     cfg_shouldStopAfterTurn = None, cfg_prepareNextTurn = None, cfg_getSteeringMessages = None,
     cfg_getFollowUpMessages = None, cfg_toolExecution = None, cfg_partitionToolCalls = Some session_partition_hook,
     cfg_recordToolCalls = None, cfg_beforeToolCall = None, cfg_afterToolCall = None\<rparr>"

definition demo_context :: "agent_message list \<Rightarrow> nat agent_context" where
  "demo_context ms = \<lparr>ac_systemPrompt = '''', ac_messages = ms, ac_tools = Some [demo_tool]\<rparr>"

definition demo_prompt :: agent_message where
  "demo_prompt = UserMsg \<lparr>um_content = CString ''go'', um_timestamp = 0\<rparr>"

definition demo_run :: "((string + agent_message list) \<times> nat st) option" where
  "demo_run = runAgentLoop demo_loop_env [demo_prompt] (demo_context []) demo_loop_config (0, [])"

lemma demo_sound_stream: "sound_stream demo_loop_env"
  by (auto simp: sound_stream_def demo_loop_env_def demo_stream_def Let_def)

lemma demo_run_ok: "map_option (map_sum id length \<circ> fst) demo_run = Some (Inr 5)"
  by code_simp


section \<open>Runs and their events\<close>

text \<open>
  C5: A run that returns has emitted events that follow the protocol (turns, messages and tool
  executions are opened and closed properly, every turn ends with its message and its tool results),
  the \<open>message_end\<close> events carry exactly the returned messages in order, the returned messages begin
  with the prompts, and the last event is the \<open>agent_end\<close> that reports them.
\<close>

theorem run_follows_protocol:
  assumes "sound_stream env" and "runAgentLoop env prompts ctx cfg (w, []) = Some (Inr msgs, (w', evs))"
  shows "read_log evs \<noteq> None \<and> ended_messages evs = msgs \<and> last evs = AgentEnd msgs \<and> prefix prompts msgs"
  using wp_Inr [OF wp_runAgentLoop [OF assms(1)] assms(2)] read_log_messages
  by (auto simp: run_ended_def log_at_def)

lemma run_InrE:
  assumes "map_option (map_sum id g \<circ> fst) r = Some (Inr x)"
  obtains a w evs where "r = Some (Inr a, (w, evs))" and "g a = x"
proof -
  obtain p w evs where r: "r = Some (p, (w, evs))" using assms by (cases r) auto
  then obtain a where "p = Inr a" "g a = x" using assms by (cases p) auto
  then show thesis using that r by blast
qed

lemma run_InlE:
  assumes "map_option (map_sum id g \<circ> fst) r = Some (Inl x)"
  obtains w evs where "r = Some (Inl x, (w, evs))"
proof -
  obtain p w evs where r: "r = Some (p, (w, evs))" using assms by (cases r) auto
  then have "p = Inl x" using assms by (cases p) auto
  then show thesis using that r by blast
qed

definition trace_of :: "((string + 'a) \<times> 'w st) option \<Rightarrow> agent_event list" where
  "trace_of r = (case r of Some (_, (_, evs)) \<Rightarrow> evs | None \<Rightarrow> [])"

theorem run_follows_protocol_witness:
  "read_log (trace_of demo_run) \<noteq> None \<and> length (ended_messages (trace_of demo_run)) = 5"
proof -
  obtain msgs w evs where r: "demo_run = Some (Inr msgs, (w, evs))" "length msgs = 5" by (rule run_InrE [OF demo_run_ok])
  have "read_log evs \<noteq> None" "ended_messages evs = msgs"
    using run_follows_protocol [OF demo_sound_stream r(1) [unfolded demo_run_def]] by auto
  then show ?thesis using r(2) unfolding trace_of_def r(1) by simp
qed

text \<open>
  C10: A run that fails, because a hook, a listener or the provider throws, has still emitted only
  events the protocol allows: listeners never see an event out of place.
\<close>

theorem failed_run_follows_protocol:
  assumes "sound_stream env" and "runAgentLoop env prompts ctx cfg (w, []) = Some (Inl e, (w', evs))"
  shows "read_log evs \<noteq> None"
  using wp_Inl [OF wp_runAgentLoop [OF assms(1)] assms(2)] by (simp add: readable_def)

definition failing_env :: "nat loop_env" where
  "failing_env = demo_loop_env\<lparr>env_emit := (\<lambda>ev w. if w \<ge> 9 then (Inl ''boom'', w) else (Inr (), Suc w))\<rparr>"

definition failing_run :: "((string + agent_message list) \<times> nat st) option" where
  "failing_run = runAgentLoop failing_env [demo_prompt] (demo_context []) demo_loop_config (0, [])"

lemma failing_run_fails: "map_option (map_sum id length \<circ> fst) failing_run = Some (Inl ''boom'')"
  by code_simp

theorem failed_run_follows_protocol_witness:
  "read_log (trace_of failing_run) \<noteq> None \<and> trace_of failing_run \<noteq> []"
proof -
  obtain w evs where r: "failing_run = Some (Inl ''boom'', (w, evs))" by (rule run_InlE [OF failing_run_fails])
  have "sound_stream failing_env" using demo_sound_stream by (simp add: failing_env_def sound_stream_def)
  then have "read_log evs \<noteq> None" by (rule failed_run_follows_protocol [OF _ r [unfolded failing_run_def]])
  moreover have "trace_of failing_run \<noteq> []" by code_simp
  ultimately show ?thesis unfolding trace_of_def r by simp
qed

section \<open>Tool results\<close>

text \<open>
  C6: The calls of a reply are answered by tool results in the order of the calls, each naming the id
  and the tool of its call: every call is answered unless a group of the session's schedule asked to
  stop, and the events of the batch are exactly those messages. The batch may run in sequence, in
  parallel or in the groups of the session's partition; the run is not aborted and the provider's
  call ids are distinct.
\<close>

theorem tool_results_answer_calls:
  assumes "never_aborted env"
    and "cfg_partitionToolCalls cfg = None \<or> cfg_partitionToolCalls cfg = Some session_partition_hook"
    and "distinct (map tc_id (tool_calls_of (am_content am)))"
    and "read_log evs = Some l" and "idle l"
    and "executeToolCalls env ctx am cfg (w, evs) = Some (Inr b, (w', evs'))"
  shows "answered_by (tool_calls_of (am_content am)) b \<and>
    read_log evs' = Some (add_messages (map ToolResultMsg (tb_messages b)) l)"
proof -
  have "splits_calls cfg"
    using assms(2) session_partition.partition_concat by (auto simp: splits_calls_def session_partition_hook_def)
  then have "wp (executeToolCalls env ctx am cfg) (\<lambda>b s. answered_by (tool_calls_of (am_content am)) b \<and>
      log_at (add_messages (map ToolResultMsg (tb_messages b)) l) s) readable (w, evs)"
    using assms(1,3,4,5) by (intro wp_executeToolCalls) (auto simp: log_at_def)
  from wp_Inr [OF this assms(6)] show ?thesis by (simp add: log_at_def)
qed

definition demo_batch_run :: "((string + tool_batch) \<times> nat st) option" where
  "demo_batch_run =
     executeToolCalls demo_loop_env (demo_context [demo_prompt]) (demo_reply 0) demo_loop_config (0, [AgentStart, TurnStart])"

lemma demo_batch_run_ok: "map_option (map_sum id (map tr_toolCallId \<circ> tb_messages) \<circ> fst) demo_batch_run = Some (Inr [''1'', ''2''])"
  by code_simp

theorem tool_results_answer_calls_witness:
  "\<exists>b s. demo_batch_run = Some (Inr b, s) \<and> answered_by [demo_call ''1'', demo_call ''2''] b \<and>
     map tr_toolCallId (tb_messages b) = [''1'', ''2'']"
proof -
  obtain b w evs where r: "demo_batch_run = Some (Inr b, (w, evs))" and ids: "map tr_toolCallId (tb_messages b) = [''1'', ''2'']"
    by (rule run_InrE [OF demo_batch_run_ok]) simp
  have calls: "tool_calls_of (am_content (demo_reply 0)) = [demo_call ''1'', demo_call ''2'']" by code_simp
  have "never_aborted demo_loop_env" by (simp add: never_aborted_def demo_loop_env_def)
  moreover have "cfg_partitionToolCalls demo_loop_config = Some session_partition_hook" by (simp add: demo_loop_config_def)
  moreover have "distinct (map tc_id (tool_calls_of (am_content (demo_reply 0))))" by code_simp
  moreover have "read_log [AgentStart, TurnStart] = Some (empty_log\<lparr>el_phase := InTurn\<rparr>)" "idle (empty_log\<lparr>el_phase := InTurn\<rparr>)"
    by (simp_all add: read_log_def log_step_def empty_log_def idle_def quiet_def)
  moreover have "executeToolCalls demo_loop_env (demo_context [demo_prompt]) (demo_reply 0) demo_loop_config
      (0, [AgentStart, TurnStart]) = Some (Inr b, (w, evs))" using r by (simp only: demo_batch_run_def)
  ultimately have "answered_by [demo_call ''1'', demo_call ''2''] b"
    using tool_results_answer_calls calls by metis
  then show ?thesis using r ids by (intro exI [of _ b] exI [of _ "(w, evs)"] conjI)
qed


section \<open>The transcript the model sees\<close>

abbreviation (input) any_error :: "string \<Rightarrow> 'w st \<Rightarrow> bool" where
  "any_error \<equiv> \<lambda>_ _. True"

lemma wp_always: "(\<And>a s'. Q a s') \<Longrightarrow> wp m Q any_error s"
  by (auto simp: wp_def split: option.split prod.split sum.split)

lemma wp_finish_reply_context:
  assumes "if added then \<exists>x. ac_messages ctx = base @ [x] else ac_messages ctx = base"
  shows "wp (finish_reply env result ctx added) (\<lambda>(m, ctx') s'. ac_messages ctx' = base @ [AssistantMsg m]) any_error s"
  unfolding finish_reply_def Let_def using assms
  by (auto intro!: wp_emitE_any wp_callE_any simp: replace_last_message_def push_message_def)

lemma wp_consume_reply_context:
  assumes "if added then \<exists>x. ac_messages ctx = base @ [x] else ac_messages ctx = base"
    and "starts_once q added" and "added \<longleftrightarrow> part \<noteq> None"
  shows "wp (consume_reply q env result ctx part added) (\<lambda>(m, ctx') s'. ac_messages ctx' = base @ [AssistantMsg m]) any_error s"
  using assms
proof (induction q arbitrary: s ctx part added)
  case REnd
  then show ?case using wp_finish_reply_context by simp
next
  case (RWork f k)
  have "wp (consume_reply (k (f (fst s))) env result ctx part added)
      (\<lambda>(m, ctx') s'. ac_messages ctx' = base @ [AssistantMsg m]) any_error (f (fst s), snd s)"
    by (rule RWork.IH) (use RWork.prems in auto)
  then show ?case by (simp add: wp_def)
next
  case (REvent event rest)
  show ?case
  proof (cases event)
    case (EvStart m)
    have "wp (consume_reply rest env result (push_message (AssistantMsg m) ctx) (Some m) True)
        (\<lambda>(m, ctx') s'. ac_messages ctx' = base @ [AssistantMsg m]) any_error s'" for s'
      by (rule REvent.IH) (use EvStart REvent.prems in \<open>auto simp: push_message_def\<close>)
    then show ?thesis using EvStart by (auto intro!: wp_emitE_any)
  next
    case (EvUpdate kind m)
    show ?thesis
    proof (cases part)
      case None
      have "wp (consume_reply rest env result ctx part added)
          (\<lambda>(m, ctx') s'. ac_messages ctx' = base @ [AssistantMsg m]) any_error s"
        by (rule REvent.IH) (use EvUpdate REvent.prems in auto)
      then show ?thesis using EvUpdate None by simp
    next
      case (Some pm)
      then show ?thesis using EvUpdate REvent.prems
        by (auto intro!: wp_emitE_any REvent.IH simp: replace_last_message_def)
    qed
  qed (use REvent.prems(1) wp_finish_reply_context in simp_all)
qed simp

lemma wp_streamAssistantResponse_context:
  assumes "sound_stream env"
  shows "wp (streamAssistantResponse env ctx cfg)
    (\<lambda>(m, ctx') s'. ac_messages ctx' = ac_messages ctx @ [AssistantMsg m]) any_error s"
proof -
  have "wp (callE (env_streamFn env model lc cfg'))
      (\<lambda>r. wp (consume_reply (rs_events r) env (rs_result r) ctx None False)
        (\<lambda>(m, ctx') s'. ac_messages ctx' = ac_messages ctx @ [AssistantMsg m]) any_error) any_error s'" for model lc cfg' s'
    using sound_streamD [OF assms]
    by (auto simp: wp_callE split: prod.split sum.split intro!: wp_consume_reply_context)
  note stream = this
  show ?thesis unfolding streamAssistantResponse_def Let_def wp_bindE
    by (rule wp_always, rule wp_always, rule wp_always, rule stream)
qed

lemma fold_push_messages: "ac_messages (fold push_message ms ctx) = ac_messages ctx @ ms"
  by (induction ms arbitrary: ctx) (simp_all add: push_message_def)

definition shows_transcript :: "agent_message list \<Rightarrow> 'w agent_loop_config \<Rightarrow> 'w turn_result \<Rightarrow> bool" where
  "shows_transcript base cfg r =
     (case r of Stop _ \<Rightarrow> True | Next l \<Rightarrow> ac_messages (ls_context l) = base @ ls_newMessages l \<and> ls_config l = cfg)"

lemma wp_end_turn_context:
  assumes "ac_messages (ls_context l) = base @ ls_newMessages l" and "cfg_prepareNextTurn (ls_config l) = None"
  shows "wp (end_turn env m rs l) (\<lambda>r s'. shows_transcript base (ls_config l) r) any_error s"
  unfolding end_turn_def Let_def using assms
  by (auto intro!: wp_emitE_any wp_call_optE_any simp: call_optE_def [of None] apply_turn_update_def shows_transcript_def)

lemma wp_after_reply_context:
  assumes "ac_messages (ls_context l) = base @ ls_newMessages l" and "cfg_prepareNextTurn (ls_config l) = None"
  shows "wp (after_reply env m l) (\<lambda>r s'. shows_transcript base (ls_config l) r) any_error s"
proof -
  have "wp (end_turn env m rs l') (\<lambda>r s'. shows_transcript base (ls_config l) r) any_error s'"
    if "ac_messages (ls_context l') = base @ ls_newMessages l'" "ls_config l' = ls_config l" for rs l' s'
    using wp_end_turn_context [of l'] that assms(2) by metis
  then show ?thesis unfolding after_reply_def using assms(1)
    by (auto intro!: wp_emitE_any wp_always [where m = "executeToolCalls _ _ _ _"]
        simp: shows_transcript_def [of _ _ "Stop _"] fold_push_messages)
qed

lemma wp_case_prod: "wp (case p of (a, b) \<Rightarrow> f a b) Q E = (case p of (a, b) \<Rightarrow> wp (f a b) Q E)"
  by (cases p) simp

text \<open>The part of a turn from the request on, once the pending messages are injected.\<close>

lemma wp_run_turn_from_reply:
  assumes "\<And>k s'. ls_context k = fold push_message (ls_pendingMessages l) (ls_context l) \<Longrightarrow>
      ls_newMessages k = ls_newMessages l @ ls_pendingMessages l \<Longrightarrow> ls_config k = ls_config l \<Longrightarrow>
      wp (streamAssistantResponse env (ls_context k) (ls_config k)) (\<lambda>(m, ctx).
        wp (after_reply env m (k\<lparr>ls_context := ctx, ls_newMessages := ls_newMessages k @ [AssistantMsg m]\<rparr>))
          Q any_error) any_error s'"
  shows "wp (run_turn env l) Q any_error s"
  unfolding run_turn_def inject_pending_def wp_bindE wp_returnE wp_case_prod
  by (rule wp_always, rule wp_always, rule assms) simp_all

text \<open>
  C8: When no hook replaces the context, a turn that lets the run go on leaves the context equal to the
  transcript: the messages the run started from followed by the new messages, the partial message of
  the stream replaced by the final one, with the tool results and the injected messages in place. The
  configuration is unchanged.
\<close>

theorem turn_keeps_transcript:
  assumes "sound_stream env" and "cfg_prepareNextTurn (ls_config l) = None"
    and "ac_messages (ls_context l) = base @ ls_newMessages l"
    and "run_turn env l s = Some (Inr (Next l'), s')"
  shows "ac_messages (ls_context l') = base @ ls_newMessages l' \<and> ls_config l' = ls_config l"
proof -
  have reply: "wp (streamAssistantResponse env (ls_context k) (ls_config k)) (\<lambda>(m, ctx).
      wp (after_reply env m (k\<lparr>ls_context := ctx, ls_newMessages := ls_newMessages k @ [AssistantMsg m]\<rparr>))
        (\<lambda>r s'. shows_transcript base (ls_config l) r) any_error) any_error s'"
    if "ac_messages (ls_context k) = base @ ls_newMessages k" "ls_config k = ls_config l" for k s'
  proof (rule wp_mono [OF wp_streamAssistantResponse_context [OF assms(1)]])
    fix a :: "assistant_message \<times> 'a agent_context" and s'' :: "'a st"
    assume "(case a of (m, ctx') \<Rightarrow> \<lambda>s'. ac_messages ctx' = ac_messages (ls_context k) @ [AssistantMsg m]) s''"
    then show "(case a of (m, ctx) \<Rightarrow>
        wp (after_reply env m (k\<lparr>ls_context := ctx, ls_newMessages := ls_newMessages k @ [AssistantMsg m]\<rparr>))
        (\<lambda>r s'. shows_transcript base (ls_config l) r) any_error) s''"
      using wp_after_reply_context [of "k\<lparr>ls_context := snd a, ls_newMessages := ls_newMessages k @ [AssistantMsg (fst a)]\<rparr>" base env "fst a" s'']
        that assms(2) by (auto split: prod.split)
  qed simp
  have "wp (run_turn env l) (\<lambda>r s'. shows_transcript base (ls_config l) r) any_error s"
    by (rule wp_run_turn_from_reply, rule reply) (simp_all add: fold_push_messages assms(3))
  from wp_Inr [OF this assms(4)] show ?thesis by (simp add: shows_transcript_def)
qed


definition demo_loop_state :: "nat loop_state" where
  "demo_loop_state = \<lparr>ls_context = demo_context [demo_prompt, demo_prompt, demo_prompt], ls_newMessages = [demo_prompt],
     ls_config = demo_loop_config, ls_firstTurn = True, ls_hasMoreToolCalls = True, ls_pendingMessages = []\<rparr>"

lemma demo_turn_ok:
  "map_option (map_sum id (\<lambda>r. case r of Stop ms \<Rightarrow> 0 | Next l \<Rightarrow> length (ac_messages (ls_context l))) \<circ> fst)
     (run_turn demo_loop_env demo_loop_state (0, [])) = Some (Inr 4)"
  by code_simp

theorem turn_keeps_transcript_witness:
  "\<exists>l s. run_turn demo_loop_env demo_loop_state (0, []) = Some (Inr (Next l), s) \<and>
     ac_messages (ls_context l) = [demo_prompt, demo_prompt] @ ls_newMessages l"
proof -
  obtain r w evs where r: "run_turn demo_loop_env demo_loop_state (0, []) = Some (Inr r, (w, evs))"
    and len: "(case r of Stop ms \<Rightarrow> 0 | Next l \<Rightarrow> length (ac_messages (ls_context l))) = 4"
    by (rule run_InrE [OF demo_turn_ok]) simp
  from len obtain l where l: "r = Next l" by (cases r) auto
  have "ac_messages (ls_context l) = [demo_prompt, demo_prompt] @ ls_newMessages l"
    using turn_keeps_transcript [OF demo_sound_stream _ _ r [unfolded l], of "[demo_prompt, demo_prompt]"]
    by (simp add: demo_loop_state_def demo_context_def demo_loop_config_def)
  then show ?thesis using r l by blast
qed

section \<open>Runs that end\<close>

lemma returns_loop_turns_idle:
  assumes "\<not> ls_hasMoreToolCalls l" and "ls_pendingMessages l = []" and "cfg_getFollowUpMessages (ls_config l) = None"
  shows "loop_turns env l s \<noteq> None"
proof -
  have "returns (bindE (emitE (env_emit env) (AgentEnd (ls_newMessages l))) (\<lambda>_. returnE (ls_newMessages l)))" by auto
  then have "bindE (emitE (env_emit env) (AgentEnd (ls_newMessages l))) (\<lambda>_. returnE (ls_newMessages l)) s \<noteq> None"
    unfolding returns_def by blast
  then show ?thesis using assms by (subst loop_turns.simps) (simp add: call_optE_def)
qed

definition calls_no_tools :: "'w loop_env \<Rightarrow> bool" where
  "calls_no_tools env =
     (\<forall>model lc cfg w r w' v m v'. env_streamFn env model lc cfg w = (Inr r, w') \<and> rs_result r v = (Inr m, v') \<longrightarrow>
        tool_calls_of (am_content m) = [])"

lemma wp_finish_reply_result:
  assumes "\<And>v m v'. result v = (Inr m, v') \<Longrightarrow> P m"
  shows "wp (finish_reply env result ctx added) (\<lambda>(m, ctx') s'. P m) any_error s"
  unfolding finish_reply_def Let_def
  using assms by (auto intro!: wp_emitE_any simp: wp_callE split: prod.split sum.split)

lemma wp_consume_reply_result:
  assumes "\<And>v m v'. result v = (Inr m, v') \<Longrightarrow> P m"
  shows "wp (consume_reply q env result ctx part added) (\<lambda>(m, ctx') s'. P m) any_error s"
proof (induction q arbitrary: ctx part added s)
  case (RWork f k)
  have "wp (consume_reply (k (f (fst s))) env result ctx part added) (\<lambda>(m, ctx') s'. P m) any_error (f (fst s), snd s)" for s
    by (rule RWork.IH) simp
  then show ?case by (simp add: wp_def)
qed (auto intro!: wp_emitE_any wp_finish_reply_result assms split: assistant_event.split option.split)

lemma calls_no_toolsD:
  "calls_no_tools env \<Longrightarrow> env_streamFn env model lc cfg w = (Inr r, w') \<Longrightarrow> rs_result r v = (Inr m, v') \<Longrightarrow>
   tool_calls_of (am_content m) = []"
  unfolding calls_no_tools_def by blast

lemma wp_stream_no_calls:
  assumes "calls_no_tools env"
  shows "wp (streamAssistantResponse env ctx cfg) (\<lambda>(m, ctx') s'. tool_calls_of (am_content m) = []) any_error s"
proof -
  have "wp (callE (env_streamFn env model lc cfg'))
      (\<lambda>r. wp (consume_reply (rs_events r) env (rs_result r) ctx None False)
        (\<lambda>(m, ctx') s'. tool_calls_of (am_content m) = []) any_error) any_error s'" for model lc cfg' s'
    by (auto simp: wp_callE split: prod.split sum.split intro!: wp_consume_reply_result dest: calls_no_toolsD [OF assms])
  note stream = this
  show ?thesis unfolding streamAssistantResponse_def Let_def wp_bindE
    by (rule wp_always, rule wp_always, rule wp_always, rule stream)
qed

definition no_hooks :: "'w agent_loop_config \<Rightarrow> bool" where
  "no_hooks cfg = (cfg_prepareNextTurn cfg = None \<and> cfg_getSteeringMessages cfg = None \<and> cfg_getFollowUpMessages cfg = None)"

definition run_idle :: "'w turn_result \<Rightarrow> bool" where
  "run_idle r = (case r of Stop _ \<Rightarrow> True
     | Next l \<Rightarrow> \<not> ls_hasMoreToolCalls l \<and> ls_pendingMessages l = [] \<and> no_hooks (ls_config l))"

lemma wp_end_turn_idle:
  assumes "no_hooks (ls_config l)" and "\<not> ls_hasMoreToolCalls l"
  shows "wp (end_turn env m rs l) (\<lambda>r s'. run_idle r) any_error s"
  unfolding end_turn_def Let_def using assms
  by (auto intro!: wp_emitE_any wp_call_optE_any
      simp: no_hooks_def call_optE_def [of None] call_optE_def [of "[]"] apply_turn_update_def run_idle_def)



definition quiet_env :: "nat loop_env" where
  "quiet_env = demo_loop_env\<lparr>env_streamFn := (\<lambda>model lc cfg w.
     (Inr \<lparr>rs_events = REnd, rs_result = (\<lambda>v. (Inr (demo_reply 2), v))\<rparr>, w))\<rparr>"


section \<open>Continuing\<close>

text \<open>
  Continuing is refused, before any event is emitted, when there is nothing to continue from: an
  empty context and a context that ends with an assistant message each have their own error. Otherwise
  the run that returns follows the event protocol and reports exactly the messages it added.
\<close>

theorem continue_guarded:
  "(ac_messages ctx = [] \<longrightarrow> runAgentLoopContinue env ctx cfg s = Some (Inl no_messages_error, s)) \<and>
   (ac_messages ctx \<noteq> [] \<and> is_assistant (last (ac_messages ctx)) \<longrightarrow>
      runAgentLoopContinue env ctx cfg s = Some (Inl last_assistant_error, s)) \<and>
   (sound_stream env \<and> runAgentLoopContinue env ctx cfg (w, []) = Some (Inr msgs, (w', evs)) \<longrightarrow>
      read_log evs \<noteq> None \<and> ended_messages evs = msgs \<and> last evs = AgentEnd msgs)"
proof (intro conjI impI)
  assume run: "sound_stream env \<and> runAgentLoopContinue env ctx cfg (w, []) = Some (Inr msgs, (w', evs))"
  have "run_ended [] msgs (w', evs)"
    by (rule wp_Inr [OF wp_runAgentLoopContinue]) (rule conjunct1 [OF run], rule conjunct2 [OF run])
  then show "read_log evs \<noteq> None" "ended_messages evs = msgs" "last evs = AgentEnd msgs"
    using read_log_messages by (auto simp: run_ended_def log_at_def)
qed (auto simp: runAgentLoopContinue_def throwE_def)

theorem continue_guarded_witness:
  "runAgentLoopContinue demo_loop_env (demo_context []) demo_loop_config (0, []) = Some (Inl no_messages_error, (0, [])) \<and>
   runAgentLoopContinue demo_loop_env (demo_context [AssistantMsg (demo_reply 2)]) demo_loop_config (0, []) =
     Some (Inl last_assistant_error, (0, []))"
  using continue_guarded [of "demo_context []" demo_loop_env demo_loop_config "(0, [])"]
    continue_guarded [of "demo_context [AssistantMsg (demo_reply 2)]" demo_loop_env demo_loop_config "(0, [])"]
  by (simp add: demo_context_def)

end
