(* ===== verification/AgentProps.thy ===== *)
theory AgentProps
  imports Agent LoopInvariant AgentLoopProps
begin

text \<open>
  The properties of the class \<open>Agent\<close>: its queues deliver every message once and in order, its
  transcript grows by exactly the messages of the run, and it is idle again after every run, whether
  the run ended, failed or was aborted.
\<close>

section \<open>Queues\<close>

text \<open>What the agent relies on when it drains a queue at one point after another.\<close>

primrec drain_times :: "('q \<Rightarrow> 'm list \<times> 'q) \<Rightarrow> nat \<Rightarrow> 'q \<Rightarrow> 'm list \<times> 'q" where
  "drain_times d 0 q = ([], q)"
| "drain_times d (Suc n) q = (let (ms, q') = d q; (ms', q'') = drain_times d n q' in (ms @ ms', q''))"

locale message_queue =
  fixes contents :: "'q \<Rightarrow> 'm list" and enq :: "'m \<Rightarrow> 'q \<Rightarrow> 'q" and take_pending :: "'q \<Rightarrow> 'm list \<times> 'q"
  assumes contents_enq: "contents (enq m q) = contents q @ [m]"
    and take_split: "take_pending q = (ms, q') \<Longrightarrow> contents q = ms @ contents q'"
    and take_progress: "contents q \<noteq> [] \<Longrightarrow> fst (take_pending q) \<noteq> []"
begin

lemma drain_times_split: "drain_times take_pending n q = (ms, q') \<Longrightarrow> contents q = ms @ contents q'"
  by (induction n arbitrary: q ms q') (auto dest!: take_split split: prod.splits)

lemma drain_times_empty: "length (contents q) \<le> n \<Longrightarrow> contents (snd (drain_times take_pending n q)) = []"
proof (induction n arbitrary: q)
  case (Suc n)
  obtain ms q' where t: "take_pending q = (ms, q')" by (cases "take_pending q")
  have "length (contents q') \<le> n"
    using Suc.prems take_split [OF t] take_progress [of q] t
    by (cases "contents q = []"; cases ms) auto
  then show ?case using Suc.IH [of q'] t by (simp add: split_beta)
qed simp

lemma drain_times_all: "length (contents q) \<le> n \<Longrightarrow> fst (drain_times take_pending n q) = contents q"
  using drain_times_split [of n q] drain_times_empty [of q n] by (cases "drain_times take_pending n q") auto

lemma contents_enqueued: "contents (fold enq ms q) = contents q @ ms"
  by (induction ms arbitrary: q) (simp_all add: contents_enq)

lemma drain_times_fifo:
  "length (contents q @ ms) \<le> n \<Longrightarrow> fst (drain_times take_pending n (fold enq ms q)) = contents q @ ms"
  using drain_times_all [of "fold enq ms q" n] by (simp add: contents_enqueued)

end

interpretation pending: message_queue pq_messages enqueue drain
  by unfold_locales (auto simp: enqueue_def drain_def split: if_splits list.splits)

text \<open>
  A queue loses, repeats and reorders nothing: after messages are queued, draining as often as there
  are messages, in either mode and wherever the mode is one at a time or all, delivers what was queued,
  first come first served.
\<close>

theorem queue_delivers_in_order:
  "fst (drain_times drain (length (pq_messages q) + length ms) (fold enqueue ms q)) = pq_messages q @ ms"
  by (rule pending.drain_times_fifo) simp

section \<open>The agent keeps the contract of the loop\<close>

definition agent_inv :: "agent_message list \<Rightarrow> 'x agent st \<Rightarrow> bool" where
  "agent_inv base s =
     (as_messages (ag_state (fst s)) = base @ ended_messages (snd s) \<and> ag_activeRun (fst s))"

lemma reduce_event_messages: "as_messages (reduce_event ev st) = as_messages st @ ended_messages [ev]"
  by (cases ev)
    (auto simp: reduce_event_def ended_messages_def map_filter_simps split: agent_message.split option.split)

lemma on_api_frame:
  "on_api h a = (r, a') \<Longrightarrow> ag_state a' = ag_state a \<and> ag_activeRun a' = ag_activeRun a \<and> ag_listeners a' = ag_listeners a"
  by (auto simp: on_api_def split: prod.splits)

lemma notify_frame:
  "notify_listeners ls ev a = (r, a') \<Longrightarrow> ag_state a' = ag_state a \<and> ag_activeRun a' = ag_activeRun a"
  by (induction ls arbitrary: a) (auto split: prod.splits sum.splits dest!: on_api_frame)

lemma processEvents_frame:
  "processEvents ev a = (r, a') \<Longrightarrow>
     ag_state a' = reduce_event ev (ag_state a) \<and> ag_activeRun a' = ag_activeRun a"
  by (auto simp: processEvents_def Let_def split: if_splits dest: notify_frame)

lemma ended_messages_snoc: "ended_messages (t @ [ev]) = ended_messages t @ ended_messages [ev]"
  by (simp add: ended_messages_def map_filter_append)

lemma keeps_on_api: "hook_keeps (agent_inv base) (on_api h)"
  unfolding hook_keeps_def agent_inv_def by (auto dest: on_api_frame)

lemma keeps_map_hook: "hook_keeps J h \<Longrightarrow> hook_keeps J (map_hook f h)"
  unfolding hook_keeps_def map_hook_def by (metis apfst_conv prod.collapse snd_conv snd_apfst)

lemma keeps_work_on_api: "agent_inv base (a, t) \<Longrightarrow> agent_inv base (work_on_api f a, t)"
  by (simp add: agent_inv_def work_on_api_def)

lemma good_tool_on_api: "good_proc (agent_inv base) (tool_on_api q)"
  by (induction q) (auto simp: keeps_work_on_api)

lemma good_reply_on_api: "good_reply (agent_inv base) (reply_on_api q)"
  by (induction q) (auto simp: keeps_work_on_api)

lemma map_hook_Inr: "map_hook f h w = (Inr b, w') \<Longrightarrow> \<exists>a. h w = (Inr a, w') \<and> b = f a"
  by (cases "h w") (auto simp: map_hook_def map_sum_def split: sum.splits)

interpretation agent_client: loop_client "agent_env op" "agent_inv base"
proof unfold_locales
  fix w :: "'a agent" and t ev r w'
  assume "agent_inv base (w, t)" "env_emit (agent_env op) ev w = (r, w')"
  then show "agent_inv base (w', t @ [ev])"
    by (auto simp: agent_inv_def agent_env_def reduce_event_messages ended_messages_snoc dest!: processEvents_frame)
next
  show "hook_keeps (agent_inv base) (env_streamFn (agent_env op) model lc cfg)" for model lc cfg
    by (simp add: agent_env_def keeps_map_hook keeps_on_api)
next
  show "good_reply (agent_inv base) (rs_events rp) \<and> hook_keeps (agent_inv base) (rs_result rp)"
    if "env_streamFn (agent_env op) model lc cfg w = (Inr rp, w')" for model lc cfg w rp w'
    using that
    by (auto simp: agent_env_def response_on_api_def good_reply_on_api keeps_on_api dest!: map_hook_Inr)
qed

lemma good_agent_tool: "good_tool (agent_inv base) (agent_tool_on_api t)"
  by (simp add: good_tool_def agent_tool_on_api_def good_tool_on_api)

lemma good_snapshot: "good_context (agent_inv base) (createContextSnapshot a)"
  by (auto simp: good_context_def createContextSnapshot_def good_agent_tool)

lemma keeps_polls: "hook_keeps (agent_inv base) poll_steering" "hook_keeps (agent_inv base) poll_followUp"
  by (auto simp: hook_keeps_def poll_steering_def poll_followUp_def agent_inv_def split: if_splits prod.splits)

lemma keeps_default_convert: "hook_keeps J (\<lambda>a. (Inr x, a))"
  by (simp add: hook_keeps_def)

lemma good_prepared_update: "good_update (agent_inv base) (map_option update_on_api u)"
  by (auto simp: good_update_def update_on_api_def context_on_api_def good_context_def good_agent_tool)

lemma keeps_prepare: "hook_keeps (agent_inv base) (\<lambda>a. map_hook g (on_api (f (api_aborted (ag_api a)))) a)"
  using keeps_map_hook [OF keeps_on_api] unfolding hook_keeps_def by blast

lemma good_loop_config: "good_config (agent_inv base) (createLoopConfig op a)"
  unfolding good_config_def
  by (auto simp: createLoopConfig_def keeps_on_api keeps_polls keeps_default_convert keeps_prepare
      intro: good_prepared_update split: option.splits dest!: map_hook_Inr)


section \<open>Prompts\<close>

lemma wp_finallyE: "wp (finallyE m f) Q E =
    wp m (\<lambda>a s. Q a (f (fst s), snd s)) (\<lambda>e s. E e (f (fst s), snd s))"
  by (rule ext) (auto simp: wp_def finallyE_def split: option.split sum.split prod.split)

lemma wp_modifyE [simp]: "wp (modifyE f) Q E s = Q () (f (fst s), snd s)"
  by (simp add: wp_def modifyE_def)

lemma wp_either:
  assumes "ensures J m P" and "J s" and "\<And>a s'. J s' \<Longrightarrow> Q a s'" and "\<And>e s'. J s' \<Longrightarrow> E e s'"
  shows "wp m Q E s"
  by (rule wp_mono [OF ensures_wp [OF assms(1,2)]]) (use assms(3,4) in blast)+

lemma keeps_handleRunFailure:
  fixes op :: "'x agent_options"
  shows "keeps (agent_inv base) (handleRunFailure op e)"
proof -
  have emit: "keeps (agent_inv base :: 'x agent st \<Rightarrow> bool) (emitE processEvents ev)" for ev
    using agent_client.keeps_emit [of base op ev] by (simp add: agent_env_def)
  show ?thesis unfolding handleRunFailure_def
    by (auto intro!: ensures_then [OF ensures_askE] ensures_then [OF emit] simp: emit)
qed

definition agent_idle :: "'x agent \<Rightarrow> bool" where
  "agent_idle a =
     (\<not> ag_activeRun a \<and> \<not> as_isStreaming (ag_state a) \<and> as_streamingMessage (ag_state a) = None \<and>
      as_pendingToolCalls (ag_state a) = [])"

definition run_recorded :: "agent_message list \<Rightarrow> 'x agent st \<Rightarrow> bool" where
  "run_recorded base s = (agent_idle (fst s) \<and> as_messages (ag_state (fst s)) = base @ ended_messages (snd s))"

lemma finish_recorded: "agent_inv base s \<Longrightarrow> run_recorded base (finishRun (fst s), snd s)"
  by (simp add: agent_inv_def run_recorded_def finishRun_def agent_idle_def)

lemma wp_runWithLifecycle:
  assumes "\<And>base. keeps (agent_inv base) executor" and "\<not> ag_activeRun a" and "base = as_messages (ag_state a)"
  shows "wp (runWithLifecycle op executor) (\<lambda>_. run_recorded base) (\<lambda>_. run_recorded base) (a, [])"
proof -
  have "agent_inv base (start_run a, [])"
    using assms(3) by (simp add: agent_inv_def start_run_def ended_messages_def map_filter_simps)
  moreover have "keeps (agent_inv base) (catchE executor (handleRunFailure op))"
    by (rule ensures_catchE [OF assms(1)]) (rule keeps_handleRunFailure)
  ultimately have "wp (catchE executor (handleRunFailure op))
      (\<lambda>_ s. run_recorded base (finishRun (fst s), snd s)) (\<lambda>_ s. run_recorded base (finishRun (fst s), snd s))
      (start_run a, [])"
    by (intro wp_either finish_recorded)
  then show ?thesis
    using assms(2) by (simp add: runWithLifecycle_def wp_finallyE del: wp_catchE)
qed

lemma keeps_skipPoll: "keeps (agent_inv base) (modifyE (\<lambda>a. a\<lparr>ag_skipPoll := b\<rparr>))"
  by (rule ensuresI) (simp add: agent_inv_def)

lemma ensures_snapshot: "ensures (agent_inv base) (askE createContextSnapshot) (good_context (agent_inv base))"
  by (rule ensuresI) (simp add: good_snapshot)

lemma ensures_loop_config: "ensures (agent_inv base) (askE (createLoopConfig op)) (good_config (agent_inv base))"
  by (rule ensuresI) (simp add: good_loop_config)

lemma wp_runPromptMessages:
  assumes "\<not> ag_activeRun a" and "base = as_messages (ag_state a)"
  shows "wp (runPromptMessages op ms skip) (\<lambda>_. run_recorded base) (\<lambda>_. run_recorded base) (a, [])"
  unfolding runPromptMessages_def
  by (rule wp_runWithLifecycle)
    (auto intro!: ensures_bindE [OF ensures_snapshot] ensures_then [OF keeps_skipPoll] ensures_bindE [OF ensures_loop_config]
      ensures_then [OF agent_client.keeps_runAgentLoop] ensures_returnE simp: assms)

lemma wp_runContinuation:
  assumes "\<not> ag_activeRun a" and "base = as_messages (ag_state a)"
  shows "wp (runContinuation op) (\<lambda>_. run_recorded base) (\<lambda>_. run_recorded base) (a, [])"
  unfolding runContinuation_def
  by (rule wp_runWithLifecycle)
    (auto intro!: ensures_bindE [OF ensures_snapshot] ensures_then [OF keeps_skipPoll] ensures_bindE [OF ensures_loop_config]
      ensures_then [OF agent_client.keeps_runAgentLoopContinue] ensures_returnE simp: assms)

text \<open>
  C23: A prompt leaves a complete record, however the run goes: when the call settles, with or without an
  error, the transcript is the old transcript followed by exactly the messages whose \<open>message_end\<close>
  event was emitted, in order, and the agent is idle: no run is active, nothing is streaming, no tool
  call is pending.
\<close>

theorem prompt_records_run:
  assumes "\<not> ag_activeRun a" and "prompt op input (a, []) = Some (r, (a', evs))"
  shows "as_messages (ag_state a') = as_messages (ag_state a) @ ended_messages evs \<and> agent_idle a'"
proof -
  let ?P = "run_recorded (as_messages (ag_state a))"
  have "wp (prompt op input) (\<lambda>_. ?P) (\<lambda>_. ?P) (a, [])"
    using assms(1) by (simp add: prompt_def wp_runPromptMessages)
  then have "?P (a', evs)" using assms(2) by (cases r) (auto dest: wp_Inr wp_Inl)
  then show ?thesis by (simp add: run_recorded_def)
qed

definition demo_options :: "nat agent_options" where
  "demo_options = \<lparr>op_convertToLlm = None, op_transformContext = None,
     op_streamFn = (\<lambda>model lc cfg api. (if api_ext api = 7 then Inl ''offline'' else
       Inr \<lparr>rs_events = REvent (EvStart (demo_reply 2)) REnd, rs_result = (\<lambda>v. (Inr (demo_reply 2), v))\<rparr>, api)),
     op_getApiKey = None, op_beforeToolCall = None, op_afterToolCall = None, op_prepareNextTurn = None,
     op_shouldStopAfterTurn = None, op_partitionToolCalls = None, op_recordToolCalls = None, op_toolExecution = None,
     op_requestOptions = JNull, op_validate = (\<lambda>t tc. Inr JNull), op_now = (\<lambda>api. 0), op_pick = (\<lambda>n a. 0)\<rparr>"

definition demo_agent :: "nat \<Rightarrow> nat agent" where
  "demo_agent x = subscribe 0 (\<lambda>ev aborted api. (Inr (), api)) (new_agent None None None x)"

lemma demo_agent_idle: "\<not> ag_activeRun (demo_agent x)"
  by (simp add: demo_agent_def subscribe_def new_agent_def)

definition demo_prompt_run :: "nat \<Rightarrow> ((string + unit) \<times> nat agent st) option" where
  "demo_prompt_run x = prompt demo_options (PromptText ''go'' None) (demo_agent x, [])"

lemma demo_prompt_ok: "map_option (map_sum id (\<lambda>_. True) \<circ> fst) (demo_prompt_run 0) = Some (Inr True)"
  by code_simp

theorem prompt_records_run_witness:
  "\<exists>a evs. demo_prompt_run 0 = Some (Inr (), (a, evs)) \<and> as_messages (ag_state a) = ended_messages evs \<and>
     agent_idle a \<and> length (ended_messages (trace_of (demo_prompt_run 0))) = 2"
proof -
  obtain u a evs where r: "demo_prompt_run 0 = Some (Inr u, (a, evs))" by (rule run_InrE [OF demo_prompt_ok])
  have "as_messages (ag_state (demo_agent 0)) = []" by code_simp
  then have "as_messages (ag_state a) = ended_messages evs \<and> agent_idle a"
    using prompt_records_run [OF demo_agent_idle r [unfolded demo_prompt_run_def]] by simp
  moreover have "length (ended_messages (trace_of (demo_prompt_run 0))) = 2" by code_simp
  ultimately show ?thesis using r by (intro exI [of _ a] exI [of _ evs]) simp
qed



text \<open>
  \<open>continue\<close> after an assistant message runs what is queued: the steering messages when there are
  any, without polling the queue again at the start, otherwise the follow-up messages; with empty queues
  it fails and changes nothing. An agent without messages cannot continue.
\<close>

theorem continue_drains_queues:
  assumes "\<not> ag_activeRun a"
  shows "(as_messages (ag_state a) = [] \<longrightarrow> continue op (a, evs) = Some (Inl no_messages_to_continue, (a, evs))) \<and>
    (as_messages (ag_state a) \<noteq> [] \<and> is_assistant (last (as_messages (ag_state a))) \<longrightarrow>
      continue op (a, evs) =
        (let (steering, q) = drain (api_steeringQueue (ag_api a));
             (follow, q') = drain (api_followUpQueue (ag_api a))
         in if steering \<noteq> [] then
              runPromptMessages op steering True (a\<lparr>ag_api := (ag_api a)\<lparr>api_steeringQueue := q\<rparr>\<rparr>, evs)
            else if follow \<noteq> [] then
              runPromptMessages op follow False (a\<lparr>ag_api := (ag_api a)\<lparr>api_followUpQueue := q'\<rparr>\<rparr>, evs)
            else Some (Inl last_assistant_error, (a, evs))))"
proof -
  have empty: "q' = q" if "drain q = ([], q')" for q q' :: pending_queue
    using that by (cases q) (auto simp: drain_def split: if_splits list.splits)
  show ?thesis
    using assms
    by (auto simp: continue_def bindE_def askE_def throwE_def callE_def drain_steering_def poll_followUp_def Let_def
        split: prod.split dest!: empty)
qed


definition paused_agent :: "nat agent" where
  "paused_agent =
     (demo_agent 0)\<lparr>ag_state := (ag_state (demo_agent 0))\<lparr>as_messages := [AssistantMsg (demo_reply 2)]\<rparr>\<rparr>"

theorem continue_drains_queues_witness:
  "continue demo_options (paused_agent, []) = Some (Inl last_assistant_error, (paused_agent, [])) \<and>
   continue demo_options (demo_agent 0, []) = Some (Inl no_messages_to_continue, (demo_agent 0, []))"
proof -
  have idle: "\<not> ag_activeRun paused_agent" by (simp add: paused_agent_def demo_agent_idle)
  show ?thesis
    using continue_drains_queues [OF idle, of demo_options "[]"] continue_drains_queues [OF demo_agent_idle, of 0 demo_options "[]"]
    by (simp add: paused_agent_def demo_agent_def subscribe_def new_agent_def createMutableAgentState_def default_to_def
        new_queue_def drain_def)
qed

section \<open>Failures\<close>

text \<open>How the emission of an event changes the transcript and the error the agent shows.\<close>

lemma wp_emit_process:
  assumes "\<And>a'. ag_state a' = reduce_event ev (ag_state a) \<Longrightarrow> Q () (a', t @ [ev])"
  shows "wp (emitE processEvents ev) Q (\<lambda>_ _. True) (a, t)"
  using assms by (auto simp: wp_emitE split: prod.split sum.split dest: processEvents_frame)

lemma wp_handleRunFailure:
  fixes op :: "'x agent_options" and b :: "'x agent"
  assumes "e \<noteq> []"
  defines "m \<equiv> failure_message e (api_aborted (ag_api b)) (op_now op (ag_api b)) (ag_state b)"
  shows "wp (handleRunFailure op e) (\<lambda>_ s'. as_messages (ag_state (fst s')) = as_messages (ag_state b) @ [AssistantMsg m] \<and>
      as_errorMessage (ag_state (fst s')) = Some e) (\<lambda>_ _. True) (b, t)"
  unfolding handleRunFailure_def
  by (auto intro!: wp_emit_process simp: m_def reduce_event_def failure_message_def assms(1))


definition failed_loop :: "((string + agent_message list) \<times> nat agent st) option" where
  "failed_loop = runAgentLoop (agent_env demo_options) (normalizePromptInput (PromptText ''go'' None) (op_now demo_options (ag_api (demo_agent 7))))
      (createContextSnapshot (start_run (demo_agent 7)))
      (createLoopConfig demo_options ((start_run (demo_agent 7))\<lparr>ag_skipPoll := False\<rparr>))
      ((start_run (demo_agent 7))\<lparr>ag_skipPoll := False\<rparr>, [])"

lemma failed_loop_fails: "map_option (map_sum id length \<circ> fst) failed_loop = Some (Inl ''offline'')"
  by code_simp

lemma failed_prompt_ok: "map_option (map_sum id (\<lambda>_. True) \<circ> fst) (demo_prompt_run 7) = Some (Inr True)"
  by code_simp


end
