(* ===== verification/UStrings.thy ===== *)
theory UStrings
  imports Prelude
begin

text \<open>
  JavaScript strings as the file tools handle them: lists of UTF-16 code units, numbers from 0 to
  65535, with the string methods the tools call. \<open>ucs\<close> reads an ASCII literal. Searching is written as the scan it is;
  its lemmas say that a match is where the text occurs, that it is the first one, and that splitting
  and joining at a unit are inverse.
\<close>

type_synonym ustring = "int list"

definition ucs :: "string \<Rightarrow> ustring" where
  "ucs s = map of_char s"

abbreviation LF :: int where "LF \<equiv> 10"
abbreviation CR :: int where "CR \<equiv> 13"

section \<open>White space\<close>

text \<open>The units \<open>trim\<close> and \<open>\s\<close> take as white space or line terminators.\<close>

definition is_uspace :: "int \<Rightarrow> bool" where
  "is_uspace c =
     (9 \<le> c \<and> c \<le> 13 \<or> c = 32 \<or> c = 160 \<or> c = 5760 \<or> 8192 \<le> c \<and> c \<le> 8202 \<or> c = 8232 \<or> c = 8233 \<or>
      c = 8239 \<or> c = 8287 \<or> c = 12288 \<or> c = 65279)"

definition trimStart :: "ustring \<Rightarrow> ustring" where
  "trimStart s = dropWhile is_uspace s"

definition trimEnd :: "ustring \<Rightarrow> ustring" where
  "trimEnd s = rev (dropWhile is_uspace (rev s))"

definition utrim :: "ustring \<Rightarrow> ustring" where
  "utrim s = trimEnd (trimStart s)"

section \<open>Searching\<close>

definition starts_with :: "'a list \<Rightarrow> 'a list \<Rightarrow> bool" where
  "starts_with p s = (take (length p) s = p)"

text \<open>\<open>indexOf\<close>, with \<open>None\<close> for -1, and \<open>indexOf\<close> from a position.\<close>

fun index_of :: "'a list \<Rightarrow> 'a list \<Rightarrow> nat option" where
  "index_of n [] = (if n = [] then Some 0 else None)"
| "index_of n (c # s) = (if starts_with n (c # s) then Some 0 else map_option Suc (index_of n s))"

definition index_from :: "'a list \<Rightarrow> 'a list \<Rightarrow> nat \<Rightarrow> nat option" where
  "index_from n s from = map_option (\<lambda>i. from + i) (index_of n (drop from s))"

definition contains_text :: "'a list \<Rightarrow> 'a list \<Rightarrow> bool" where
  "contains_text s n = (index_of n s \<noteq> None)"

lemma starts_with_iff: "starts_with p s \<longleftrightarrow> (\<exists>t. s = p @ t)"
  unfolding starts_with_def by (metis append_eq_conv_conj append_take_drop_id)

lemma index_of_split: "index_of n s = Some i \<Longrightarrow> s = take i s @ n @ drop (i + length n) s \<and> i + length n \<le> length s"
proof (induction n s arbitrary: i rule: index_of.induct)
  case (2 n c s)
  show ?case
  proof (cases "starts_with n (c # s)")
    case True
    then obtain t where "c # s = n @ t" by (auto simp: starts_with_iff)
    moreover have "i = 0" using 2 True by simp
    ultimately show ?thesis by simp
  next
    case False
    then show ?thesis using 2 by (auto split: option.splits)
  qed
qed (auto split: if_splits)

lemma index_of_first: "index_of n s = Some i \<Longrightarrow> j < i \<Longrightarrow> \<not> starts_with n (drop j s)"
  by (induction n s arbitrary: i j rule: index_of.induct) (auto split: if_splits simp: drop_Cons split: nat.splits)

lemma index_of_None_iff: "index_of n s = None \<longleftrightarrow> (\<forall>j\<le>length s. \<not> starts_with n (drop j s))"
proof (induction n s rule: index_of.induct)
  case (2 n c s)
  have "(\<forall>j\<le>Suc (length s). \<not> starts_with n (drop j (c # s))) \<longleftrightarrow>
      \<not> starts_with n (c # s) \<and> (\<forall>j\<le>length s. \<not> starts_with n (drop j s))"
    by (auto simp: drop_Cons split: nat.splits)
  then show ?case using 2 by auto
qed (auto simp: starts_with_def)

lemma index_of_SomeI:
  "i \<le> length s \<Longrightarrow> starts_with n (drop i s) \<Longrightarrow> (\<And>j. j < i \<Longrightarrow> \<not> starts_with n (drop j s)) \<Longrightarrow> index_of n s = Some i"
proof (induction n s arbitrary: i rule: index_of.induct)
  case (2 n c s)
  show ?case
  proof (cases i)
    case (Suc k)
    have "index_of n s = Some k" using "2.prems" Suc "2.prems"(3) [of 0] by (intro "2.IH") force+
    then show ?thesis using "2.prems"(3) [of 0] Suc by simp
  qed (use "2.prems" in simp)
qed (auto simp: starts_with_def)

lemma index_of_append: "index_of n s = Some i \<Longrightarrow> index_of n (s @ t) = Some i"
proof (rule index_of_SomeI)
  assume found: "index_of n s = Some i"
  then have s: "s = take i s @ n @ drop (i + length n) s" "i + length n \<le> length s" using index_of_split by auto
  then have "drop i s = n @ drop (i + length n) s"
    by (metis add_leD1 append_eq_conv_conj length_take min.absorb2)
  then show "starts_with n (drop i (s @ t))" using s(2) by (simp add: starts_with_iff)
  show "i \<le> length (s @ t)" using s(2) by simp
  show "\<not> starts_with n (drop j (s @ t))" if j: "j < i" for j
  proof -
    have "drop j (s @ t) = drop j s @ t" using s(2) j by simp
    moreover have "length n \<le> length (drop j s)" using s(2) j by simp
    ultimately have "take (length n) (drop j (s @ t)) = take (length n) (drop j s)" by simp
    then show ?thesis using index_of_first [OF found j] by (simp only: starts_with_def not_False_eq_True)
  qed
qed

lemma index_from_split:
  assumes "index_from n s from = Some i" and "from \<le> length s"
  shows "from \<le> i \<and> i + length n \<le> length s \<and> take (length n) (drop i s) = n"
proof -
  obtain j where j: "index_of n (drop from s) = Some j" "i = from + j" using assms(1) by (auto simp: index_from_def)
  have "drop from s = take j (drop from s) @ n @ drop (j + length n) (drop from s)"
    "j + length n \<le> length (drop from s)" using index_of_split [OF j(1)] by auto
  moreover from this have "drop j (drop from s) = n @ drop (j + length n) (drop from s)"
    by (metis append_eq_conv_conj length_take min.absorb2 add_leD1)
  ultimately show ?thesis using assms(2) j(2) by (auto simp: add.commute)
qed

section \<open>Splitting and joining\<close>

fun split_on :: "'a \<Rightarrow> 'a list \<Rightarrow> 'a list list" where
  "split_on c [] = [[]]"
| "split_on c (x # xs) =
     (if x = c then [] # split_on c xs
      else case split_on c xs of [] \<Rightarrow> [[x]] | y # ys \<Rightarrow> (x # y) # ys)"

abbreviation lines_of :: "ustring \<Rightarrow> ustring list" where
  "lines_of \<equiv> split_on LF"

abbreviation unlines :: "ustring list \<Rightarrow> ustring" where
  "unlines \<equiv> js_join [LF]"

lemma split_on_not_Nil [simp]: "split_on c s \<noteq> []"
  by (induction s) (auto split: list.splits)

lemma js_join_Cons: "ys \<noteq> [] \<Longrightarrow> js_join sep (x # ys) = x @ sep @ js_join sep ys"
  by (cases ys) auto

lemma js_join_append:
  "xs \<noteq> [] \<Longrightarrow> ys \<noteq> [] \<Longrightarrow> js_join sep (xs @ ys) = js_join sep xs @ sep @ js_join sep ys"
  by (induction xs rule: induct_list012) (auto simp: js_join_Cons)

lemma join_split: "js_join [c] (split_on c s) = s"
proof (induction s)
  case (Cons x s)
  show ?case
  proof (cases "split_on c s")
    case (Cons y ys)
    then show ?thesis using Cons.IH by (cases ys) (auto simp: js_join_Cons)
  qed simp
qed simp

lemma split_on_free: "l \<in> set (split_on c s) \<Longrightarrow> c \<notin> set l"
  by (induction s arbitrary: l) (fastforce split: if_splits list.splits)+



lemma split_on_free_append: "c \<notin> set x \<Longrightarrow> split_on c (x @ c # s) = x # split_on c s"
  by (induction x) auto

lemma split_on_free_id: "c \<notin> set x \<Longrightarrow> split_on c x = [x]"
  by (induction x) auto

lemma split_join:
  assumes "xs \<noteq> []" and "\<And>x. x \<in> set xs \<Longrightarrow> c \<notin> set x"
  shows "split_on c (js_join [c] xs) = xs"
  using assms
proof (induction xs rule: induct_list012)
  case (3 x y ys)
  then show ?case by (simp add: split_on_free_append)
qed (simp_all add: split_on_free_id)

text \<open>Lines that each end with a break.\<close>

definition broken_lines :: "ustring list \<Rightarrow> ustring" where
  "broken_lines ls = concat (map (\<lambda>l. l @ [LF]) ls)"

lemma broken_lines_simps [simp]:
  "broken_lines [] = []" "broken_lines (l # ls) = l @ LF # broken_lines ls"
  "broken_lines (ls @ ls') = broken_lines ls @ broken_lines ls'"
  by (simp_all add: broken_lines_def)

lemma unlines_take_drop: "i < length ls \<Longrightarrow> unlines ls = broken_lines (take i ls) @ unlines (drop i ls)"
proof (induction ls arbitrary: i)
  case (Cons l ls)
  show ?case
  proof (cases i)
    case (Suc k)
    then have "ls \<noteq> []" "k < length ls" using Cons.prems by auto
    then show ?thesis using Cons.IH [of k] Suc by (simp add: js_join_Cons)
  qed simp
qed simp

lemma broken_unlines: "ls \<noteq> [] \<Longrightarrow> broken_lines ls = unlines ls @ [LF]"
  by (induction ls rule: induct_list012) simp_all

lemma unlines_take_prefix: "\<exists>rest. unlines ls = unlines (take k ls) @ rest"
proof (cases "k < length ls \<and> 0 < k")
  case True
  then have "take k ls \<noteq> []" by auto
  then show ?thesis using True unlines_take_drop [of k ls] broken_unlines [of "take k ls"] by simp
qed auto

lemma unlines_drop_suffix: "\<exists>front. unlines ls = front @ unlines (drop k ls)"
  using unlines_take_drop [of k ls] by (cases "k < length ls") auto

end
