(* ===== verification/EditMatch.thy ===== *)
theory EditMatch
  imports UStrings "HOL-Library.Product_Lexorder"
begin

text \<open>
  Finding the text an edit names (\<open>packages/coding-agent/src/core/tools/edit-diff.ts\<close>): line
  endings and byte order mark, normalisation for fuzzy matching, the exact, fuzzy, line by line and
  anchored search, and the hints of the error messages.

  The argument \<open>nfkc\<close> stands for \<open>String.prototype.normalize("NFKC")\<close>, a table of the
  Unicode standard; where a result needs that it leaves normalised text alone, the hypothesis
  \<open>nfkc_stable\<close> says so. \<open>None\<close> as a match is the result with \<open>found: false\<close>.
\<close>

section \<open>Line endings and byte order mark\<close>

datatype line_ending = EndLF | EndCRLF

definition detectLineEnding :: "ustring \<Rightarrow> line_ending" where
  "detectLineEnding content =
     (case (index_of [CR, LF] content, index_of [LF] content) of
        (_, None) \<Rightarrow> EndLF
      | (None, _) \<Rightarrow> EndLF
      | (Some crlfIdx, Some lfIdx) \<Rightarrow> (if crlfIdx < lfIdx then EndCRLF else EndLF))"

fun replace_crlf :: "ustring \<Rightarrow> ustring" where
  "replace_crlf [] = []"
| "replace_crlf [c] = [c]"
| "replace_crlf (c # d # s) = (if c = CR \<and> d = LF then LF # replace_crlf s else c # replace_crlf (d # s))"

definition normalizeToLF :: "ustring \<Rightarrow> ustring" where
  "normalizeToLF text = map (\<lambda>c. if c = CR then LF else c) (replace_crlf text)"

definition restoreLineEndings :: "ustring \<Rightarrow> line_ending \<Rightarrow> ustring" where
  "restoreLineEndings text ending =
     (if ending = EndCRLF then concat (map (\<lambda>c. if c = LF then [CR, LF] else [c]) text) else text)"

definition BOM :: ustring where
  "BOM = [65279]"

definition stripBom :: "ustring \<Rightarrow> ustring \<times> ustring" where
  "stripBom content = (if starts_with BOM content then (BOM, drop 1 content) else ([], content))"

section \<open>Normalisation for fuzzy matching\<close>

definition ascii_form :: "int \<Rightarrow> int" where
  "ascii_form c =
     (if c \<in> {8216, 8217, 8218, 8219} then 39
      else if c \<in> {8220, 8221, 8222, 8223} then 34
      else if c \<in> {8208, 8209, 8210, 8211, 8212, 8213, 8722} then 45
      else if c = 160 \<or> 8194 \<le> c \<and> c \<le> 8202 \<or> c = 8239 \<or> c = 8287 \<or> c = 12288 then 32
      else c)"

definition normalizeForFuzzyMatch :: "(ustring \<Rightarrow> ustring) \<Rightarrow> ustring \<Rightarrow> ustring" where
  "normalizeForFuzzyMatch nfkc text = map ascii_form (unlines (map trimEnd (lines_of (nfkc text))))"

fun collapse_blanks :: "bool \<Rightarrow> ustring \<Rightarrow> ustring" where
  "collapse_blanks inRun [] = []"
| "collapse_blanks inRun (c # s) =
     (if c = 32 \<or> c = 9 then (if inRun then collapse_blanks True s else 32 # collapse_blanks True s)
      else c # collapse_blanks False s)"

definition lineMatchKey :: "(ustring \<Rightarrow> ustring) \<Rightarrow> ustring \<Rightarrow> ustring" where
  "lineMatchKey nfkc line = collapse_blanks False (trimStart (normalizeForFuzzyMatch nfkc line))"

text \<open>
  The pattern for a copied line number: blanks, one to six digits, blanks, a bar or colon and at
  most one more blank. A seventh digit is neither blank, bar nor colon, so giving digits back never
  helps. The result is the text after the prefix.
\<close>

definition is_blank :: "int \<Rightarrow> bool" where
  "is_blank c = (c = 32 \<or> c = 9)"

definition is_udigit :: "int \<Rightarrow> bool" where
  "is_udigit c = (48 \<le> c \<and> c \<le> 57)"

definition copied_line_number :: "ustring \<Rightarrow> ustring option" where
  "copied_line_number line =
     (let s = dropWhile is_blank line;
          n = length (takeWhile is_udigit s)
      in if n < 1 \<or> 6 < n then None
         else case dropWhile is_blank (drop n s) of
                [] \<Rightarrow> None
              | c # r \<Rightarrow>
                  (if c = 124 \<or> c = 58
                   then Some (case r of [] \<Rightarrow> [] | d # r' \<Rightarrow> if is_blank d then r' else r)
                   else None))"

definition strip_line_number :: "ustring \<Rightarrow> ustring" where
  "strip_line_number line = (case copied_line_number line of None \<Rightarrow> line | Some r \<Rightarrow> r)"

definition stripCopiedLineNumbers :: "ustring \<Rightarrow> ustring" where
  "stripCopiedLineNumbers oldText =
     (let lines = lines_of oldText;
          nonempty = filter (\<lambda>line. length (utrim line) > 0) lines
      in if length nonempty = 0 then oldText
         else
           let prefixed = filter (\<lambda>line. copied_line_number line \<noteq> None) nonempty
           in if length prefixed * 2 < length nonempty then oldText
              else unlines (map strip_line_number lines))"

section \<open>Matching line by line\<close>

record span =
  sp_index :: nat
  sp_matchLength :: nat

definition needleLineKeys :: "(ustring \<Rightarrow> ustring) \<Rightarrow> ustring \<Rightarrow> ustring list" where
  "needleLineKeys nfkc oldText =
     (let lines = map (lineMatchKey nfkc) (lines_of oldText)
      in if length lines > 1 \<and> last lines = [] then butlast lines else lines)"

fun line_starts :: "nat \<Rightarrow> ustring list \<Rightarrow> nat list" where
  "line_starts offset [] = []"
| "line_starts offset (l # ls) = offset # line_starts (offset + length l + (if ls = [] then 0 else 1)) ls"

definition lineStartOffsets :: "ustring \<Rightarrow> ustring list \<times> nat list" where
  "lineStartOffsets content = (let lines = lines_of content in (lines, line_starts 0 lines))"

text \<open>The span from the start of one line to the end of another, with its line break.\<close>

definition line_span :: "ustring \<Rightarrow> nat \<Rightarrow> nat \<Rightarrow> span" where
  "line_span content i j =
     (let (lines, starts) = lineStartOffsets content;
          end' = starts ! j + length (lines ! j) + (if j < length lines - 1 then 1 else 0)
      in \<lparr>sp_index = starts ! i, sp_matchLength = end' - starts ! i\<rparr>)"

definition collectLineSpans :: "(ustring \<Rightarrow> ustring) \<Rightarrow> ustring \<Rightarrow> ustring \<Rightarrow> span list" where
  "collectLineSpans nfkc content oldText =
     (let needle = needleLineKeys nfkc oldText
      in if length needle = 0 \<or> list_all (\<lambda>line. length line = 0) needle then []
         else
           let keys = map (lineMatchKey nfkc) (lines_of content)
           in map (\<lambda>i. line_span content i (i + length needle - 1))
                (filter (\<lambda>i. take (length needle) (drop i keys) = needle)
                   [0..<Suc (length keys) - length needle]))"

definition findUniqueLineSpan :: "(ustring \<Rightarrow> ustring) \<Rightarrow> ustring \<Rightarrow> ustring \<Rightarrow> span option" where
  "findUniqueLineSpan nfkc content oldText =
     (case collectLineSpans nfkc content oldText of [s] \<Rightarrow> Some s | _ \<Rightarrow> None)"

section \<open>Exact and fuzzy matching\<close>

datatype match_kind = MatchExact | MatchFuzzy | MatchLineSpan | MatchAnchor

record fuzzy_match =
  fm_index :: nat
  fm_matchLength :: nat
  fm_usedFuzzyMatch :: bool
  fm_contentForReplacement :: ustring
  fm_kind :: match_kind

definition fuzzyFindText :: "(ustring \<Rightarrow> ustring) \<Rightarrow> ustring \<Rightarrow> ustring \<Rightarrow> fuzzy_match option" where
  "fuzzyFindText nfkc content oldText =
     (case index_of oldText content of
        Some exactIndex \<Rightarrow>
          Some \<lparr>fm_index = exactIndex, fm_matchLength = length oldText, fm_usedFuzzyMatch = False,
            fm_contentForReplacement = content, fm_kind = MatchExact\<rparr>
      | None \<Rightarrow>
          (let fuzzyContent = normalizeForFuzzyMatch nfkc content;
               fuzzyOldText = normalizeForFuzzyMatch nfkc oldText
           in case index_of fuzzyOldText fuzzyContent of
                Some fuzzyIndex \<Rightarrow>
                  Some \<lparr>fm_index = fuzzyIndex, fm_matchLength = length fuzzyOldText, fm_usedFuzzyMatch = True,
                    fm_contentForReplacement = fuzzyContent, fm_kind = MatchFuzzy\<rparr>
              | None \<Rightarrow>
                  (case findUniqueLineSpan nfkc content oldText of
                     Some lineSpan \<Rightarrow>
                       Some \<lparr>fm_index = sp_index lineSpan, fm_matchLength = sp_matchLength lineSpan,
                         fm_usedFuzzyMatch = False, fm_contentForReplacement = content, fm_kind = MatchLineSpan\<rparr>
                   | None \<Rightarrow> None)))"


section \<open>Anchored blocks\<close>

fun overlap_scan :: "ustring list \<Rightarrow> ustring list \<Rightarrow> nat \<Rightarrow> nat" where
  "overlap_scan [] keys matched = matched"
| "overlap_scan (line # needle) keys matched =
     (case dropWhile (\<lambda>k. k \<noteq> line) keys of
        [] \<Rightarrow> matched
      | _ # rest \<Rightarrow> overlap_scan needle rest (matched + 1))"

definition orderedLineOverlap :: "ustring list \<Rightarrow> ustring list \<Rightarrow> nat \<Rightarrow> nat \<Rightarrow> nat" where
  "orderedLineOverlap needle keys start end' =
     overlap_scan (butlast (drop 1 needle)) (js_slice (start + 1) end' keys) 2"

record anchor_candidate =
  an_end :: nat
  an_score :: nat
  an_distance :: nat

definition sort_candidates :: "anchor_candidate list \<Rightarrow> anchor_candidate list" where
  "sort_candidates cs = sort_key (\<lambda>c. (- int (an_score c), an_distance c)) cs"

definition anchor_candidates :: "ustring list \<Rightarrow> ustring list \<Rightarrow> nat \<Rightarrow> anchor_candidate list" where
  "anchor_candidates needle keys start =
     (let endKey = last needle;
          minSpan = max 4 (length needle div 2);
          maxSpan = length needle * 2;
          lastAllowed = min (length keys - 1) (start + maxSpan - 1)
      in map (\<lambda>end'. \<lparr>an_end = end', an_score = orderedLineOverlap needle keys start end',
                 an_distance = nat \<bar>int end' - int start + 1 - int (length needle)\<bar>\<rparr>)
           (filter (\<lambda>end'. keys ! end' = endKey) [start + minSpan - 1..<Suc lastAllowed]))"

definition findAnchoredBlock :: "(ustring \<Rightarrow> ustring) \<Rightarrow> ustring \<Rightarrow> ustring \<Rightarrow> span option" where
  "findAnchoredBlock nfkc content oldText =
     (let needle = filter (\<lambda>line. length line > 0) (needleLineKeys nfkc oldText)
      in if length needle < 4 then None
         else if length (hd needle) < 12 \<or> length (last needle) = 0 then None
         else
           let keys = map (lineMatchKey nfkc) (lines_of content)
           in case filter (\<lambda>i. keys ! i = hd needle) [0..<length keys] of
                [start] \<Rightarrow>
                  (case sort_candidates (anchor_candidates needle keys start) of
                     [] \<Rightarrow> None
                   | best # rest \<Rightarrow>
                       (if (case rest of [] \<Rightarrow> False
                            | rival # _ \<Rightarrow> an_score rival = an_score best \<and> an_distance rival = an_distance best)
                        then None
                        else Some (line_span content start (an_end best))))
              | _ \<Rightarrow> None)"

definition oldTextForMatch :: "(ustring \<Rightarrow> ustring) \<Rightarrow> ustring \<Rightarrow> ustring \<Rightarrow> ustring" where
  "oldTextForMatch nfkc content oldText =
     (if fuzzyFindText nfkc content oldText \<noteq> None \<or> findAnchoredBlock nfkc content oldText \<noteq> None then oldText
      else
        let stripped = stripCopiedLineNumbers oldText
        in if stripped \<noteq> oldText \<and>
              (fuzzyFindText nfkc content stripped \<noteq> None \<or> findAnchoredBlock nfkc content stripped \<noteq> None)
           then stripped else oldText)"

section \<open>All matches\<close>

text \<open>The loop moves past each match; an empty needle has been turned away before.\<close>

function match_spans :: "ustring \<Rightarrow> ustring \<Rightarrow> nat \<Rightarrow> span list" where
  "match_spans needle haystack from =
     (if needle = [] \<or> \<not> from + length needle \<le> length haystack then []
      else case index_from needle haystack from of
             None \<Rightarrow> []
           | Some i \<Rightarrow>
               \<lparr>sp_index = i, sp_matchLength = length needle\<rparr> # match_spans needle haystack (i + length needle))"
  by auto

lemma index_from_ge: "index_from n s from = Some i \<Longrightarrow> from \<le> i"
  by (auto simp: index_from_def)

termination match_spans
  by (relation "measure (\<lambda>(needle, haystack, from). length haystack - from)")
    (auto dest!: index_from_ge simp: neq_Nil_conv)

declare match_spans.simps [simp del]

definition collectAllMatches ::
  "(ustring \<Rightarrow> ustring) \<Rightarrow> ustring \<Rightarrow> ustring \<Rightarrow> match_kind \<Rightarrow> span list" where
  "collectAllMatches nfkc content oldText kind =
     (if kind = MatchLineSpan then collectLineSpans nfkc content oldText
      else if kind = MatchAnchor then
        (case findAnchoredBlock nfkc content oldText of Some s \<Rightarrow> [s] | None \<Rightarrow> [])
      else
        let haystack = (if kind = MatchFuzzy then normalizeForFuzzyMatch nfkc content else content);
            needle = (if kind = MatchFuzzy then normalizeForFuzzyMatch nfkc oldText else oldText)
        in if length needle = 0 then [] else match_spans needle haystack 0)"

text \<open>\<open>split\<close> at a text, and the number of pieces less one; an empty text splits every unit off.\<close>

function split_text :: "ustring \<Rightarrow> ustring \<Rightarrow> ustring list" where
  "split_text needle s =
     (if needle = [] then map (\<lambda>c. [c]) s
      else case index_of needle s of
             None \<Rightarrow> [s]
           | Some i \<Rightarrow> take i s # split_text needle (drop (i + length needle) s))"
  by auto

termination split_text
  by (relation "measure (\<lambda>(needle, s). length s)") (auto dest!: index_of_split [THEN conjunct2] simp: neq_Nil_conv)

declare split_text.simps [simp del]

definition countOccurrences :: "(ustring \<Rightarrow> ustring) \<Rightarrow> ustring \<Rightarrow> ustring \<Rightarrow> int" where
  "countOccurrences nfkc content oldText =
     int (length (split_text (normalizeForFuzzyMatch nfkc oldText) (normalizeForFuzzyMatch nfkc content))) - 1"


section \<open>Where the matches are\<close>

definition span_text :: "ustring \<Rightarrow> span \<Rightarrow> ustring" where
  "span_text content s = js_slice (sp_index s) (sp_index s + sp_matchLength s) content"

definition in_bounds :: "ustring \<Rightarrow> span \<Rightarrow> bool" where
  "in_bounds content s = (sp_index s + sp_matchLength s \<le> length content)"

text \<open>Whole lines \<open>i\<close> to \<open>j\<close> of the content, with the break that follows them.\<close>

definition line_block :: "ustring list \<Rightarrow> nat \<Rightarrow> nat \<Rightarrow> ustring" where
  "line_block ls i j =
     (if j < length ls - 1 then broken_lines (js_slice i (Suc j) ls) else unlines (drop i ls))"

lemma nth_line_starts: "i < length ls \<Longrightarrow> line_starts offset ls ! i = offset + length (broken_lines (take i ls))"
proof (induction ls arbitrary: i offset)
  case (Cons l ls)
  then show ?case by (cases i) auto
qed simp

lemma line_span_block:
  assumes "i \<le> j" and "j < length (lines_of content)"
  shows "in_bounds content (line_span content i j) \<and>
    span_text content (line_span content i j) = line_block (lines_of content) i j"
proof -
  let ?ls = "lines_of content"
  let ?pre = "broken_lines (take i ?ls)"
  have content: "content = ?pre @ unlines (drop i ?ls)"
    using unlines_take_drop [of i ?ls] assms join_split by (metis le_less_trans)
  have start: "line_starts 0 ?ls ! i = length ?pre" using nth_line_starts assms by simp
  obtain post where post: "unlines (drop i ?ls) = line_block ?ls i j @ post"
  proof (cases "j < length ?ls - 1")
    case True
    then have "unlines (drop i ?ls) = broken_lines (take (Suc j - i) (drop i ?ls)) @ unlines (drop (Suc j) ?ls)"
      using unlines_take_drop [of "Suc j - i" "drop i ?ls"] assms by simp
    then show ?thesis using True that by (simp add: line_block_def js_slice_def)
  qed (use that in \<open>simp add: line_block_def\<close>)
  have "line_starts 0 ?ls ! j + length (?ls ! j) + (if j < length ?ls - 1 then 1 else 0) =
      length ?pre + length (line_block ?ls i j)"
  proof (cases "j < length ?ls - 1")
    case True
    have "take (Suc j) ?ls = take i ?ls @ js_slice i (Suc j) ?ls"
      using assms(1) by (simp add: js_slice_def flip: take_add)
    moreover have "take (Suc j) ?ls = take j ?ls @ [?ls ! j]" using assms(2) by (simp add: take_Suc_conv_app_nth)
    ultimately have "broken_lines (take j ?ls) @ ?ls ! j @ [LF] = ?pre @ broken_lines (js_slice i (Suc j) ?ls)"
      by (metis broken_lines_simps append_Nil2)
    from arg_cong [OF this, of length] show ?thesis
      using True nth_line_starts [OF assms(2)] by (simp add: line_block_def)
  next
    case False
    then have j: "Suc j = length ?ls" using assms(2) by simp
    have "content = broken_lines (take j ?ls) @ ?ls ! j"
      using unlines_take_drop [OF assms(2)] j join_split [of LF content]
        Cons_nth_drop_Suc [OF assms(2)] by (metis drop_all js_join.simps(2) order_refl)
    from arg_cong [OF this, of length] arg_cong [OF content, of length] show ?thesis
      using False nth_line_starts [OF assms(2)] by (simp add: line_block_def)
  qed
  then have span: "line_span content i j = \<lparr>sp_index = length ?pre, sp_matchLength = length (line_block ?ls i j)\<rparr>"
    using start by (simp add: line_span_def lineStartOffsets_def Let_def)
  define block where "block = line_block ?ls i j"
  have "content = ?pre @ block @ post" using content post by (simp add: block_def)
  then obtain pre where "content = pre @ block @ post" "length pre = length ?pre" by blast
  then show ?thesis
    unfolding span in_bounds_def span_text_def js_slice_def block_def [symmetric] by simp
qed


section \<open>What a search returns\<close>

text \<open>
  A span shows the text an edit names when it holds that text or its normal form, when its lines have
  the keys of the text's lines, or when it starts and ends with lines of these keys.
\<close>

definition located :: "(ustring \<Rightarrow> ustring) \<Rightarrow> ustring \<Rightarrow> ustring \<Rightarrow> span \<Rightarrow> bool" where
  "located nfkc content old s =
     (in_bounds content s \<and>
      (span_text content s \<in> {old, normalizeForFuzzyMatch nfkc old} \<or>
       (\<exists>i j. i \<le> j \<and> j < length (lines_of content) \<and> s = line_span content i j \<and>
          (let keys = map (lineMatchKey nfkc) (js_slice i (Suc j) (lines_of content));
               needle = needleLineKeys nfkc old
           in keys = needle \<or>
              hd keys = hd (filter (\<lambda>l. l \<noteq> []) needle) \<and> last keys = last (filter (\<lambda>l. l \<noteq> []) needle)))))"

lemma located_exact: "index_of old content = Some i \<Longrightarrow> located nfkc content old \<lparr>sp_index = i, sp_matchLength = length old\<rparr>"
  using index_of_split [of old content i] index_from_split [of old content 0 i]
  by (simp add: located_def in_bounds_def span_text_def js_slice_def index_from_def)

lemma located_fuzzy:
  "index_of (normalizeForFuzzyMatch nfkc old) content = Some i \<Longrightarrow>
   located nfkc content old \<lparr>sp_index = i, sp_matchLength = length (normalizeForFuzzyMatch nfkc old)\<rparr>"
  using index_from_split [of "normalizeForFuzzyMatch nfkc old" content 0 i]
  by (simp add: located_def in_bounds_def span_text_def js_slice_def index_from_def)

lemma located_blockI:
  assumes "i \<le> j" and "j < length (lines_of content)" and "s = line_span content i j"
    and "map (lineMatchKey nfkc) (js_slice i (Suc j) (lines_of content)) = needleLineKeys nfkc old \<or>
      hd (map (lineMatchKey nfkc) (js_slice i (Suc j) (lines_of content))) = hd (filter (\<lambda>l. l \<noteq> []) (needleLineKeys nfkc old)) \<and>
      last (map (lineMatchKey nfkc) (js_slice i (Suc j) (lines_of content))) = last (filter (\<lambda>l. l \<noteq> []) (needleLineKeys nfkc old))"
  shows "located nfkc content old s"
proof -
  have "in_bounds content s" using line_span_block [OF assms(1,2)] assms(3) by simp
  then show ?thesis
    unfolding located_def Let_def
    apply (rule conjI)
    apply (rule disjI2)
    apply (rule exI [of _ i])
    apply (rule exI [of _ j])
    using assms by simp
qed

lemma located_lines:
  assumes "s \<in> set (collectLineSpans nfkc content old)"
  shows "located nfkc content old s"
proof -
  let ?needle = "needleLineKeys nfkc old" and ?ls = "lines_of content"
  obtain i where i: "i < Suc (length ?ls) - length ?needle" "?needle \<noteq> []"
      "take (length ?needle) (drop i (map (lineMatchKey nfkc) ?ls)) = ?needle"
      "s = line_span content i (i + length ?needle - 1)"
    using assms by (auto simp: collectLineSpans_def Let_def split: if_splits)
  let ?j = "i + length ?needle - 1"
  have n: "0 < length ?needle" using i(2) by simp
  then have j: "i \<le> ?j" "?j < length ?ls" "Suc ?j - i = length ?needle" using i(1) by linarith+
  then have "map (lineMatchKey nfkc) (js_slice i (Suc ?j) ?ls) = ?needle"
    using i(3) by (simp add: js_slice_def take_map drop_map)
  then have "map (lineMatchKey nfkc) (js_slice i (Suc ?j) ?ls) = ?needle \<and> i \<le> ?j \<and> ?j < length ?ls \<and>
      s = line_span content i ?j" using j i(4) by simp
  then show ?thesis using located_blockI [of i ?j] by blast
qed

lemma located_unique_lines:
  assumes "findUniqueLineSpan nfkc content old = Some s"
  shows "located nfkc content old s"
proof -
  have "collectLineSpans nfkc content old = [s]"
    using assms by (simp add: findUniqueLineSpan_def split: list.splits)
  then show ?thesis using located_lines [of s nfkc content old] by simp
qed

lemma anchor_candidatesD:
  assumes "c \<in> set (anchor_candidates needle keys start)"
  shows "start \<le> an_end c \<and> keys ! an_end c = last needle \<and> (keys \<noteq> [] \<longrightarrow> an_end c < length keys)"
proof -
  define lo where "lo = max 4 (length needle div 2)"
  define hi where "hi = min (length keys - 1) (start + length needle * 2 - 1)"
  have "c \<in> (\<lambda>e. \<lparr>an_end = e, an_score = orderedLineOverlap needle keys start e,
      an_distance = nat \<bar>int e - int start + 1 - int (length needle)\<bar>\<rparr>) `
      {e \<in> set [start + lo - 1..<Suc hi]. keys ! e = last needle}"
    using assms unfolding anchor_candidates_def Let_def lo_def hi_def by (simp only: set_map set_filter)
  then obtain e where "an_end c = e" "keys ! e = last needle" "start + lo - 1 \<le> e" "e < Suc hi" by auto
  moreover have "4 \<le> lo" "hi \<le> length keys - 1" by (simp_all add: lo_def hi_def)
  ultimately show ?thesis by (cases keys) auto
qed

lemma located_anchor:
  assumes "findAnchoredBlock nfkc content old = Some s"
  shows "located nfkc content old s"
proof -
  let ?needle = "filter (\<lambda>l. l \<noteq> []) (needleLineKeys nfkc old)" and ?ls = "lines_of content"
  let ?keys = "map (lineMatchKey nfkc) ?ls"
  obtain start best rest where f: "filter (\<lambda>i. ?keys ! i = hd ?needle) [0..<length ?keys] = [start]"
      "sort_candidates (anchor_candidates ?needle ?keys start) = best # rest" "s = line_span content start (an_end best)"
    using assms by (simp add: findAnchoredBlock_def Let_def split: if_splits list.splits)
  have "start \<in> set (filter (\<lambda>i. ?keys ! i = hd ?needle) [0..<length ?keys])" unfolding f(1) by simp
  then have start: "start < length ?ls" "lineMatchKey nfkc (?ls ! start) = hd ?needle" by auto
  have "best \<in> set (sort_candidates (anchor_candidates ?needle ?keys start))" unfolding f(2) by simp
  then have "best \<in> set (anchor_candidates ?needle ?keys start)" by (simp add: sort_candidates_def)
  from anchor_candidatesD [OF this]
  have best: "start \<le> an_end best" "an_end best < length ?ls" "lineMatchKey nfkc (?ls ! an_end best) = last ?needle"
    by auto
  let ?block = "js_slice start (Suc (an_end best)) ?ls"
  have block: "length ?block = Suc (an_end best) - start" using best by simp
  then have "?block \<noteq> []" using best(1) by (metis Suc_diff_le length_0_conv nat.distinct(1))
  moreover from this have "hd ?block = ?ls ! start" using best(1) by (simp add: js_slice_def hd_conv_nth)
  moreover have "last ?block = ?ls ! an_end best"
    using \<open>?block \<noteq> []\<close> block best(1,2) by (simp add: last_conv_nth js_slice_def)
  ultimately have "hd (map (lineMatchKey nfkc) ?block) = hd ?needle" "last (map (lineMatchKey nfkc) ?block) = last ?needle"
    using start best by (simp_all add: hd_map last_map)
  then show ?thesis using located_blockI [OF best(1,2) f(3)] by blast
qed


lemma match_spans_text:
  "s \<in> set (match_spans needle haystack from) \<Longrightarrow>
   in_bounds haystack s \<and> span_text haystack s = needle"
proof (induction needle haystack "from" rule: match_spans.induct)
  case (1 needle haystack "from")
  from "1.prems" obtain i where bound: "needle \<noteq> []" "from + length needle \<le> length haystack"
    and i: "index_from needle haystack from = Some i"
    and s: "s = \<lparr>sp_index = i, sp_matchLength = length needle\<rparr> \<or> s \<in> set (match_spans needle haystack (i + length needle))"
    using match_spans.simps [of needle haystack "from"] by (auto split: if_splits option.splits)
  from s show ?case
  proof
    assume "s = \<lparr>sp_index = i, sp_matchLength = length needle\<rparr>"
    then show ?thesis using index_from_split [OF i] bound by (simp add: in_bounds_def span_text_def js_slice_def)
  next
    assume "s \<in> set (match_spans needle haystack (i + length needle))"
    then show ?thesis using "1.IH" i bound by simp
  qed
qed

text \<open>
  \<open>nfkc_stable\<close>: compatibility normalisation changes nothing in a text that has been normalised
  and had trailing white space, quotes, dashes and spaces replaced, as for the function of the
  Unicode standard.
\<close>

definition nfkc_stable :: "(ustring \<Rightarrow> ustring) \<Rightarrow> bool" where
  "nfkc_stable nfkc = (\<forall>s. nfkc (normalizeForFuzzyMatch nfkc s) = normalizeForFuzzyMatch nfkc s)"

lemma ascii_form_idem [simp]: "ascii_form (ascii_form c) = ascii_form c"
  by (simp add: ascii_form_def)

lemma ascii_form_space: "is_uspace (ascii_form c) \<Longrightarrow> is_uspace c"
  by (auto simp: ascii_form_def is_uspace_def split: if_splits)

lemma ascii_form_LF [simp]: "ascii_form c = LF \<longleftrightarrow> c = LF"
  by (simp add: ascii_form_def)

lemma dropWhile_map_ascii: "dropWhile is_uspace s = s \<Longrightarrow> dropWhile is_uspace (map ascii_form s) = map ascii_form s"
  unfolding dropWhile_eq_self_iff using ascii_form_space by (cases s) auto

lemma trimEnd_ascii: "trimEnd (map ascii_form (trimEnd l)) = map ascii_form (trimEnd l)"
  using dropWhile_map_ascii [of "dropWhile is_uspace (rev l)"] by (simp add: trimEnd_def rev_map dropWhile_idem)

lemma map_unlines: "map ascii_form (unlines ls) = unlines (map (map ascii_form) ls)"
  by (induction ls rule: induct_list012) (simp_all add: ascii_form_def [of LF])

lemma normalize_idem:
  assumes "nfkc_stable nfkc"
  shows "normalizeForFuzzyMatch nfkc (normalizeForFuzzyMatch nfkc s) = normalizeForFuzzyMatch nfkc s"
proof -
  let ?ls = "map (\<lambda>l. map ascii_form (trimEnd l)) (lines_of (nfkc s))"
  have norm: "normalizeForFuzzyMatch nfkc s = unlines ?ls"
    by (simp add: normalizeForFuzzyMatch_def map_unlines comp_def)
  have free: "LF \<notin> set (map ascii_form (trimEnd l))" if "l \<in> set (lines_of (nfkc s))" for l
    using split_on_free [OF that] set_dropWhileD by (fastforce simp: trimEnd_def)
  have "lines_of (unlines ?ls) = ?ls"
    by (rule split_join) (use free in auto)
  then have "normalizeForFuzzyMatch nfkc (unlines ?ls) = map ascii_form (unlines (map trimEnd ?ls))"
    using assms unfolding norm [symmetric] by (simp add: nfkc_stable_def normalizeForFuzzyMatch_def)
  also have "map trimEnd ?ls = ?ls" by (simp add: trimEnd_ascii comp_def)
  also have "map ascii_form (unlines ?ls) = unlines ?ls" by (simp add: map_unlines comp_def)
  finally show ?thesis unfolding norm .
qed

end
