(* ===== verification/EditDiff.thy ===== *)
theory EditDiff
  imports EditMatch
begin

text \<open>
  Applying edits and rendering the difference (\<open>packages/coding-agent/src/core/tools/edit-diff.ts\<close>):
  the messages of the errors, the replacement of all matched spans, and the numbered diff. The
  comparison of two texts by lines is the package \<open>diff\<close>, an argument \<open>diffLines\<close> here.
\<close>

section \<open>Edits and errors\<close>

record edit =
  ed_oldText :: ustring
  ed_newText :: ustring
  ed_replaceAll :: bool

record matched_edit =
  me_editIndex :: nat
  me_matchIndex :: nat
  me_matchLength :: nat
  me_newText :: ustring

record applied_edits =
  ar_baseContent :: ustring
  ar_newContent :: ustring
  ar_unchanged :: bool

text \<open>\<open>JSON.stringify\<close> of a string, with lone surrogates escaped.\<close>

definition unit_escape :: "int \<Rightarrow> ustring" where
  "unit_escape c =
     ucs [CHR 92, CHR ''u'', hex_digit (nat (c div 4096)), hex_digit (nat (c div 256 mod 16)),
       hex_digit (nat (c div 16 mod 16)), hex_digit (nat (c mod 16))]"

definition quoted_unit :: "int \<Rightarrow> ustring" where
  "quoted_unit c =
     (if c = 34 \<or> c = 92 then [92, c]
      else if c = 8 then [92, 98] else if c = 9 then [92, 116] else if c = 10 then [92, 110]
      else if c = 12 then [92, 102] else if c = 13 then [92, 114]
      else if c < 32 \<or> 55296 \<le> c \<and> c \<le> 57343 then unit_escape c
      else [c])"

fun quoted_units :: "ustring \<Rightarrow> ustring" where
  "quoted_units [] = []"
| "quoted_units [c] = quoted_unit c"
| "quoted_units (c # d # s) =
     (if 55296 \<le> c \<and> c \<le> 56319 \<and> 56320 \<le> d \<and> d \<le> 57343 then [c, d] @ quoted_units s
      else quoted_unit c @ quoted_units (d # s))"

definition stringify_text :: "ustring \<Rightarrow> ustring" where
  "stringify_text s = [34] @ quoted_units s @ [34]"

text \<open>
  The pieces between white space. Runs of white space only add empty pieces, which the caller drops
  with every piece shorter than four units.
\<close>

definition space_pieces :: "ustring \<Rightarrow> ustring list" where
  "space_pieces s = split_on 32 (map (\<lambda>c. if is_uspace c then 32 else c) s)"

definition longest_token :: "ustring \<Rightarrow> ustring option" where
  "longest_token oldText =
     (case sort_key (\<lambda>p. - int (length p)) (filter (\<lambda>p. 4 \<le> length p) (space_pieces oldText)) of
        [] \<Rightarrow> None
      | token # _ \<Rightarrow> Some token)"

definition numbered_line :: "ustring list \<Rightarrow> nat \<Rightarrow> ustring" where
  "numbered_line lines i = ucs ''  '' @ ucs (show_nat (i + 1)) @ ucs '': '' @ lines ! i"

definition similarLineHint :: "ustring \<Rightarrow> ustring \<Rightarrow> ustring" where
  "similarLineHint content oldText =
     (case longest_token oldText of
        None \<Rightarrow> []
      | Some token \<Rightarrow>
          (let lines = lines_of content;
               found = filter (\<lambda>i. contains_text (lines ! i) token) [0..<length lines];
               hits = map (numbered_line lines) (take 5 found)
           in if length hits = 0 then []
              else
                let firstHit = hd found;
                    window = unlines (map (numbered_line lines) [firstHit..<min (length lines) (firstHit + 12)]);
                    clipped = (if 1200 < length window then take 1200 window @ [LF, 32, 32, 8230] else window)
                in ucs '' Lines still containing '' @ stringify_text token @ ucs '':'' @ [LF] @ unlines hits @ [LF] @
                   ucs '' Current text from the first hit:'' @ [LF] @ clipped))"

definition getNotFoundError :: "ustring \<Rightarrow> nat \<Rightarrow> nat \<Rightarrow> ustring \<Rightarrow> ustring \<Rightarrow> ustring" where
  "getNotFoundError path editIndex totalEdits content oldText =
     (let hint = ucs ''Re-read the file and retry edit with the current text. Do not rewrite the entire file.'';
          prefix =
            (if totalEdits = 1
             then ucs ''Could not find the exact text in '' @ path @
                  ucs ''. The old text must match the current file. '' @ hint
             else ucs ''Could not find edits['' @ ucs (show_nat editIndex) @ ucs ''] in '' @ path @
                  ucs ''. The oldText must match the current file. '' @ hint)
      in prefix @ similarLineHint content oldText)"

definition getDuplicateError :: "ustring \<Rightarrow> nat \<Rightarrow> nat \<Rightarrow> int \<Rightarrow> ustring" where
  "getDuplicateError path editIndex totalEdits occurrences =
     (let hint = ucs ''Add more context to oldText, or set replaceAll true to change every occurrence. Do not rewrite the file.''
      in if totalEdits = 1
         then ucs ''Found '' @ ucs (show_int occurrences) @ ucs '' occurrences of the text in '' @ path @ ucs ''. '' @ hint
         else ucs ''Found '' @ ucs (show_int occurrences) @ ucs '' occurrences of edits['' @ ucs (show_nat editIndex) @
              ucs ''] in '' @ path @ ucs ''. '' @ hint)"

definition getEmptyOldTextError :: "ustring \<Rightarrow> nat \<Rightarrow> nat \<Rightarrow> ustring" where
  "getEmptyOldTextError path editIndex totalEdits =
     (if totalEdits = 1 then ucs ''oldText must not be empty in '' @ path @ ucs ''.''
      else ucs ''edits['' @ ucs (show_nat editIndex) @ ucs ''].oldText must not be empty in '' @ path @ ucs ''.'')"

definition overlap_error :: "ustring \<Rightarrow> nat \<Rightarrow> nat \<Rightarrow> ustring" where
  "overlap_error path i j =
     ucs ''edits['' @ ucs (show_nat i) @ ucs ''] and edits['' @ ucs (show_nat j) @ ucs ''] overlap in '' @ path @
     ucs ''. Merge them into one edit or target disjoint regions.''"

definition unchangedEditMessage :: "ustring \<Rightarrow> ustring" where
  "unchangedEditMessage path =
     ucs ''No change needed in '' @ path @
     ucs ''. The matched text already equals the replacement. Continue with the next step. Do not rewrite the file.''"

section \<open>Applying edits\<close>

definition normalize_edit :: "(ustring \<Rightarrow> ustring) \<Rightarrow> ustring \<Rightarrow> edit \<Rightarrow> edit" where
  "normalize_edit nfkc content e =
     \<lparr>ed_oldText = oldTextForMatch nfkc content (normalizeToLF (ed_oldText e)),
      ed_newText = normalizeToLF (ed_newText e), ed_replaceAll = ed_replaceAll e\<rparr>"

text \<open>The match of one edit: the direct one, else an anchored block.\<close>

definition find_match :: "(ustring \<Rightarrow> ustring) \<Rightarrow> ustring \<Rightarrow> ustring \<Rightarrow> fuzzy_match option" where
  "find_match nfkc base oldText =
     (case fuzzyFindText nfkc base oldText of
        Some direct \<Rightarrow> Some direct
      | None \<Rightarrow>
          (case findAnchoredBlock nfkc base oldText of
             Some s \<Rightarrow>
               Some \<lparr>fm_index = sp_index s, fm_matchLength = sp_matchLength s, fm_usedFuzzyMatch = False,
                 fm_contentForReplacement = base, fm_kind = MatchAnchor\<rparr>
           | None \<Rightarrow> None))"

definition count_matches :: "(ustring \<Rightarrow> ustring) \<Rightarrow> ustring \<Rightarrow> ustring \<Rightarrow> match_kind \<Rightarrow> int" where
  "count_matches nfkc base oldText kind =
     (if kind = MatchLineSpan then int (length (collectLineSpans nfkc base oldText))
      else if kind = MatchAnchor then 1
      else countOccurrences nfkc base oldText)"

definition match_edit ::
  "(ustring \<Rightarrow> ustring) \<Rightarrow> ustring \<Rightarrow> ustring \<Rightarrow> nat \<Rightarrow> nat \<Rightarrow> edit \<Rightarrow> ustring + matched_edit list" where
  "match_edit nfkc path base totalEdits i e =
     (case find_match nfkc base (ed_oldText e) of
        None \<Rightarrow> Inl (getNotFoundError path i totalEdits base (ed_oldText e))
      | Some r \<Rightarrow>
          (let spans =
                 (if ed_replaceAll e then collectAllMatches nfkc base (ed_oldText e) (fm_kind r)
                  else [\<lparr>sp_index = fm_index r, sp_matchLength = fm_matchLength r\<rparr>]);
               occurrences = count_matches nfkc base (ed_oldText e) (fm_kind r)
           in if \<not> ed_replaceAll e \<and> occurrences > 1 then Inl (getDuplicateError path i totalEdits occurrences)
              else Inr (map (\<lambda>s. \<lparr>me_editIndex = i, me_matchIndex = sp_index s,
                       me_matchLength = sp_matchLength s, me_newText = ed_newText e\<rparr>) spans)))"

primrec match_edits ::
  "(ustring \<Rightarrow> ustring) \<Rightarrow> ustring \<Rightarrow> ustring \<Rightarrow> nat \<Rightarrow> nat \<Rightarrow> edit list \<Rightarrow> ustring + matched_edit list" where
  "match_edits nfkc path base totalEdits i [] = Inr []"
| "match_edits nfkc path base totalEdits i (e # es) =
     (case match_edit nfkc path base totalEdits i e of
        Inl err \<Rightarrow> Inl err
      | Inr ms \<Rightarrow>
          (case match_edits nfkc path base totalEdits (Suc i) es of
             Inl err \<Rightarrow> Inl err
           | Inr rest \<Rightarrow> Inr (ms @ rest)))"

fun find_overlap :: "matched_edit list \<Rightarrow> (matched_edit \<times> matched_edit) option" where
  "find_overlap (a # b # ms) =
     (if me_matchIndex a + me_matchLength a > me_matchIndex b then Some (a, b) else find_overlap (b # ms))"
| "find_overlap _ = None"

definition replace_match :: "matched_edit \<Rightarrow> ustring \<Rightarrow> ustring" where
  "replace_match m content =
     take (me_matchIndex m) content @ me_newText m @ drop (me_matchIndex m + me_matchLength m) content"

definition applyEditsToNormalizedContent ::
  "(ustring \<Rightarrow> ustring) \<Rightarrow> ustring \<Rightarrow> edit list \<Rightarrow> ustring \<Rightarrow> ustring + applied_edits" where
  "applyEditsToNormalizedContent nfkc normalizedContent edits path =
     (let normalizedEdits = map (normalize_edit nfkc normalizedContent) edits;
          totalEdits = length normalizedEdits
      in case find_index (\<lambda>e. length (ed_oldText e) = 0) normalizedEdits of
           Some i \<Rightarrow> Inl (getEmptyOldTextError path i totalEdits)
         | None \<Rightarrow>
             (let initialMatches = map (\<lambda>e. fuzzyFindText nfkc normalizedContent (ed_oldText e)) normalizedEdits;
                  baseContent =
                    (if list_ex (\<lambda>r. case r of Some x \<Rightarrow> fm_usedFuzzyMatch x | None \<Rightarrow> False) initialMatches
                     then normalizeForFuzzyMatch nfkc normalizedContent else normalizedContent)
              in case match_edits nfkc path baseContent totalEdits 0 normalizedEdits of
                   Inl err \<Rightarrow> Inl err
                 | Inr ms \<Rightarrow>
                     (let matchedEdits = sort_key me_matchIndex ms
                      in case find_overlap matchedEdits of
                           Some (a, b) \<Rightarrow> Inl (overlap_error path (me_editIndex a) (me_editIndex b))
                         | None \<Rightarrow>
                             (let newContent = fold replace_match (rev matchedEdits) baseContent
                              in Inr \<lparr>ar_baseContent = baseContent, ar_newContent = newContent,
                                   ar_unchanged = (baseContent = newContent)\<rparr>))))"

text \<open>A missing text means the edit is no longer needed; any other error leaves it pending.\<close>

definition editStillNeeded :: "(ustring \<Rightarrow> ustring) \<Rightarrow> ustring \<Rightarrow> edit list \<Rightarrow> bool" where
  "editStillNeeded nfkc content edits =
     (if edits = [] then True
      else case applyEditsToNormalizedContent nfkc (normalizeToLF (snd (stripBom content))) edits [] of
             Inr r \<Rightarrow> \<not> ar_unchanged r
           | Inl message \<Rightarrow> \<not> contains_text message (ucs ''Could not find''))"


section \<open>Rendering the difference\<close>

text \<open>A part of \<open>Diff.diffLines\<close>: its text, and whether it was added or removed.\<close>

record diff_part =
  dp_value :: ustring
  dp_added :: bool
  dp_removed :: bool

record diff_state =
  ds_output :: "ustring list"
  ds_oldLineNum :: nat
  ds_newLineNum :: nat
  ds_lastWasChange :: bool
  ds_firstChangedLine :: "nat option"

definition padStart :: "nat \<Rightarrow> ustring \<Rightarrow> ustring" where
  "padStart width s = replicate (width - length s) 32 @ s"

definition part_lines :: "diff_part \<Rightarrow> ustring list" where
  "part_lines p = (let raw = lines_of (dp_value p) in if last raw = [] then butlast raw else raw)"

definition is_change :: "diff_part \<Rightarrow> bool" where
  "is_change p = (dp_added p \<or> dp_removed p)"

definition show_change :: "nat \<Rightarrow> diff_part \<Rightarrow> ustring \<Rightarrow> diff_state \<Rightarrow> diff_state" where
  "show_change width p line s =
     (if dp_added p
      then s\<lparr>ds_output := ds_output s @ [[43] @ padStart width (ucs (show_nat (ds_newLineNum s))) @ [32] @ line],
             ds_newLineNum := ds_newLineNum s + 1\<rparr>
      else s\<lparr>ds_output := ds_output s @ [[45] @ padStart width (ucs (show_nat (ds_oldLineNum s))) @ [32] @ line],
             ds_oldLineNum := ds_oldLineNum s + 1\<rparr>)"

definition show_context :: "nat \<Rightarrow> ustring \<Rightarrow> diff_state \<Rightarrow> diff_state" where
  "show_context width line s =
     s\<lparr>ds_output := ds_output s @ [[32] @ padStart width (ucs (show_nat (ds_oldLineNum s))) @ [32] @ line],
       ds_oldLineNum := ds_oldLineNum s + 1, ds_newLineNum := ds_newLineNum s + 1\<rparr>"

definition skip_lines :: "nat \<Rightarrow> diff_state \<Rightarrow> diff_state" where
  "skip_lines skipped s = s\<lparr>ds_oldLineNum := ds_oldLineNum s + skipped, ds_newLineNum := ds_newLineNum s + skipped\<rparr>"

definition show_ellipsis :: "nat \<Rightarrow> nat \<Rightarrow> diff_state \<Rightarrow> diff_state" where
  "show_ellipsis width skipped s =
     skip_lines skipped (s\<lparr>ds_output := ds_output s @ [[32] @ padStart width [] @ ucs '' ...'']\<rparr>)"

definition context_part :: "nat \<Rightarrow> nat \<Rightarrow> bool \<Rightarrow> ustring list \<Rightarrow> diff_state \<Rightarrow> diff_state" where
  "context_part contextLines width nextPartIsChange raw s =
     (if ds_lastWasChange s \<and> nextPartIsChange then
        (if length raw \<le> contextLines * 2 then fold (show_context width) raw s
         else
           let leadingLines = take contextLines raw;
               trailingLines = drop (length raw - contextLines) raw;
               skippedLines = length raw - length leadingLines - length trailingLines
           in fold (show_context width) trailingLines
                (show_ellipsis width skippedLines (fold (show_context width) leadingLines s)))
      else if ds_lastWasChange s then
        (let shownLines = take contextLines raw;
             skippedLines = length raw - length shownLines;
             s = fold (show_context width) shownLines s
         in if skippedLines > 0 then show_ellipsis width skippedLines s else s)
      else if nextPartIsChange then
        (let skippedLines = length raw - contextLines;
             s = (if skippedLines > 0 then show_ellipsis width skippedLines s else s)
         in fold (show_context width) (drop skippedLines raw) s)
      else skip_lines (length raw) s)"

definition diff_step :: "nat \<Rightarrow> nat \<Rightarrow> bool \<Rightarrow> diff_part \<Rightarrow> diff_state \<Rightarrow> diff_state" where
  "diff_step contextLines width nextPartIsChange p s =
     (if is_change p
      then (let s = (if ds_firstChangedLine s = None then s\<lparr>ds_firstChangedLine := Some (ds_newLineNum s)\<rparr> else s)
            in (fold (show_change width p) (part_lines p) s)\<lparr>ds_lastWasChange := True\<rparr>)
      else (context_part contextLines width nextPartIsChange (part_lines p) s)\<lparr>ds_lastWasChange := False\<rparr>)"

fun diff_loop :: "nat \<Rightarrow> nat \<Rightarrow> diff_part list \<Rightarrow> diff_state \<Rightarrow> diff_state" where
  "diff_loop contextLines width [] s = s"
| "diff_loop contextLines width (p # ps) s =
     diff_loop contextLines width ps
       (diff_step contextLines width (case ps of [] \<Rightarrow> False | q # _ \<Rightarrow> is_change q) p s)"

definition generateDiffString ::
  "(ustring \<Rightarrow> ustring \<Rightarrow> diff_part list) \<Rightarrow> ustring \<Rightarrow> ustring \<Rightarrow> nat \<Rightarrow> ustring \<times> nat option" where
  "generateDiffString diffLines oldContent newContent contextLines =
     (let parts = diffLines oldContent newContent;
          maxLineNum = max (length (lines_of oldContent)) (length (lines_of newContent));
          lineNumWidth = length (show_nat maxLineNum);
          s = diff_loop contextLines lineNumWidth parts
                \<lparr>ds_output = [], ds_oldLineNum = 1, ds_newLineNum = 1, ds_lastWasChange = False, ds_firstChangedLine = None\<rparr>
      in (unlines (ds_output s), ds_firstChangedLine s))"

text \<open>
  \<open>computeEditsDiff\<close> on what checking and reading the file gave: the message of a failed check,
  of a failed read, or the text of the file.
\<close>

datatype edit_diff =
    EditDiffResult ustring "nat option" bool
  | EditDiffError ustring

definition computeEditsDiff ::
  "(ustring \<Rightarrow> ustring) \<Rightarrow> (ustring \<Rightarrow> ustring \<Rightarrow> diff_part list) \<Rightarrow> ustring \<Rightarrow> edit list \<Rightarrow>
   ustring + ustring + ustring \<Rightarrow> edit_diff" where
  "computeEditsDiff nfkc diffLines path edits contents =
     (case contents of
        Inl accessError \<Rightarrow> EditDiffError (ucs ''Could not edit file: '' @ path @ ucs ''. '' @ accessError @ ucs ''.'')
      | Inr (Inl readError) \<Rightarrow> EditDiffError readError
      | Inr (Inr rawContent) \<Rightarrow>
          (let normalizedContent = normalizeToLF (snd (stripBom rawContent))
           in case applyEditsToNormalizedContent nfkc normalizedContent edits path of
                Inl err \<Rightarrow> EditDiffError err
              | Inr r \<Rightarrow>
                  (if ar_unchanged r then EditDiffResult [] None True
                   else
                     let (diff, firstChangedLine) = generateDiffString diffLines (ar_baseContent r) (ar_newContent r) 4
                     in EditDiffResult diff firstChangedLine False)))"

text \<open>After a part the counters stand behind the lines it has in the old and the new text.\<close>

lemma fold_show_context:
  "ds_oldLineNum (fold (show_context w) ls s) = ds_oldLineNum s + length ls \<and>
   ds_newLineNum (fold (show_context w) ls s) = ds_newLineNum s + length ls"
  by (induction ls arbitrary: s) (simp_all add: show_context_def)

lemma fold_show_change:
  "ds_oldLineNum (fold (show_change w p) ls s) = ds_oldLineNum s + (if dp_added p then 0 else length ls) \<and>
   ds_newLineNum (fold (show_change w p) ls s) = ds_newLineNum s + (if dp_added p then length ls else 0)"
  by (induction ls arbitrary: s) (simp_all add: show_change_def)

lemma diff_step_counters:
  "ds_oldLineNum (diff_step c w b p s) = ds_oldLineNum s + (if dp_added p then 0 else length (part_lines p)) \<and>
   ds_newLineNum (diff_step c w b p s) =
     ds_newLineNum s + (if dp_removed p \<and> \<not> dp_added p then 0 else length (part_lines p))"
  by (simp add: diff_step_def context_part_def fold_show_context fold_show_change show_ellipsis_def skip_lines_def
      is_change_def Let_def)

end
