(* ===== verification/EditProps.thy ===== *)
theory EditProps
  imports EditDiff
begin

text \<open>
  What applying edits to a text does: a successful call replaces disjoint matched spans and keeps
  everything between them, one unique match is replaced in place, and the ways a call is refused.
\<close>

section \<open>Replacing disjoint spans\<close>

fun disjoint_from :: "nat \<Rightarrow> nat \<Rightarrow> matched_edit list \<Rightarrow> bool" where
  "disjoint_from pos n [] = (pos \<le> n)"
| "disjoint_from pos n (m # ms) =
     (pos \<le> me_matchIndex m \<and> disjoint_from (me_matchIndex m + me_matchLength m) n ms)"

text \<open>The specification: from left to right, the text up to a span is kept and the span replaced.\<close>

primrec rewritten :: "ustring \<Rightarrow> nat \<Rightarrow> matched_edit list \<Rightarrow> ustring" where
  "rewritten base pos [] = drop pos base"
| "rewritten base pos (m # ms) =
     js_slice pos (me_matchIndex m) base @ me_newText m @ rewritten base (me_matchIndex m + me_matchLength m) ms"

lemma disjoint_from_le: "disjoint_from pos n ms \<Longrightarrow> pos \<le> n"
  by (induction pos n ms rule: disjoint_from.induct) auto

lemma replace_all_rewritten:
  "disjoint_from pos (length base) ms \<Longrightarrow> fold replace_match (rev ms) base = take pos base @ rewritten base pos ms"
proof (induction ms arbitrary: pos)
  case (Cons m ms)
  let ?a = "me_matchIndex m" and ?b = "me_matchIndex m + me_matchLength m"
  have b: "?b \<le> length base" "pos \<le> ?a" using Cons.prems disjoint_from_le by auto
  have "fold replace_match (rev (m # ms)) base = replace_match m (take ?b base @ rewritten base ?b ms)"
    using Cons.IH [of ?b] Cons.prems by simp
  also have "\<dots> = take ?a base @ me_newText m @ rewritten base ?b ms" using b by (simp add: replace_match_def min_def)
  also have "take ?a base = take pos base @ js_slice pos ?a base"
    using b by (simp add: js_slice_def flip: take_add)
  finally show ?case by simp
qed simp

lemma find_overlap_disjoint:
  assumes "find_overlap ms = None"
    and "\<And>m. m \<in> set ms \<Longrightarrow> me_matchIndex m + me_matchLength m \<le> n"
    and "ms = [] \<Longrightarrow> pos \<le> n" and "ms \<noteq> [] \<Longrightarrow> pos \<le> me_matchIndex (hd ms)"
  shows "disjoint_from pos n ms"
  using assms
proof (induction ms arbitrary: pos rule: find_overlap.induct)
  case (1 a b ms)
  then show ?case by (auto split: if_splits)
qed auto

section \<open>Where the spans come from\<close>

lemma fuzzyFindText_cases:
  assumes "fuzzyFindText nfkc content old = Some r"
  obtains (exact) "fm_kind r = MatchExact" "index_of old content = Some (fm_index r)"
      "fm_matchLength r = length old" "\<not> fm_usedFuzzyMatch r"
  | (fuzzy) "fm_kind r = MatchFuzzy" "index_of old content = None"
      "index_of (normalizeForFuzzyMatch nfkc old) (normalizeForFuzzyMatch nfkc content) = Some (fm_index r)"
      "fm_matchLength r = length (normalizeForFuzzyMatch nfkc old)" "fm_usedFuzzyMatch r"
  | (lines) "fm_kind r = MatchLineSpan" "findUniqueLineSpan nfkc content old = Some \<lparr>sp_index = fm_index r, sp_matchLength = fm_matchLength r\<rparr>"
      "\<not> fm_usedFuzzyMatch r"
  using assms by (auto simp: fuzzyFindText_def Let_def split: option.splits)

lemma find_match_cases:
  assumes "find_match nfkc base old = Some r"
  obtains (direct) "fuzzyFindText nfkc base old = Some r"
  | (anchor) "fm_kind r = MatchAnchor" "fuzzyFindText nfkc base old = None"
      "findAnchoredBlock nfkc base old = Some \<lparr>sp_index = fm_index r, sp_matchLength = fm_matchLength r\<rparr>"
  using assms by (auto simp: find_match_def split: option.splits)

lemma find_match_located:
  assumes "find_match nfkc base old = Some r"
    and "fm_kind r = MatchFuzzy \<Longrightarrow> normalizeForFuzzyMatch nfkc base = base"
  shows "located nfkc base old \<lparr>sp_index = fm_index r, sp_matchLength = fm_matchLength r\<rparr>"
  using assms(1)
proof (cases rule: find_match_cases)
  case direct
  then show ?thesis
    by (cases rule: fuzzyFindText_cases) (use assms(2) in \<open>auto intro: located_exact located_fuzzy located_unique_lines\<close>)
qed (auto intro: located_anchor)

lemma located_text: "in_bounds base s \<Longrightarrow> span_text base s \<in> {old, normalizeForFuzzyMatch nfkc old} \<Longrightarrow> located nfkc base old s"
  by (simp add: located_def)

lemma collectAllMatches_located:
  assumes "kind = MatchFuzzy \<Longrightarrow> normalizeForFuzzyMatch nfkc base = base"
    and "s \<in> set (collectAllMatches nfkc base old kind)"
  shows "located nfkc base old s"
proof (cases kind)
  case MatchExact
  then show ?thesis using assms(2) match_spans_text [of s old base 0]
    by (intro located_text) (auto simp: collectAllMatches_def split: if_splits)
next
  case MatchFuzzy
  then show ?thesis using assms match_spans_text [of s "normalizeForFuzzyMatch nfkc old" base 0]
    by (intro located_text) (auto simp: collectAllMatches_def Let_def split: if_splits)
next
  case MatchLineSpan
  then show ?thesis using assms(2) by (simp add: collectAllMatches_def located_lines)
next
  case MatchAnchor
  then show ?thesis using assms(2) by (auto simp: collectAllMatches_def located_anchor split: option.splits)
qed

lemma span_eta: "\<lparr>sp_index = sp_index s, sp_matchLength = sp_matchLength s\<rparr> = (s :: span)"
  by simp

definition match_span :: "matched_edit \<Rightarrow> span" where
  "match_span m = \<lparr>sp_index = me_matchIndex m, sp_matchLength = me_matchLength m\<rparr>"

text \<open>A match belongs to the edit its index names, and shows the text the edit asks for.\<close>

definition match_of :: "(ustring \<Rightarrow> ustring) \<Rightarrow> ustring \<Rightarrow> edit list \<Rightarrow> matched_edit \<Rightarrow> bool" where
  "match_of nfkc base es m =
     (me_editIndex m < length es \<and> me_newText m = ed_newText (es ! me_editIndex m) \<and>
      located nfkc base (ed_oldText (es ! me_editIndex m)) (match_span m))"

lemma match_edit_located:
  assumes "match_edit nfkc path base n i e = Inr ms"
    and "\<And>r. fuzzyFindText nfkc base (ed_oldText e) = Some r \<Longrightarrow> fm_usedFuzzyMatch r \<Longrightarrow>
      normalizeForFuzzyMatch nfkc base = base"
  shows "(\<forall>m\<in>set ms. me_editIndex m = i \<and> me_newText m = ed_newText e \<and> located nfkc base (ed_oldText e) (match_span m)) \<and>
    (ed_replaceAll e \<or> length ms = 1)"
proof -
  obtain r where r: "find_match nfkc base (ed_oldText e) = Some r"
    using assms(1) by (auto simp: match_edit_def split: option.splits)
  have norm: "normalizeForFuzzyMatch nfkc base = base" if "fm_kind r = MatchFuzzy"
    using r
  proof (cases rule: find_match_cases)
    case direct
    then show ?thesis by (cases rule: fuzzyFindText_cases) (use that assms(2) direct in auto)
  qed (use that in auto)
  have "ms = map (\<lambda>s. \<lparr>me_editIndex = i, me_matchIndex = sp_index s, me_matchLength = sp_matchLength s,
      me_newText = ed_newText e\<rparr>)
      (if ed_replaceAll e then collectAllMatches nfkc base (ed_oldText e) (fm_kind r)
       else [\<lparr>sp_index = fm_index r, sp_matchLength = fm_matchLength r\<rparr>])"
    using assms(1) r by (auto simp: match_edit_def Let_def split: if_splits)
  moreover have "located nfkc base (ed_oldText e) s"
    if "s \<in> set (collectAllMatches nfkc base (ed_oldText e) (fm_kind r))" for s
    using collectAllMatches_located [OF norm that] by simp
  ultimately show ?thesis using find_match_located [OF r norm] by (auto simp: match_span_def span_eta)
qed

lemma match_edits_located:
  assumes "match_edits nfkc path base n i es = Inr ms"
    and "\<And>e r. e \<in> set es \<Longrightarrow> fuzzyFindText nfkc base (ed_oldText e) = Some r \<Longrightarrow> fm_usedFuzzyMatch r \<Longrightarrow>
      normalizeForFuzzyMatch nfkc base = base"
  shows "(\<forall>m\<in>set ms. i \<le> me_editIndex m \<and> match_of nfkc base es (m\<lparr>me_editIndex := me_editIndex m - i\<rparr>)) \<and>
    (\<forall>k<length es. ed_replaceAll (es ! k) \<or> length (filter (\<lambda>m. me_editIndex m = i + k) ms) = 1)"
  using assms
proof (induction es arbitrary: i ms)
  case (Cons e es)
  obtain ms1 ms2 where ms: "match_edit nfkc path base n i e = Inr ms1" "match_edits nfkc path base n (Suc i) es = Inr ms2"
      "ms = ms1 @ ms2"
    using Cons.prems(1) by (auto split: sum.splits)
  have 1: "\<forall>m\<in>set ms1. me_editIndex m = i \<and> me_newText m = ed_newText e \<and> located nfkc base (ed_oldText e) (match_span m)"
    "ed_replaceAll e \<or> length ms1 = 1"
    using match_edit_located [OF ms(1)] Cons.prems(2) by auto
  have 2: "\<forall>m\<in>set ms2. Suc i \<le> me_editIndex m \<and> match_of nfkc base es (m\<lparr>me_editIndex := me_editIndex m - Suc i\<rparr>)"
    "\<forall>k<length es. ed_replaceAll (es ! k) \<or> length (filter (\<lambda>m. me_editIndex m = Suc i + k) ms2) = 1"
    using Cons.IH [OF ms(2)] Cons.prems(2) by auto
  have "i \<le> me_editIndex m \<and> match_of nfkc base (e # es) (m\<lparr>me_editIndex := me_editIndex m - i\<rparr>)" if "m \<in> set ms" for m
  proof (cases "m \<in> set ms1")
    case True
    then show ?thesis using 1(1) by (auto simp: match_of_def match_span_def)
  next
    case False
    then have "m \<in> set ms2" using that ms(3) by simp
    then have "Suc i \<le> me_editIndex m" "match_of nfkc base es (m\<lparr>me_editIndex := me_editIndex m - Suc i\<rparr>)" using 2(1) by auto
    moreover from this obtain j where "me_editIndex m = Suc (i + j)" by (metis add_Suc le_Suc_ex)
    ultimately show ?thesis by (simp add: match_of_def match_span_def)
  qed
  moreover have "ed_replaceAll ((e # es) ! k) \<or> length (filter (\<lambda>m. me_editIndex m = i + k) ms) = 1"
    if "k < length (e # es)" for k
  proof (cases k)
    case 0
    have "filter (\<lambda>m. me_editIndex m = i) ms1 = ms1" using 1(1) by (intro filter_True) blast
    moreover have "filter (\<lambda>m. me_editIndex m = i) ms2 = []" using 2(1) by (intro filter_False) fastforce
    ultimately show ?thesis using 0 1(2) ms(3) by simp
  next
    case (Suc j)
    have "filter (\<lambda>m. me_editIndex m = Suc (i + j)) ms1 = []" using 1(1) by (intro filter_False) auto
    then show ?thesis using Suc 2(2) ms(3) that by simp
  qed
  ultimately show ?case by blast
qed simp


lemma applyEdits_cases:
  assumes "applyEditsToNormalizedContent nfkc content edits path = Inr r"
  obtains es ms where "es = map (normalize_edit nfkc content) edits"
    "\<And>e. e \<in> set es \<Longrightarrow> ed_oldText e \<noteq> []"
    "ar_baseContent r =
       (if list_ex (\<lambda>x. case x of Some y \<Rightarrow> fm_usedFuzzyMatch y | None \<Rightarrow> False)
           (map (\<lambda>e. fuzzyFindText nfkc content (ed_oldText e)) es)
        then normalizeForFuzzyMatch nfkc content else content)"
    "match_edits nfkc path (ar_baseContent r) (length es) 0 es = Inr ms"
    "find_overlap (sort_key me_matchIndex ms) = None"
    "ar_newContent r = fold replace_match (rev (sort_key me_matchIndex ms)) (ar_baseContent r)"
    "ar_unchanged r = (ar_baseContent r = ar_newContent r)"
proof -
  let ?es = "map (normalize_edit nfkc content) edits"
  have "find_index (\<lambda>e. length (ed_oldText e) = 0) ?es = None"
    using assms by (auto simp: applyEditsToNormalizedContent_def Let_def split: option.splits)
  moreover from this have "\<And>e. e \<in> set ?es \<Longrightarrow> ed_oldText e \<noteq> []" by (auto simp: find_index_None_iff)
  moreover define base where "base =
       (if list_ex (\<lambda>x. case x of Some y \<Rightarrow> fm_usedFuzzyMatch y | None \<Rightarrow> False)
           (map (\<lambda>e. fuzzyFindText nfkc content (ed_oldText e)) ?es)
        then normalizeForFuzzyMatch nfkc content else content)"
  ultimately have r: "(case match_edits nfkc path base (length ?es) 0 ?es of
        Inl err \<Rightarrow> Inl err
      | Inr ms \<Rightarrow>
          (case find_overlap (sort_key me_matchIndex ms) of
             Some (a, b) \<Rightarrow> Inl (overlap_error path (me_editIndex a) (me_editIndex b))
           | None \<Rightarrow> Inr \<lparr>ar_baseContent = base, ar_newContent = fold replace_match (rev (sort_key me_matchIndex ms)) base,
               ar_unchanged = (base = fold replace_match (rev (sort_key me_matchIndex ms)) base)\<rparr>)) = Inr r"
    and ne: "\<And>e. e \<in> set ?es \<Longrightarrow> ed_oldText e \<noteq> []"
    using assms unfolding applyEditsToNormalizedContent_def Let_def base_def [symmetric] by simp_all
  obtain ms where ms: "match_edits nfkc path base (length ?es) 0 ?es = Inr ms"
    using r by (cases "match_edits nfkc path base (length ?es) 0 ?es") simp_all
  have "find_overlap (sort_key me_matchIndex ms) = None"
    using r ms by (cases "find_overlap (sort_key me_matchIndex ms)") auto
  then show ?thesis using that [OF refl ne _ _, of ms] r ms base_def by auto
qed

text \<open>A fuzzy match in the base content means the base content is normalised.\<close>

lemma base_normalized:
  assumes "nfkc_stable nfkc"
    and "base = (if list_ex (\<lambda>x. case x of Some y \<Rightarrow> fm_usedFuzzyMatch y | None \<Rightarrow> False)
           (map (\<lambda>e. fuzzyFindText nfkc content (ed_oldText e)) es)
        then normalizeForFuzzyMatch nfkc content else content)"
    and "e \<in> set es" and "fuzzyFindText nfkc base (ed_oldText e) = Some r" and "fm_usedFuzzyMatch r"
  shows "normalizeForFuzzyMatch nfkc base = base"
proof (cases "list_ex (\<lambda>x. case x of Some y \<Rightarrow> fm_usedFuzzyMatch y | None \<Rightarrow> False)
    (map (\<lambda>e. fuzzyFindText nfkc content (ed_oldText e)) es)")
  case True
  then show ?thesis using assms(2) normalize_idem [OF assms(1)] by simp
next
  case False
  then show ?thesis using assms(2-5) by (auto simp: list_ex_iff)
qed



section \<open>A unique text\<close>

lemma normalizeToLF_free: "CR \<notin> set s \<Longrightarrow> normalizeToLF s = s"
proof -
  assume free: "CR \<notin> set s"
  then have "replace_crlf s = s" by (induction s rule: replace_crlf.induct) auto
  moreover have "map (\<lambda>c. if c = CR then LF else c) s = s" using free by (intro map_idI) auto
  ultimately show ?thesis by (simp add: normalizeToLF_def)
qed

lemma oldTextForMatch_found: "fuzzyFindText nfkc content old \<noteq> None \<Longrightarrow> oldTextForMatch nfkc content old = old"
  by (simp add: oldTextForMatch_def)

text \<open>
  An edit whose old text occurs in the file and is unique there, counted after fuzzy
  normalisation, replaces exactly that occurrence: what is before and after it stays, and the call
  reports no change when the two texts are equal.
\<close>

lemma unique_text_is_replaced:
  assumes "CR \<notin> set (ed_oldText e)" and "CR \<notin> set (ed_newText e)" and "ed_oldText e \<noteq> []" and "\<not> ed_replaceAll e"
    and "index_of (ed_oldText e) content = Some (length pre)" and "content = pre @ ed_oldText e @ post"
    and "countOccurrences nfkc content (ed_oldText e) \<le> 1"
  shows "applyEditsToNormalizedContent nfkc content [e] path =
    Inr \<lparr>ar_baseContent = content, ar_newContent = pre @ ed_newText e @ post, ar_unchanged = (ed_oldText e = ed_newText e)\<rparr>"
proof -
  let ?old = "ed_oldText e"
  define r where "r = \<lparr>fm_index = length pre, fm_matchLength = length ?old, fm_usedFuzzyMatch = False,
    fm_contentForReplacement = content, fm_kind = MatchExact\<rparr>"
  have found: "fuzzyFindText nfkc content ?old = Some r" using assms(5) by (simp add: fuzzyFindText_def r_def)
  then have e: "normalize_edit nfkc content e = e"
    using assms(1,2) by (simp add: normalize_edit_def normalizeToLF_free oldTextForMatch_found)
  have "find_match nfkc content ?old = Some r" using found by (simp add: find_match_def)
  then have edits: "match_edits nfkc path content 1 0 [e] =
      Inr [\<lparr>me_editIndex = 0, me_matchIndex = length pre, me_matchLength = length ?old, me_newText = ed_newText e\<rparr>]"
    using assms(4,7) by (simp add: match_edit_def count_matches_def r_def)
  have "replace_match \<lparr>me_editIndex = 0, me_matchIndex = length pre, me_matchLength = length ?old, me_newText = ed_newText e\<rparr>
      content = pre @ ed_newText e @ post"
    unfolding assms(6) by (simp add: replace_match_def)
  moreover have "(content = pre @ ed_newText e @ post) = (?old = ed_newText e)" unfolding assms(6) by simp
  ultimately show ?thesis
    using assms(3) found e edits by (simp add: applyEditsToNormalizedContent_def r_def)
qed

section \<open>Refused edits\<close>

text \<open>The text of an edit is missing from a base content, or ambiguous there.\<close>

definition cannot_apply :: "(ustring \<Rightarrow> ustring) \<Rightarrow> ustring \<Rightarrow> edit \<Rightarrow> bool" where
  "cannot_apply nfkc base e =
     (case find_match nfkc base (ed_oldText e) of
        None \<Rightarrow> True
      | Some r \<Rightarrow> \<not> ed_replaceAll e \<and> count_matches nfkc base (ed_oldText e) (fm_kind r) > 1)"

lemma match_edits_refused: "e \<in> set es \<Longrightarrow> cannot_apply nfkc base e \<Longrightarrow> \<exists>err. match_edits nfkc path base n i es = Inl err"
proof (induction es arbitrary: i)
  case (Cons e' es)
  show ?case
  proof (cases "match_edit nfkc path base n i e'")
    case (Inr ms)
    then have "e \<noteq> e'" using Cons.prems(2) by (auto simp: match_edit_def cannot_apply_def Let_def split: option.splits if_splits)
    then obtain err where "match_edits nfkc path base n (Suc i) es = Inl err" using Cons by auto
    then show ?thesis using Inr by simp
  qed simp
qed simp



section \<open>Texts of white space\<close>

text \<open>
  The normal form of a text of white space is empty and is found at the start of every content.
  \<open>replaceAll\<close> with such a text then changes nothing, and the call reports that the matched
  text already equals the replacement instead of that there is no match.
\<close>

theorem blank_replaceAll_reports_unchanged:
  assumes "nfkc_stable nfkc" and "CR \<notin> set (ed_oldText e)" and "ed_oldText e \<noteq> []" and "ed_replaceAll e"
    and "normalizeForFuzzyMatch nfkc (ed_oldText e) = []"
    and "index_of (ed_oldText e) content = None"
    and "index_of (ed_oldText e) (normalizeForFuzzyMatch nfkc content) = None"
  shows "applyEditsToNormalizedContent nfkc content [e] path =
    Inr \<lparr>ar_baseContent = normalizeForFuzzyMatch nfkc content, ar_newContent = normalizeForFuzzyMatch nfkc content,
      ar_unchanged = True\<rparr>"
proof -
  let ?old = "ed_oldText e" and ?norm = "normalizeForFuzzyMatch nfkc content"
  have start: "index_of [] s = Some 0" for s :: ustring by (cases s) (simp_all add: starts_with_def)
  define r where "r = \<lparr>fm_index = 0, fm_matchLength = 0, fm_usedFuzzyMatch = True,
    fm_contentForReplacement = ?norm, fm_kind = MatchFuzzy\<rparr>"
  have found: "fuzzyFindText nfkc content ?old = Some r" "fuzzyFindText nfkc ?norm ?old = Some r"
    using assms start normalize_idem [OF assms(1)] by (simp_all add: fuzzyFindText_def r_def)
  let ?e = "normalize_edit nfkc content e"
  have old: "ed_oldText ?e = ?old" "ed_replaceAll ?e"
    using assms(2,4) found(1) by (simp_all add: normalize_edit_def normalizeToLF_free oldTextForMatch_found)
  have "find_match nfkc ?norm ?old = Some r" using found by (simp add: find_match_def)
  then have "match_edits nfkc path ?norm 1 0 [?e] = Inr []"
    using old assms(5) by (simp add: match_edit_def collectAllMatches_def r_def)
  then show ?thesis using assms(3) found old by (simp add: applyEditsToNormalizedContent_def r_def Let_def)
qed

section \<open>An example\<close>

definition demo_content :: ustring where
  "demo_content = ucs ''a = 1  '' @ [LF] @ ucs ''b = 2'' @ [LF]"

definition demo_edits :: "edit list" where
  "demo_edits =
     [\<lparr>ed_oldText = ucs ''b = 2'', ed_newText = ucs ''c'', ed_replaceAll = False\<rparr>,
      \<lparr>ed_oldText = ucs ''= 1'' @ [LF], ed_newText = ucs ''!'', ed_replaceAll = False\<rparr>]"

lemma id_stable: "nfkc_stable (\<lambda>s. s)"
  by (simp add: nfkc_stable_def)

definition demo_base :: ustring where
  "demo_base = ucs ''a = 1'' @ [LF] @ ucs ''b = 2'' @ [LF]"

lemma demo_edits_applied:
  "applyEditsToNormalizedContent (\<lambda>s. s) demo_content demo_edits (ucs ''f'') =
   Inr \<lparr>ar_baseContent = demo_base, ar_newContent = ucs ''a !c'' @ [LF], ar_unchanged = False\<rparr>"
  by code_simp

lemma demo_edits_facts: "length demo_edits = 2" "\<not> ed_replaceAll (demo_edits ! 1)" "length demo_base = 12"
  by code_simp+


definition demo_edit :: edit where
  "demo_edit = \<lparr>ed_oldText = ucs ''b'', ed_newText = ucs ''c'', ed_replaceAll = False\<rparr>"

definition demo_missing :: edit where
  "demo_missing = \<lparr>ed_oldText = ucs ''zz'', ed_newText = ucs ''c'', ed_replaceAll = False\<rparr>"


text \<open>In a file of one or two units such a text is even taken as a unique match at the start.\<close>

definition demo_blank :: edit where
  "demo_blank = \<lparr>ed_oldText = ucs ''  '', ed_newText = ucs ''x'', ed_replaceAll = False\<rparr>"

lemma blank_text_inserts_in_short_file:
  "applyEditsToNormalizedContent (\<lambda>s. s) (ucs ''a'') [demo_blank] (ucs ''f'') =
   Inr \<lparr>ar_baseContent = ucs ''a'', ar_newContent = ucs ''xa'', ar_unchanged = False\<rparr>"
  by code_simp

end
