(* ===== verification/EditTool.thy ===== *)
theory EditTool
  imports EditProps
begin

text \<open>
  The edit tool (\<open>packages/coding-agent/src/core/tools/edit.ts\<close>): checking and reading the
  file, applying the edits between the byte order mark and the line endings of the file, and writing
  the result unless the call was aborted, changes nothing or is a dry run.

  The operations on files are a record of functions on a world. What the tool needs of them is the
  locale \<open>file_store\<close>; the operations of \<open>node:fs\<close> it uses by default are its instance, on a
  disk that maps paths to the text of the files (\<open>toString("utf-8")\<close> of their bytes).
\<close>

section \<open>Restoring line endings\<close>

lemma index_of_single_free: "c \<notin> set s \<Longrightarrow> index_of [c] s = None"
  by (induction s) (auto simp: starts_with_def)

lemma index_of_pair_free: "c \<notin> set s \<Longrightarrow> index_of [c, d] s = None"
  by (induction s) (auto simp: starts_with_def)

lemma index_of_skip: "c \<notin> set x \<Longrightarrow> index_of (c # n) (x @ s) = map_option (\<lambda>i. length x + i) (index_of (c # n) s)"
  by (induction x; cases "index_of (c # n) s") (auto simp: starts_with_def)

lemma restoreLineEndings_simps [simp]:
  "restoreLineEndings s EndLF = s"
  "restoreLineEndings [] e = []"
  "restoreLineEndings (c # s) EndCRLF = (if c = LF then [CR, LF] else [c]) @ restoreLineEndings s EndCRLF"
  by (simp_all add: restoreLineEndings_def)

lemma restore_free: "LF \<notin> set s \<Longrightarrow> restoreLineEndings s e = s"
  by (cases e; induction s) simp_all

lemma restore_append: "restoreLineEndings (s @ t) e = restoreLineEndings s e @ restoreLineEndings t e"
  by (simp add: restoreLineEndings_def)

lemma replace_crlf_other: "c \<noteq> CR \<Longrightarrow> replace_crlf (c # s) = c # replace_crlf s"
  by (cases s) auto

lemma normalize_restored: "CR \<notin> set s \<Longrightarrow> normalizeToLF (restoreLineEndings s e) = s"
proof (cases e)
  case EndCRLF
  assume "CR \<notin> set s"
  then have "replace_crlf (restoreLineEndings s EndCRLF) = s" by (induction s) (auto simp: replace_crlf_other)
  then show ?thesis using \<open>CR \<notin> set s\<close> EndCRLF by (auto simp: normalizeToLF_def intro!: map_idI)
qed (simp add: normalizeToLF_free)

lemma detect_restored:
  assumes "CR \<notin> set s" and "LF \<in> set s"
  shows "detectLineEnding (restoreLineEndings s e) = e"
proof (cases e)
  case EndLF
  then show ?thesis
    using index_of_pair_free [OF assms(1), of LF] by (simp add: detectLineEnding_def split: option.splits)
next
  case EndCRLF
  obtain x y where s: "s = x @ LF # y" "LF \<notin> set x" using split_list_first [OF assms(2)] by blast
  then have "restoreLineEndings s EndCRLF = x @ [CR, LF] @ restoreLineEndings y EndCRLF"
    by (simp add: restore_append restore_free)
  moreover have "CR \<notin> set x" using assms(1) s(1) by simp
  ultimately show ?thesis
    using EndCRLF s(2) by (simp add: detectLineEnding_def index_of_skip starts_with_def)
qed

lemma line_endings_round_trip:
  "CR \<notin> set s \<Longrightarrow>
   restoreLineEndings (normalizeToLF (restoreLineEndings s e)) (detectLineEnding (restoreLineEndings s e)) =
   restoreLineEndings s e"
  by (cases "LF \<in> set s") (simp_all add: normalize_restored detect_restored restore_free normalizeToLF_free)


section \<open>Operations on files\<close>

text \<open>
  \<open>eo_access\<close> fails with the text the tool shows of the error, \<open>Error code: \<dots>\<close> where there is
  a code; the other operations fail with the message of what they throw.
\<close>

record 'w edit_operations =
  eo_readFile :: "ustring \<Rightarrow> 'w \<Rightarrow> (ustring + ustring) \<times> 'w"
  eo_writeFile :: "ustring \<Rightarrow> ustring \<Rightarrow> 'w \<Rightarrow> (ustring + unit) \<times> 'w"
  eo_access :: "ustring \<Rightarrow> 'w \<Rightarrow> (ustring + unit) \<times> 'w"

text \<open>
  The disk: the files that exist, those that may not be written, and a count of the operations made,
  the time an abort refers to.
\<close>

record disk =
  dk_files :: "ustring \<Rightarrow> ustring option"
  dk_readonly :: "ustring list"
  dk_time :: nat

definition enoent :: "ustring \<Rightarrow> ustring" where
  "enoent path = ucs ''ENOENT: no such file or directory, open '' @ [39] @ path @ [39]"

definition eacces :: "ustring \<Rightarrow> ustring" where
  "eacces path = ucs ''EACCES: permission denied, open '' @ [39] @ path @ [39]"

definition tick :: "disk \<Rightarrow> disk" where
  "tick d = d\<lparr>dk_time := dk_time d + 1\<rparr>"

definition fsReadFile :: "ustring \<Rightarrow> disk \<Rightarrow> (ustring + ustring) \<times> disk" where
  "fsReadFile path d = (case dk_files d path of None \<Rightarrow> (Inl (enoent path), tick d) | Some t \<Rightarrow> (Inr t, tick d))"

definition fsWriteFile :: "ustring \<Rightarrow> ustring \<Rightarrow> disk \<Rightarrow> (ustring + unit) \<times> disk" where
  "fsWriteFile path content d =
     (if path \<in> set (dk_readonly d) then (Inl (eacces path), tick d)
      else (Inr (), tick (d\<lparr>dk_files := (dk_files d)(path \<mapsto> content)\<rparr>)))"

definition fsAccess :: "ustring \<Rightarrow> disk \<Rightarrow> (ustring + unit) \<times> disk" where
  "fsAccess path d =
     (if dk_files d path = None then (Inl (ucs ''Error code: ENOENT''), tick d)
      else if path \<in> set (dk_readonly d) then (Inl (ucs ''Error code: EACCES''), tick d)
      else (Inr (), tick d))"

definition defaultEditOperations :: "disk edit_operations" where
  "defaultEditOperations = \<lparr>eo_readFile = fsReadFile, eo_writeFile = fsWriteFile, eo_access = fsAccess\<rparr>"

section \<open>The tool\<close>

text \<open>
  The environment of a call: the operations, the dry run option, the abort signal as it stands in a
  world, normalisation, and the functions of the package \<open>diff\<close>. \<open>et_resolve\<close> is
  \<open>resolveToCwd\<close> for the directory of the tool.
\<close>

record 'w edit_env =
  et_ops :: "'w edit_operations"
  et_dryRun :: "'w \<Rightarrow> bool"
  et_aborted :: "'w \<Rightarrow> bool"
  et_nfkc :: "ustring \<Rightarrow> ustring"
  et_diffLines :: "ustring \<Rightarrow> ustring \<Rightarrow> diff_part list"
  et_createPatch :: "ustring \<Rightarrow> ustring \<Rightarrow> ustring \<Rightarrow> nat \<Rightarrow> ustring"
  et_resolve :: "ustring \<Rightarrow> ustring"

record edit_details =
  edt_diff :: ustring
  edt_patch :: ustring
  edt_firstChangedLine :: "nat option"
  edt_dryRun :: bool

record edit_tool_result =
  etr_text :: ustring
  etr_details :: "edit_details option"

definition validateEditInput :: "edit list \<Rightarrow> ustring + edit list" where
  "validateEditInput edits =
     (if length edits = 0
      then Inl (ucs ''Edit tool input is invalid. edits must contain at least one replacement.'')
      else Inr edits)"

definition edit_aborted :: ustring where
  "edit_aborted = ucs ''Operation aborted''"

definition throwIfAborted :: "'w edit_env \<Rightarrow> 'w \<Rightarrow> (ustring + 'a) \<times> 'w \<Rightarrow> (ustring + 'a) \<times> 'w" where
  "throwIfAborted env w continue' = (if et_aborted env w then (Inl edit_aborted, w) else continue')"

definition generateUnifiedPatch :: "'w edit_env \<Rightarrow> ustring \<Rightarrow> ustring \<Rightarrow> ustring \<Rightarrow> ustring" where
  "generateUnifiedPatch env path oldContent newContent = et_createPatch env path oldContent newContent 4"

definition edit_result :: "'w edit_env \<Rightarrow> ustring \<Rightarrow> edit list \<Rightarrow> bool \<Rightarrow> applied_edits \<Rightarrow> edit_tool_result" where
  "edit_result env path edits dryRun r =
     (let (diff, firstChangedLine) = generateDiffString (et_diffLines env) (ar_baseContent r) (ar_newContent r) 4;
          blocks = ucs (show_nat (length edits)) @ ucs '' block(s) in '' @ path
      in \<lparr>etr_text = (if dryRun then ucs ''[dry-run] would replace '' @ blocks @ ucs '' (no changes applied).''
                      else ucs ''Successfully replaced '' @ blocks @ ucs ''.''),
          etr_details = Some \<lparr>edt_diff = diff,
            edt_patch = generateUnifiedPatch env path (ar_baseContent r) (ar_newContent r),
            edt_firstChangedLine = firstChangedLine, edt_dryRun = dryRun\<rparr>\<rparr>)"

definition write_edited ::
  "'w edit_env \<Rightarrow> ustring \<Rightarrow> ustring \<Rightarrow> edit list \<Rightarrow> applied_edits \<Rightarrow> ustring \<Rightarrow> 'w \<Rightarrow> (ustring + edit_tool_result) \<times> 'w" where
  "write_edited env path absolutePath edits r finalContent w =
     (if et_dryRun env w then (Inr (edit_result env path edits True r), w)
      else case eo_writeFile (et_ops env) absolutePath finalContent w of
             (Inl e, w') \<Rightarrow> (Inl e, w')
           | (Inr _, w') \<Rightarrow> throwIfAborted env w' (Inr (edit_result env path edits False r), w'))"

definition edit_content ::
  "'w edit_env \<Rightarrow> ustring \<Rightarrow> ustring \<Rightarrow> edit list \<Rightarrow> ustring \<Rightarrow> 'w \<Rightarrow> (ustring + edit_tool_result) \<times> 'w" where
  "edit_content env path absolutePath edits rawContent w =
     (let (bom, content) = stripBom rawContent;
          originalEnding = detectLineEnding content
      in case applyEditsToNormalizedContent (et_nfkc env) (normalizeToLF content) edits path of
           Inl e \<Rightarrow> (Inl e, w)
         | Inr r \<Rightarrow>
             throwIfAborted env w
               (if ar_unchanged r then (Inr \<lparr>etr_text = unchangedEditMessage path, etr_details = None\<rparr>, w)
                else write_edited env path absolutePath edits r
                       (bom @ restoreLineEndings (ar_newContent r) originalEnding) w))"

definition edit_execute ::
  "'w edit_env \<Rightarrow> ustring \<Rightarrow> edit list \<Rightarrow> 'w \<Rightarrow> (ustring + edit_tool_result) \<times> 'w" where
  "edit_execute env path input w =
     (case validateEditInput input of
        Inl e \<Rightarrow> (Inl e, w)
      | Inr edits \<Rightarrow>
          (let absolutePath = et_resolve env path
           in throwIfAborted env w
             (case eo_access (et_ops env) absolutePath w of
                (Inl e, w1) \<Rightarrow>
                  throwIfAborted env w1
                    (Inl (ucs ''Could not edit file: '' @ path @ ucs ''. '' @ e @ ucs ''.''), w1)
              | (Inr _, w1) \<Rightarrow>
                  throwIfAborted env w1
                    (case eo_readFile (et_ops env) absolutePath w1 of
                       (Inl e, w2) \<Rightarrow> (Inl e, w2)
                     | (Inr rawContent, w2) \<Rightarrow>
                         throwIfAborted env w2 (edit_content env path absolutePath edits rawContent w2)))))"

section \<open>What the tool needs of the files\<close>

locale file_store =
  fixes ops :: "'w edit_operations" and files :: "'w \<Rightarrow> ustring \<Rightarrow> ustring option"
  assumes access_keeps: "files (snd (eo_access ops p w)) = files w"
    and read_keeps: "files (snd (eo_readFile ops p w)) = files w"
    and read_text: "eo_readFile ops p w = (Inr t, w') \<Longrightarrow> files w p = Some t"
    and write_stores: "eo_writeFile ops p t w = (Inr u, w') \<Longrightarrow> files w' = (files w)(p \<mapsto> t)"
    and write_fails: "eo_writeFile ops p t w = (Inl e, w') \<Longrightarrow> files w' = files w"
begin

text \<open>What a call may do to the files: nothing, or write the edited text and report it or an abort.\<close>

definition edited :: "'w edit_env \<Rightarrow> ustring \<Rightarrow> edit list \<Rightarrow> 'w \<Rightarrow> (ustring + edit_tool_result) \<times> 'w \<Rightarrow> bool" where
  "edited env path edits w out =
     (let p = et_resolve env path in
      \<exists>text r. files w p = Some text \<and>
        applyEditsToNormalizedContent (et_nfkc env) (normalizeToLF (snd (stripBom text))) edits path = Inr r \<and>
        \<not> ar_unchanged r \<and>
        files (snd out) = (files w)(p \<mapsto> fst (stripBom text) @
          restoreLineEndings (ar_newContent r) (detectLineEnding (snd (stripBom text)))) \<and>
        fst out \<in> {Inr (edit_result env path edits False r), Inl edit_aborted})"

lemma write_edited_files:
  assumes "et_ops env = ops"
  shows "files (snd (write_edited env path p edits r t w)) = files w \<or>
    files (snd (write_edited env path p edits r t w)) = (files w)(p \<mapsto> t) \<and>
    fst (write_edited env path p edits r t w) \<in> {Inr (edit_result env path edits False r), Inl edit_aborted}"
  using assms write_stores write_fails
  by (auto simp: write_edited_def throwIfAborted_def split: prod.splits sum.splits)

lemma edit_content_files:
  assumes "et_ops env = ops" and "files w (et_resolve env path) = Some text"
  shows "files (snd (edit_content env path (et_resolve env path) edits text w)) = files w \<or>
    edited env path edits w (edit_content env path (et_resolve env path) edits text w)"
proof -
  obtain bom content where split: "stripBom text = (bom, content)" by fastforce
  show ?thesis
  proof (cases "applyEditsToNormalizedContent (et_nfkc env) (normalizeToLF content) edits path")
    case (Inr r)
    then show ?thesis
      using write_edited_files [OF assms(1), of path "et_resolve env path" edits r
          "bom @ restoreLineEndings (ar_newContent r) (detectLineEnding content)" w] assms(2) split
      by (auto simp: edit_content_def edited_def throwIfAborted_def Let_def)
  qed (simp add: edit_content_def split)
qed

lemma edit_execute_files:
  assumes "et_ops env = ops"
  shows "files (snd (edit_execute env path edits w)) = files w \<or> edited env path edits w (edit_execute env path edits w)"
proof (cases "edits = [] \<or> et_aborted env w")
  case True
  then show ?thesis by (auto simp: edit_execute_def validateEditInput_def throwIfAborted_def)
next
  case False
  let ?p = "et_resolve env path"
  obtain r1 w1 where access: "eo_access ops ?p w = (r1, w1)" by fastforce
  then have w1: "files w1 = files w" using access_keeps [of ?p w] by simp
  show ?thesis
  proof (cases "\<exists>u. r1 = Inr u \<and> \<not> et_aborted env w1")
    case True
    obtain r2 w2 where read: "eo_readFile ops ?p w1 = (r2, w2)" by fastforce
    then have w2: "files w2 = files w" using read_keeps [of ?p w1] w1 by simp
    show ?thesis
    proof (cases r2)
      case (Inr t)
      then have "files w1 ?p = Some t" using read_text [of ?p w1 t w2] read by simp
      then have "files w2 ?p = Some t" using w1 w2 by simp
      from edit_content_files [OF assms this, of edits] show ?thesis
        using False True access read w2 Inr assms
        by (auto simp: edit_execute_def validateEditInput_def throwIfAborted_def edited_def)
    qed (use False True access read w2 assms in \<open>auto simp: edit_execute_def validateEditInput_def throwIfAborted_def\<close>)
  qed (use False access w1 assms in \<open>auto simp: edit_execute_def validateEditInput_def throwIfAborted_def Let_def split: sum.splits\<close>)
qed

end

interpretation disk_store: file_store defaultEditOperations dk_files
  by unfold_locales
    (auto simp: defaultEditOperations_def fsAccess_def fsReadFile_def fsWriteFile_def tick_def split: option.splits if_splits)


section \<open>Properties of the tool\<close>

text \<open>
  C18: A call of the edit tool leaves every file as it was, or it writes one file: the one it was
  given, with the applied edits between the byte order mark and the line endings the file had. It
  writes only when something changes and it is no dry run, and then reports success or, when the call
  was aborted during the write, the abort.
\<close>

theorem edit_tool_writes_only_edited_text:
  assumes "et_ops env = defaultEditOperations" and "edit_execute env path edits d = (out, d')" and "dk_files d' \<noteq> dk_files d"
  shows "\<exists>t r. dk_files d (et_resolve env path) = Some t \<and>
    applyEditsToNormalizedContent (et_nfkc env) (normalizeToLF (snd (stripBom t))) edits path = Inr r \<and>
    \<not> ar_unchanged r \<and>
    dk_files d' = (dk_files d)(et_resolve env path \<mapsto> fst (stripBom t) @
      restoreLineEndings (ar_newContent r) (detectLineEnding (snd (stripBom t)))) \<and>
    out \<in> {Inr (edit_result env path edits False r), Inl edit_aborted}"
  using disk_store.edit_execute_files [OF assms(1), of path edits d] assms(2,3)
  unfolding disk_store.edited_def Let_def by auto

text \<open>
  C19: In a file with a byte order mark or none and with one kind of line ending, the tool replaces a
  text that occurs once and writes back everything else as it was, mark and line endings included.
\<close>

theorem edit_tool_keeps_file_format:
  assumes "et_ops env = defaultEditOperations" and "\<And>w. \<not> et_aborted env w" and "\<And>w. \<not> et_dryRun env w"
    and "dk_files d (et_resolve env path) = Some (bom @ restoreLineEndings (pre @ ed_oldText e @ post) ending)"
    and "et_resolve env path \<notin> set (dk_readonly d)"
    and "bom = BOM \<or> bom = [] \<and> \<not> starts_with BOM (restoreLineEndings (pre @ ed_oldText e @ post) ending)"
    and "CR \<notin> set (pre @ ed_oldText e @ post)" and "LF \<in> set (pre @ ed_oldText e @ post)"
    and "CR \<notin> set (ed_newText e)" and "ed_oldText e \<noteq> []" and "ed_newText e \<noteq> ed_oldText e" and "\<not> ed_replaceAll e"
    and "index_of (ed_oldText e) (pre @ ed_oldText e @ post) = Some (length pre)"
    and "countOccurrences (et_nfkc env) (pre @ ed_oldText e @ post) (ed_oldText e) \<le> 1"
  shows "\<exists>details d'. edit_execute env path [e] d = (Inr details, d') \<and>
    dk_files d' = (dk_files d)(et_resolve env path \<mapsto> bom @ restoreLineEndings (pre @ ed_newText e @ post) ending)"
proof -
  let ?content = "pre @ ed_oldText e @ post"
  define raw where "raw = bom @ restoreLineEndings ?content ending"
  have strip: "stripBom raw = (bom, restoreLineEndings ?content ending)"
    using assms(6) by (auto simp: raw_def stripBom_def BOM_def starts_with_def)
  have applied: "applyEditsToNormalizedContent (et_nfkc env) ?content [e] path =
      Inr \<lparr>ar_baseContent = ?content, ar_newContent = pre @ ed_newText e @ post, ar_unchanged = False\<rparr>"
    using assms(7,9-14) by (subst unique_text_is_replaced [of e ?content pre post]) auto
  have steps: "fsAccess (et_resolve env path) d = (Inr (), tick d)"
    "fsReadFile (et_resolve env path) (tick d) = (Inr raw, tick (tick d))"
    using assms(4,5) by (simp_all add: fsAccess_def fsReadFile_def tick_def raw_def)
  show ?thesis
    using strip applied steps assms(1-3,5) normalize_restored [OF assms(7)] detect_restored [OF assms(7,8)]
    by (auto simp: edit_execute_def validateEditInput_def throwIfAborted_def defaultEditOperations_def edit_content_def
        write_edited_def fsWriteFile_def tick_def Let_def)
qed

definition demo_edit_env :: "disk edit_env" where
  "demo_edit_env =
     \<lparr>et_ops = defaultEditOperations, et_dryRun = (\<lambda>w. False), et_aborted = (\<lambda>w. False), et_nfkc = (\<lambda>s. s),
      et_diffLines = (\<lambda>a b. []), et_createPatch = (\<lambda>p a b n. []), et_resolve = (\<lambda>p. p)\<rparr>"

definition demo_disk :: disk where
  "demo_disk = \<lparr>dk_files = [ucs ''f'' \<mapsto> BOM @ restoreLineEndings demo_base EndCRLF], dk_readonly = [], dk_time = 0\<rparr>"

definition demo_pre :: ustring where
  "demo_pre = ucs ''a = 1'' @ [LF]"

definition demo_post :: ustring where
  "demo_post = ucs '' = 2'' @ [LF]"

lemma demo_base_split: "demo_base = demo_pre @ ed_oldText demo_edit @ demo_post"
  by code_simp

lemma demo_edit_facts:
  "CR \<notin> set demo_base" "LF \<in> set demo_base" "CR \<notin> set (ed_newText demo_edit)" "ed_oldText demo_edit \<noteq> []"
  "ed_newText demo_edit \<noteq> ed_oldText demo_edit" "\<not> ed_replaceAll demo_edit"
  "index_of (ed_oldText demo_edit) demo_base = Some (length demo_pre)"
  "countOccurrences (\<lambda>s. s) demo_base (ed_oldText demo_edit) \<le> 1"
  by code_simp+

theorem edit_tool_keeps_file_format_witness:
  "\<exists>details d'. edit_execute demo_edit_env (ucs ''f'') [demo_edit] demo_disk = (Inr details, d') \<and>
    dk_files d' = [ucs ''f'' \<mapsto> BOM @ restoreLineEndings (demo_pre @ ucs ''c'' @ demo_post) EndCRLF]"
proof -
  have "ed_newText demo_edit = ucs ''c''" by (simp add: demo_edit_def)
  moreover have "\<exists>details d'. edit_execute demo_edit_env (ucs ''f'') [demo_edit] demo_disk = (Inr details, d') \<and>
      dk_files d' = (dk_files demo_disk)(et_resolve demo_edit_env (ucs ''f'') \<mapsto>
        BOM @ restoreLineEndings (demo_pre @ ed_newText demo_edit @ demo_post) EndCRLF)"
    by (rule edit_tool_keeps_file_format, unfold demo_base_split [symmetric])
      (use demo_edit_facts in \<open>simp_all add: demo_edit_env_def demo_disk_def\<close>)
  ultimately show ?thesis by (simp add: demo_edit_env_def demo_disk_def)
qed

lemma demo_read:
  "stripBom (BOM @ restoreLineEndings demo_base EndCRLF) = (BOM, restoreLineEndings demo_base EndCRLF)"
  "normalizeToLF (restoreLineEndings demo_base EndCRLF) = demo_base"
  "applyEditsToNormalizedContent (\<lambda>s. s) demo_base [demo_edit] (ucs ''f'') =
   Inr \<lparr>ar_baseContent = demo_base, ar_newContent = demo_pre @ ucs ''c'' @ demo_post, ar_unchanged = False\<rparr>"
  by code_simp+

lemma demo_written_differs:
  "BOM @ restoreLineEndings (demo_pre @ ucs ''c'' @ demo_post) (detectLineEnding (restoreLineEndings demo_base EndCRLF)) \<noteq>
   BOM @ restoreLineEndings demo_base EndCRLF"
  by code_simp

lemma demo_edit_changes:
  "dk_files (snd (edit_execute demo_edit_env (ucs ''f'') [demo_edit] demo_disk)) (ucs ''f'') \<noteq> dk_files demo_disk (ucs ''f'')"
  using demo_written_differs
  by (simp add: Let_def edit_execute_def validateEditInput_def throwIfAborted_def edit_content_def write_edited_def demo_edit_env_def
      demo_disk_def defaultEditOperations_def fsAccess_def fsReadFile_def fsWriteFile_def tick_def demo_read)

theorem edit_tool_writes_only_edited_text_witness:
  "\<exists>out d' t (r :: applied_edits). edit_execute demo_edit_env (ucs ''f'') [demo_edit] demo_disk = (out, d') \<and>
    dk_files demo_disk (ucs ''f'') = Some t \<and> \<not> ar_unchanged r \<and>
    dk_files d' = (dk_files demo_disk)(ucs ''f'' \<mapsto> fst (stripBom t) @
      restoreLineEndings (ar_newContent r) (detectLineEnding (snd (stripBom t))))"
proof -
  obtain out d' where run: "edit_execute demo_edit_env (ucs ''f'') [demo_edit] demo_disk = (out, d')" by fastforce
  then have "dk_files d' (ucs ''f'') \<noteq> dk_files demo_disk (ucs ''f'')" using demo_edit_changes by simp
  then have changed: "dk_files d' \<noteq> dk_files demo_disk" by auto
  have ops: "et_ops demo_edit_env = defaultEditOperations" "et_resolve demo_edit_env (ucs ''f'') = ucs ''f''"
    by (simp_all add: demo_edit_env_def)
  from edit_tool_writes_only_edited_text [OF ops(1) run changed, unfolded ops(2)] run show ?thesis by blast
qed

end
