(* ===== verification/FileQueue.thy ===== *)
theory FileQueue
  imports UStrings
begin

text \<open>
  The queue of mutations of a file (\<open>packages/coding-agent/src/core/tools/file-mutation-queue.ts\<close>).
  Calls of \<open>withFileMutationQueue\<close> run interleaved; the model has one step for every part of a call
  between two awaits. A call is a number, in the order the calls were made, which is the order of the
  chain \<open>registrationQueue\<close>. The promise \<open>chainedQueue\<close> of a call is resolved when the call
  has released the queue, since a call only runs once the promise of the call before it is resolved.
\<close>

datatype path_error = ENOENT | ENOTDIR | OtherError ustring

definition isMissingPathError :: "path_error \<Rightarrow> bool" where
  "isMissingPathError e = (e = ENOENT \<or> e = ENOTDIR)"

text \<open>What the queue asks of the file system: \<open>resolve\<close> of a path and \<open>realpath\<close> on a disk.\<close>

record 'd file_system =
  fsy_resolve :: "ustring \<Rightarrow> ustring"
  fsy_realpath :: "'d \<Rightarrow> ustring \<Rightarrow> path_error + ustring"

definition getMutationQueueKey :: "'d file_system \<Rightarrow> 'd \<Rightarrow> ustring \<Rightarrow> path_error + ustring" where
  "getMutationQueueKey fsy d filePath =
     (let resolvedPath = fsy_resolve fsy filePath
      in case fsy_realpath fsy d resolvedPath of
           Inr p \<Rightarrow> Inr p
         | Inl error \<Rightarrow> (if isMissingPathError error then Inr resolvedPath else Inl error))"

text \<open>
  A call waits for its registration, then for the call before it with the same key, runs its function
  and has released the queue, whether the function returned or threw; or its registration failed.
\<close>

datatype mutation =
    Registering ustring
  | Queued ustring "nat option"
  | Running ustring
  | Released ustring
  | Rejected path_error

fun key_of :: "mutation \<Rightarrow> ustring option" where
  "key_of (Queued k _) = Some k"
| "key_of (Running k) = Some k"
| "key_of (Released k) = Some k"
| "key_of _ = None"

fun is_released :: "mutation \<Rightarrow> bool" where
  "is_released (Released _) = True"
| "is_released _ = False"

record 'd queue_state =
  mq_calls :: "mutation list"
  mq_registered :: nat
  mq_queues :: "ustring \<Rightarrow> nat option"
  mq_disk :: 'd

definition empty_queues :: "'d \<Rightarrow> 'd queue_state" where
  "empty_queues d = \<lparr>mq_calls = [], mq_registered = 0, mq_queues = (\<lambda>k. None), mq_disk = d\<rparr>"

definition withFileMutationQueue :: "ustring \<Rightarrow> 'd queue_state \<Rightarrow> 'd queue_state" where
  "withFileMutationQueue filePath s = s\<lparr>mq_calls := mq_calls s @ [Registering filePath]\<rparr>"

definition register_call :: "'d file_system \<Rightarrow> ustring \<Rightarrow> 'd queue_state \<Rightarrow> 'd queue_state" where
  "register_call fsy filePath s =
     (let i = mq_registered s in
      case getMutationQueueKey fsy (mq_disk s) filePath of
        Inl e \<Rightarrow> s\<lparr>mq_calls := (mq_calls s)[i := Rejected e], mq_registered := i + 1\<rparr>
      | Inr k \<Rightarrow>
          s\<lparr>mq_calls := (mq_calls s)[i := Queued k (mq_queues s k)], mq_registered := i + 1,
            mq_queues := (mq_queues s)(k \<mapsto> i)\<rparr>)"

definition queue_resolved :: "nat option \<Rightarrow> 'd queue_state \<Rightarrow> bool" where
  "queue_resolved currentQueue s = (case currentQueue of None \<Rightarrow> True | Some j \<Rightarrow> is_released (mq_calls s ! j))"

definition start_call :: "nat \<Rightarrow> ustring \<Rightarrow> 'd queue_state \<Rightarrow> 'd queue_state" where
  "start_call i k s = s\<lparr>mq_calls := (mq_calls s)[i := Running k]\<rparr>"

definition release_call :: "nat \<Rightarrow> ustring \<Rightarrow> 'd queue_state \<Rightarrow> 'd queue_state" where
  "release_call i k s =
     s\<lparr>mq_calls := (mq_calls s)[i := Released k],
       mq_queues := (if mq_queues s k = Some i then (mq_queues s)(k := None) else mq_queues s)\<rparr>"

text \<open>The disk changes at any time, through the functions that run and from outside.\<close>

inductive queue_step :: "'d file_system \<Rightarrow> 'd queue_state \<Rightarrow> 'd queue_state \<Rightarrow> bool" for fsy where
  call: "queue_step fsy s (withFileMutationQueue filePath s)"
| register: "mq_registered s < length (mq_calls s) \<Longrightarrow> mq_calls s ! mq_registered s = Registering filePath \<Longrightarrow>
    queue_step fsy s (register_call fsy filePath s)"
| start: "i < length (mq_calls s) \<Longrightarrow> mq_calls s ! i = Queued k currentQueue \<Longrightarrow> queue_resolved currentQueue s \<Longrightarrow>
    queue_step fsy s (start_call i k s)"
| release: "i < length (mq_calls s) \<Longrightarrow> mq_calls s ! i = Running k \<Longrightarrow> queue_step fsy s (release_call i k s)"
| disk: "queue_step fsy s (s\<lparr>mq_disk := d\<rparr>)"

inductive queue_reachable :: "'d file_system \<Rightarrow> 'd queue_state \<Rightarrow> bool" for fsy where
  init: "queue_reachable fsy (empty_queues d)"
| step: "queue_reachable fsy s \<Longrightarrow> queue_step fsy s t \<Longrightarrow> queue_reachable fsy t"

inductive_cases queue_stepE: "queue_step fsy s t"

section \<open>Invariant\<close>

abbreviation has_key :: "mutation list \<Rightarrow> ustring \<Rightarrow> nat \<Rightarrow> bool" where
  "has_key calls k i \<equiv> i < length calls \<and> key_of (calls ! i) = Some k"

text \<open>All calls of the key before call \<open>i\<close> are done, or the last of them is the one it waits for.\<close>

definition waits_for :: "mutation list \<Rightarrow> ustring \<Rightarrow> nat \<Rightarrow> nat option \<Rightarrow> bool" where
  "waits_for calls k i prev =
     (case prev of
        None \<Rightarrow> \<forall>j<i. has_key calls k j \<longrightarrow> is_released (calls ! j)
      | Some p \<Rightarrow> p < i \<and> has_key calls k p \<and> (\<forall>j<i. has_key calls k j \<longrightarrow> j \<le> p))"

definition call_ok :: "mutation list \<Rightarrow> nat \<Rightarrow> bool" where
  "call_ok calls i =
     (case calls ! i of
        Queued k prev \<Rightarrow> waits_for calls k i prev
      | Running k \<Rightarrow> waits_for calls k i None
      | Released k \<Rightarrow> waits_for calls k i None
      | _ \<Rightarrow> True)"

definition queue_inv :: "'d queue_state \<Rightarrow> bool" where
  "queue_inv s =
     (mq_registered s \<le> length (mq_calls s) \<and>
      (\<forall>i<length (mq_calls s). mq_registered s \<le> i \<longleftrightarrow> (\<exists>p. mq_calls s ! i = Registering p)) \<and>
      (\<forall>i<length (mq_calls s). call_ok (mq_calls s) i) \<and>
      (\<forall>k. waits_for (mq_calls s) k (length (mq_calls s)) (mq_queues s k)))"

lemma queue_inv_registered: "queue_inv s \<Longrightarrow> has_key (mq_calls s) k i \<Longrightarrow> i < mq_registered s"
  unfolding queue_inv_def by (metis key_of.simps(4) linorder_not_le option.distinct(1))


lemma waits_for_update:
  assumes "waits_for calls k i prev" and "j < length calls" and "key_of m = key_of (calls ! j)"
    and "is_released (calls ! j) \<Longrightarrow> is_released m"
  shows "waits_for (calls[j := m]) k i prev"
  using assms by (auto simp: waits_for_def nth_list_update split: option.splits)

lemma waits_for_released:
  assumes "waits_for calls k i prev" and "call_ok calls p" and "prev = Some p" and "is_released (calls ! p)"
  shows "waits_for calls k i None"
proof -
  obtain k' where p: "calls ! p = Released k'" using assms(4) by (cases "calls ! p") auto
  then have "k' = k" "\<forall>j<i. has_key calls k j \<longrightarrow> j \<le> p" using assms(1,3) by (auto simp: waits_for_def)
  moreover have "\<forall>j<p. has_key calls k j \<longrightarrow> is_released (calls ! j)"
    using assms(2) p \<open>k' = k\<close> by (simp add: call_ok_def waits_for_def)
  ultimately show ?thesis using assms(4) by (auto simp: waits_for_def le_less)
qed

lemma call_ok_update:
  assumes "call_ok calls i" and "i < length calls" and "j < length calls" and "key_of m = key_of (calls ! j)"
    and "is_released (calls ! j) \<Longrightarrow> is_released m" and "i \<noteq> j"
  shows "call_ok (calls[j := m]) i"
  using assms waits_for_update [OF _ assms(3-5)] by (auto simp: call_ok_def split: mutation.splits)

lemma queue_inv_call: "queue_inv s \<Longrightarrow> queue_inv (withFileMutationQueue p s)"
proof -
  assume inv: "queue_inv s"
  have key: "has_key (mq_calls s @ [Registering p]) k j \<longleftrightarrow> has_key (mq_calls s) k j" for k j
    by (auto simp: nth_append less_Suc_eq)
  have rel: "has_key (mq_calls s) k j \<Longrightarrow> is_released ((mq_calls s @ [Registering p]) ! j) = is_released (mq_calls s ! j)" for k j
    by (simp add: nth_append)
  have waits: "waits_for (mq_calls s @ [Registering p]) k i prev \<longleftrightarrow> waits_for (mq_calls s) k i prev" for k i prev
    unfolding waits_for_def key using rel by (auto split: option.splits)
  have last: "waits_for (mq_calls s) k (length (mq_calls s)) prev \<Longrightarrow> waits_for (mq_calls s) k (Suc (length (mq_calls s))) prev" for k prev
    by (auto simp: waits_for_def split: option.splits)
  have "call_ok (mq_calls s @ [Registering p]) i" if "i < Suc (length (mq_calls s))" for i
    using inv that waits by (cases "i = length (mq_calls s)") (auto simp: queue_inv_def call_ok_def nth_append split: mutation.splits)
  then show ?thesis
    using inv last by (auto simp: queue_inv_def withFileMutationQueue_def waits less_Suc_eq nth_append)
qed

lemma queue_inv_update:
  assumes "queue_inv s" and "j < length (mq_calls s)" and "key_of m = key_of (mq_calls s ! j)"
    and "is_released (mq_calls s ! j) \<Longrightarrow> is_released m" and "\<And>p. m \<noteq> Registering p" and "\<And>p. mq_calls s ! j \<noteq> Registering p"
    and "call_ok ((mq_calls s)[j := m]) j"
  shows "queue_inv (s\<lparr>mq_calls := (mq_calls s)[j := m]\<rparr>)"
proof -
  have "call_ok ((mq_calls s)[j := m]) i" if "i < length (mq_calls s)" for i
    using assms(1,7) that call_ok_update [OF _ that assms(2-4)] by (cases "i = j") (auto simp: queue_inv_def)
  moreover have "mq_registered s \<le> i \<longleftrightarrow> (\<exists>p. (mq_calls s)[j := m] ! i = Registering p)" if "i < length (mq_calls s)" for i
    using assms(1,2,5,6) that by (cases "i = j") (auto simp: queue_inv_def)
  ultimately show ?thesis
    using assms(1) waits_for_update [OF _ assms(2-4)] by (simp add: queue_inv_def)
qed

lemma queue_inv_start:
  assumes "queue_inv s" and "i < length (mq_calls s)" and "mq_calls s ! i = Queued k prev" and "queue_resolved prev s"
  shows "queue_inv (start_call i k s)"
proof -
  have ok: "waits_for (mq_calls s) k i prev" using assms(1-3) by (auto simp: queue_inv_def call_ok_def)
  have "waits_for (mq_calls s) k i None"
  proof (cases prev)
    case (Some p)
    then have "p < length (mq_calls s)" "is_released (mq_calls s ! p)"
      using ok assms(4) by (auto simp: waits_for_def queue_resolved_def)
    then show ?thesis using waits_for_released [OF ok _ Some] assms(1) by (auto simp: queue_inv_def)
  qed (use ok in simp)
  then have "waits_for ((mq_calls s)[i := Running k]) k i None" using assms(2,3) by (intro waits_for_update) simp_all
  then show ?thesis
    unfolding start_call_def using assms(1-3) by (intro queue_inv_update) (simp_all add: call_ok_def)
qed

lemma queue_inv_release:
  assumes "queue_inv s" and "i < length (mq_calls s)" and "mq_calls s ! i = Running k"
  shows "queue_inv (release_call i k s)"
proof -
  let ?calls = "(mq_calls s)[i := Released k]"
  have before: "waits_for (mq_calls s) k i None" using assms by (auto simp: queue_inv_def call_ok_def)
  then have "waits_for ?calls k i None" using assms(2,3) by (intro waits_for_update) simp_all
  then have inv: "queue_inv (s\<lparr>mq_calls := ?calls\<rparr>)"
    using assms by (intro queue_inv_update) (simp_all add: call_ok_def)
  have "waits_for ?calls k (length (mq_calls s)) None" if "mq_queues s k = Some i"
  proof -
    have "waits_for (mq_calls s) k (length (mq_calls s)) (Some i)" using assms(1) that by (metis queue_inv_def)
    then have "\<forall>j<length (mq_calls s). has_key (mq_calls s) k j \<longrightarrow> j \<le> i" by (simp add: waits_for_def)
    then show ?thesis using before assms(2,3) by (auto simp: waits_for_def nth_list_update le_less)
  qed
  then show ?thesis using inv by (auto simp: queue_inv_def release_call_def)
qed

lemma queue_inv_register:
  assumes "queue_inv s" and "mq_registered s < length (mq_calls s)" and "mq_calls s ! mq_registered s = Registering p"
  shows "queue_inv (register_call fsy p s)"
proof -
  let ?i = "mq_registered s" and ?n = "length (mq_calls s)"
  have free: "\<not> has_key (mq_calls s) k j" if "?i \<le> j" for k j using queue_inv_registered [OF assms(1)] that by (metis not_le)
  have waits: "waits_for ((mq_calls s)[?i := m]) k j prev" if "waits_for (mq_calls s) k j prev" "j \<le> ?i \<or> key_of m \<noteq> Some k" for m k j prev
    using that assms(2,3) by (auto simp: waits_for_def nth_list_update split: option.splits)
  have ok: "call_ok ((mq_calls s)[?i := m]) j" if "j < ?n" "j \<noteq> ?i" for m j
  proof (cases "key_of (mq_calls s ! j)")
    case (Some k)
    then have "j < ?i" using free [of j k] that(1) by (meson not_le)
    moreover have "call_ok (mq_calls s) j" using assms(1) that by (simp add: queue_inv_def)
    ultimately show ?thesis using that(2) waits by (auto simp: call_ok_def split: mutation.splits)
  qed (use that in \<open>cases "mq_calls s ! j"; simp add: call_ok_def\<close>)
  have reg: "Suc ?i \<le> j \<longleftrightarrow> (\<exists>p. (mq_calls s)[?i := m] ! j = Registering p)" if "j < ?n" "\<And>p. m \<noteq> Registering p" for m j
    using assms(1) that by (auto simp: queue_inv_def nth_list_update Suc_le_eq le_less)
  show ?thesis
  proof (cases "getMutationQueueKey fsy (mq_disk s) p")
    case (Inl e)
    have "call_ok ((mq_calls s)[?i := Rejected e]) j" if "j < ?n" for j
      using ok that by (cases "j = ?i") (simp_all add: call_ok_def)
    then show ?thesis using assms(1,2) Inl waits reg by (auto simp: register_call_def queue_inv_def Let_def)
  next
    case (Inr k)
    let ?m = "Queued k (mq_queues s k)"
    have "waits_for (mq_calls s) k ?n (mq_queues s k)" using assms(1) by (simp add: queue_inv_def)
    then have "waits_for (mq_calls s) k ?i (mq_queues s k)"
      using queue_inv_registered [OF assms(1)] assms(2) by (auto simp: waits_for_def split: option.splits)
    then have "call_ok ((mq_calls s)[?i := ?m]) j" if "j < ?n" for j
      using ok that waits [of k ?i "mq_queues s k" ?m] assms(2) by (cases "j = ?i") (simp_all add: call_ok_def)
    moreover have "waits_for ((mq_calls s)[?i := ?m]) k ?n (Some ?i)"
      using free assms(2) by (auto simp: waits_for_def nth_list_update intro: le_cases [of _ ?i])
    ultimately show ?thesis using assms(1,2) Inr waits reg by (auto simp: register_call_def queue_inv_def Let_def)
  qed
qed

lemma queue_step_inv: "queue_step fsy s t \<Longrightarrow> queue_inv s \<Longrightarrow> queue_inv t"
proof (induction rule: queue_step.induct)
  case (disk s d)
  then show ?case by (simp add: queue_inv_def)
qed (use queue_inv_call queue_inv_register queue_inv_start queue_inv_release in blast)+

lemma queue_reachable_inv: "queue_reachable fsy s \<Longrightarrow> queue_inv s"
proof (induction rule: queue_reachable.induct)
  case (init d)
  then show ?case by (simp add: queue_inv_def empty_queues_def waits_for_def)
qed (rule queue_step_inv)


section \<open>What the queue guarantees\<close>

lemma running_after_released:
  assumes "queue_reachable fsy s" and "i < length (mq_calls s)" and "mq_calls s ! i \<in> {Running k, Released k}"
    and "j < i" and "key_of (mq_calls s ! j) = Some k"
  shows "is_released (mq_calls s ! j)"
proof -
  have "call_ok (mq_calls s) i" using queue_reachable_inv [OF assms(1)] assms(2) by (simp add: queue_inv_def)
  then show ?thesis using assms(2-5) by (auto simp: call_ok_def waits_for_def)
qed

text \<open>
  C21: However calls, registrations, changes of the disk and running functions interleave, no two
  functions run at the same time for one key, and a function runs only after every earlier call with
  its key has finished: mutations of a file are made one after another, in the order of the calls.
\<close>

theorem mutations_are_serialized:
  assumes "queue_reachable fsy s" and "i < length (mq_calls s)" and "mq_calls s ! i = Running k"
    and "j < length (mq_calls s)" and "key_of (mq_calls s ! j) = Some k"
  shows "(mq_calls s ! j = Running k \<longrightarrow> i = j) \<and> (j < i \<longrightarrow> is_released (mq_calls s ! j))"
proof -
  have "is_released (mq_calls s ! j)" if "j < i" using running_after_released [OF assms(1,2)] assms(3,5) that by simp
  moreover have "is_released (mq_calls s ! i)" if "i < j" "mq_calls s ! j = Running k"
    using running_after_released [OF assms(1,4) _ that(1), of k] assms(3) that(2) by simp
  ultimately show ?thesis using assms(3) by (cases i j rule: linorder_cases) auto
qed

text \<open>No call waits for ever: while calls of a key are queued, one runs or can start.\<close>

lemma queue_progress:
  assumes "queue_reachable fsy s" and "i < length (mq_calls s)" and "mq_calls s ! i = Queued k prev"
  shows "\<exists>j\<le>i. (\<exists>prev'. mq_calls s ! j = Queued k prev' \<and> queue_resolved prev' s) \<or> mq_calls s ! j = Running k"
  using assms(2,3)
proof (induction i arbitrary: prev rule: less_induct)
  case (less i)
  show ?case
  proof (cases "queue_resolved prev s")
    case False
    then obtain p where p: "prev = Some p" "\<not> is_released (mq_calls s ! p)"
      by (auto simp: queue_resolved_def split: option.splits)
    have "waits_for (mq_calls s) k i prev"
      using queue_reachable_inv [OF assms(1)] less.prems by (auto simp: queue_inv_def call_ok_def)
    then have before: "p < i" "p < length (mq_calls s)" "key_of (mq_calls s ! p) = Some k" using p(1) by (auto simp: waits_for_def)
    show ?thesis
    proof (cases "mq_calls s ! p")
      case (Queued k' prev')
      then have "mq_calls s ! p = Queued k prev'" using before(3) by simp
      then show ?thesis using less.IH [OF before(1,2)] before(1) by (meson le_less_trans less_imp_le)
    next
      case (Running k')
      then show ?thesis using before(1,3) by (metis key_of.simps(2) less_imp_le option.inject)
    qed (use before(3) p(2) in auto)
  qed (use less.prems in blast)
qed

text \<open>
  The key of a file depends on whether it exists. A function that creates a file through a symbolic
  link runs under the path as given, and a call made once the file is there runs under its real
  path: two functions for one file run at the same time.
\<close>

definition link_file_system :: "bool file_system" where
  "link_file_system =
     \<lparr>fsy_resolve = (\<lambda>p. p), fsy_realpath = (\<lambda>exists p. if exists then Inr (ucs ''/real/f'') else Inl ENOENT)\<rparr>"

definition creating :: "bool queue_state" where
  "creating = start_call 0 (ucs ''/link/f'') (register_call link_file_system (ucs ''/link/f'')
     (withFileMutationQueue (ucs ''/link/f'') (empty_queues False)))"

definition overlapping :: "bool queue_state" where
  "overlapping = start_call 1 (ucs ''/real/f'') (register_call link_file_system (ucs ''/link/f'')
     (withFileMutationQueue (ucs ''/link/f'') (creating\<lparr>mq_disk := True\<rparr>)))"

lemmas link_simps = link_file_system_def creating_def overlapping_def start_call_def register_call_def
  withFileMutationQueue_def empty_queues_def getMutationQueueKey_def isMissingPathError_def queue_resolved_def Let_def

lemma creating_reachable: "queue_reachable link_file_system creating"
  unfolding creating_def
proof (rule queue_reachable.step [OF _ queue_step.start [where currentQueue = None]])
  show "queue_reachable link_file_system (register_call link_file_system (ucs ''/link/f'')
      (withFileMutationQueue (ucs ''/link/f'') (empty_queues False)))"
    by (rule queue_reachable.step [OF queue_reachable.step [OF queue_reachable.init queue_step.call] queue_step.register])
      (simp_all add: link_simps)
qed (simp_all add: link_simps)

lemma overlapping_reachable: "queue_reachable link_file_system overlapping"
  unfolding overlapping_def
proof (rule queue_reachable.step [OF _ queue_step.start [where currentQueue = None]])
  show "queue_reachable link_file_system (register_call link_file_system (ucs ''/link/f'')
      (withFileMutationQueue (ucs ''/link/f'') (creating\<lparr>mq_disk := True\<rparr>)))"
    by (rule queue_reachable.step [OF queue_reachable.step [OF queue_reachable.step [OF creating_reachable queue_step.disk]
        queue_step.call] queue_step.register]) (simp_all add: link_simps)
qed (simp_all add: link_simps ucs_def)

theorem created_file_is_mutated_twice:
  "queue_reachable link_file_system overlapping \<and>
   mq_calls overlapping = [Running (ucs ''/link/f''), Running (ucs ''/real/f'')]"
  using overlapping_reachable by (simp add: link_simps ucs_def)

definition in_turn :: "bool queue_state" where
  "in_turn = start_call 1 (ucs ''/link/f'') (release_call 0 (ucs ''/link/f'') (register_call link_file_system (ucs ''/link/f'')
     (withFileMutationQueue (ucs ''/link/f'') creating)))"

lemma in_turn_calls: "mq_calls in_turn = [Released (ucs ''/link/f''), Running (ucs ''/link/f'')]"
  by (simp add: in_turn_def release_call_def link_simps)

lemma in_turn_reachable: "queue_reachable link_file_system in_turn"
  unfolding in_turn_def
proof (rule queue_reachable.step [OF _ queue_step.start [where currentQueue = "Some 0"]])
  have "queue_reachable link_file_system (register_call link_file_system (ucs ''/link/f'')
      (withFileMutationQueue (ucs ''/link/f'') creating))"
    by (rule queue_reachable.step [OF queue_reachable.step [OF creating_reachable queue_step.call] queue_step.register])
      (simp_all add: link_simps)
  then show "queue_reachable link_file_system (release_call 0 (ucs ''/link/f'') (register_call link_file_system (ucs ''/link/f'')
      (withFileMutationQueue (ucs ''/link/f'') creating)))"
    by (rule queue_reachable.step [OF _ queue_step.release]) (simp_all add: link_simps)
qed (simp_all add: release_call_def link_simps)

theorem mutations_are_serialized_witness:
  "mq_calls in_turn ! 1 = Running (ucs ''/link/f'') \<and> is_released (mq_calls in_turn ! 0)"
  using mutations_are_serialized [OF in_turn_reachable, of 1 "ucs ''/link/f''" 0] in_turn_calls by simp

end
