(* ===== verification/Truncate.thy ===== *)
theory Truncate
  imports UStrings "HOL-Library.Sublist"
begin

unbundle bit_operations_syntax

text \<open>
  Truncating tool output (\<open>packages/coding-agent/src/core/tools/truncate.ts\<close>): the first or the
  last lines of a text within a limit of lines and a limit of bytes, and part of the last line when
  that line alone is too long. Sizes are those of the UTF-8 encoding, modelled here with the
  replacement character for a surrogate that has no partner.
\<close>

section \<open>UTF-8\<close>

definition is_high :: "int \<Rightarrow> bool" where
  "is_high c = (55296 \<le> c \<and> c \<le> 56319)"

definition is_low :: "int \<Rightarrow> bool" where
  "is_low c = (56320 \<le> c \<and> c \<le> 57343)"

definition encode_bmp :: "int \<Rightarrow> int list" where
  "encode_bmp c =
     (if c < 128 then [c]
      else if c < 2048 then [192 + c div 64, 128 + c mod 64]
      else [224 + c div 4096, 128 + c div 64 mod 64, 128 + c mod 64])"

definition encode_pair :: "int \<Rightarrow> int \<Rightarrow> int list" where
  "encode_pair c d =
     (let p = 65536 + (c - 55296) * 1024 + (d - 56320)
      in [240 + p div 262144, 128 + p div 4096 mod 64, 128 + p div 64 mod 64, 128 + p mod 64])"

definition encode_unit :: "int \<Rightarrow> int list" where
  "encode_unit c = encode_bmp (if is_high c \<or> is_low c then 65533 else c)"

fun utf8 :: "ustring \<Rightarrow> int list" where
  "utf8 [] = []"
| "utf8 [c] = encode_unit c"
| "utf8 (c # d # s) =
     (if is_high c \<and> is_low d then encode_pair c d @ utf8 s else encode_unit c @ utf8 (d # s))"

definition byteLength :: "ustring \<Rightarrow> nat" where
  "byteLength s = length (utf8 s)"

text \<open>
  Decoding, as \<open>Buffer.toString\<close> does it on well-formed input; the tools decode from the start of
  a character only.
\<close>

fun decode_utf8 :: "int list \<Rightarrow> ustring" where
  "decode_utf8 [] = []"
| "decode_utf8 (a # bs) =
     (if a < 128 then a # decode_utf8 bs
      else if a < 192 then 65533 # decode_utf8 bs
      else if a < 224 then
        (case bs of b # r \<Rightarrow> ((a - 192) * 64 + (b - 128)) # decode_utf8 r | _ \<Rightarrow> [65533])
      else if a < 240 then
        (case bs of b # c # r \<Rightarrow> ((a - 224) * 4096 + (b - 128) * 64 + (c - 128)) # decode_utf8 r | _ \<Rightarrow> [65533])
      else
        (case bs of
           b # c # d # r \<Rightarrow>
             (let p = (a - 240) * 262144 + (b - 128) * 4096 + (c - 128) * 64 + (d - 128) - 65536
              in (55296 + p div 1024) # (56320 + p mod 1024) # decode_utf8 r)
         | _ \<Rightarrow> [65533]))"

section \<open>Options and results\<close>

definition DEFAULT_MAX_LINES :: nat where "DEFAULT_MAX_LINES = 2000"
definition DEFAULT_MAX_BYTES :: nat where "DEFAULT_MAX_BYTES = 50 * 1024"
definition GREP_MAX_LINE_LENGTH :: nat where "GREP_MAX_LINE_LENGTH = 500"

datatype truncated_by = ByLines | ByBytes

record truncation_result =
  tc_content :: ustring
  tc_truncated :: bool
  tc_truncatedBy :: "truncated_by option"
  tc_totalLines :: nat
  tc_totalBytes :: nat
  tc_outputLines :: nat
  tc_outputBytes :: nat
  tc_lastLinePartial :: bool
  tc_firstLineExceedsLimit :: bool
  tc_maxLines :: nat
  tc_maxBytes :: nat

record truncation_options =
  to_maxLines :: "nat option"
  to_maxBytes :: "nat option"

definition max_lines :: "truncation_options \<Rightarrow> nat" where
  "max_lines options = (case to_maxLines options of Some n \<Rightarrow> n | None \<Rightarrow> DEFAULT_MAX_LINES)"

definition max_bytes :: "truncation_options \<Rightarrow> nat" where
  "max_bytes options = (case to_maxBytes options of Some n \<Rightarrow> n | None \<Rightarrow> DEFAULT_MAX_BYTES)"

definition splitLinesForCounting :: "ustring \<Rightarrow> ustring list" where
  "splitLinesForCounting content =
     (if length content = 0 then []
      else let lines = lines_of content in if last content = LF then butlast lines else lines)"

text \<open>\<open>toFixed(1)\<close> of a quotient by a power of two: to the nearest tenth, upwards in the middle.\<close>

definition fixed1 :: "nat \<Rightarrow> nat \<Rightarrow> string" where
  "fixed1 n d = (let t = (20 * n + d) div (2 * d) in show_nat (t div 10) @ ''.'' @ show_nat (t mod 10))"

definition formatSize :: "nat \<Rightarrow> string" where
  "formatSize bytes =
     (if bytes < 1024 then show_nat bytes @ ''B''
      else if bytes < 1024 * 1024 then fixed1 bytes 1024 @ ''KB''
      else fixed1 bytes (1024 * 1024) @ ''MB'')"

definition untruncated :: "ustring \<Rightarrow> truncation_options \<Rightarrow> truncation_result" where
  "untruncated content options =
     (let totalBytes = byteLength content; totalLines = length (splitLinesForCounting content)
      in \<lparr>tc_content = content, tc_truncated = False, tc_truncatedBy = None, tc_totalLines = totalLines,
          tc_totalBytes = totalBytes, tc_outputLines = totalLines, tc_outputBytes = totalBytes,
          tc_lastLinePartial = False, tc_firstLineExceedsLimit = False,
          tc_maxLines = max_lines options, tc_maxBytes = max_bytes options\<rparr>)"

definition truncated_to ::
  "ustring \<Rightarrow> truncation_options \<Rightarrow> ustring list \<Rightarrow> truncated_by \<Rightarrow> bool \<Rightarrow> truncation_result" where
  "truncated_to content options output by partial =
     (let outputContent = unlines output
      in \<lparr>tc_content = outputContent, tc_truncated = True, tc_truncatedBy = Some by,
          tc_totalLines = length (splitLinesForCounting content), tc_totalBytes = byteLength content,
          tc_outputLines = length output, tc_outputBytes = byteLength outputContent,
          tc_lastLinePartial = partial, tc_firstLineExceedsLimit = False,
          tc_maxLines = max_lines options, tc_maxBytes = max_bytes options\<rparr>)"

section \<open>From the head\<close>

fun head_loop ::
  "nat \<Rightarrow> nat \<Rightarrow> ustring list \<Rightarrow> ustring list \<Rightarrow> nat \<Rightarrow> ustring list \<times> nat \<times> truncated_by" where
  "head_loop maxLines maxBytes [] output bytes = (output, bytes, ByLines)"
| "head_loop maxLines maxBytes (line # lines) output bytes =
     (if length output < maxLines then
        (let lineBytes = byteLength line + (if length output > 0 then 1 else 0)
         in if bytes + lineBytes > maxBytes then (output, bytes, ByBytes)
            else head_loop maxLines maxBytes lines (output @ [line]) (bytes + lineBytes))
      else (output, bytes, ByLines))"

definition truncateHead :: "ustring \<Rightarrow> truncation_options \<Rightarrow> truncation_result" where
  "truncateHead content options =
     (let maxLines = max_lines options;
          maxBytes = max_bytes options;
          totalBytes = byteLength content;
          lines = splitLinesForCounting content;
          totalLines = length lines
      in if totalLines \<le> maxLines \<and> totalBytes \<le> maxBytes then untruncated content options
         else if byteLength (hd lines) > maxBytes then
           \<lparr>tc_content = [], tc_truncated = True, tc_truncatedBy = Some ByBytes, tc_totalLines = totalLines,
            tc_totalBytes = totalBytes, tc_outputLines = 0, tc_outputBytes = 0, tc_lastLinePartial = False,
            tc_firstLineExceedsLimit = True, tc_maxLines = maxLines, tc_maxBytes = maxBytes\<rparr>
         else
           let (output, bytes, by) = head_loop maxLines maxBytes lines [] 0;
               by = (if length output \<ge> maxLines \<and> bytes \<le> maxBytes then ByLines else by)
           in truncated_to content options output by False)"

section \<open>From the tail\<close>

definition is_continuation :: "int \<Rightarrow> bool" where
  "is_continuation b = (b AND 192 = 128)"

definition truncateStringToBytesFromEnd :: "ustring \<Rightarrow> nat \<Rightarrow> ustring" where
  "truncateStringToBytesFromEnd str maxBytes =
     (let buf = utf8 str
      in if length buf \<le> maxBytes then str
         else decode_utf8 (dropWhile is_continuation (drop (length buf - maxBytes) buf)))"

text \<open>The lines come from the last to the first.\<close>

fun tail_loop ::
  "nat \<Rightarrow> nat \<Rightarrow> ustring list \<Rightarrow> ustring list \<Rightarrow> nat \<Rightarrow> ustring list \<times> nat \<times> truncated_by \<times> bool" where
  "tail_loop maxLines maxBytes [] output bytes = (output, bytes, ByLines, False)"
| "tail_loop maxLines maxBytes (line # lines) output bytes =
     (if length output < maxLines then
        (let lineBytes = byteLength line + (if length output > 0 then 1 else 0)
         in if bytes + lineBytes > maxBytes then
              (if length output = 0 then
                 (let truncatedLine = truncateStringToBytesFromEnd line maxBytes
                  in (truncatedLine # output, byteLength truncatedLine, ByBytes, True))
               else (output, bytes, ByBytes, False))
            else tail_loop maxLines maxBytes lines (line # output) (bytes + lineBytes))
      else (output, bytes, ByLines, False))"

definition truncateTail :: "ustring \<Rightarrow> truncation_options \<Rightarrow> truncation_result" where
  "truncateTail content options =
     (let maxLines = max_lines options;
          maxBytes = max_bytes options;
          lines = splitLinesForCounting content
      in if length lines \<le> maxLines \<and> byteLength content \<le> maxBytes then untruncated content options
         else
           let (output, bytes, by, partial) = tail_loop maxLines maxBytes (rev lines) [] 0;
               by = (if length output \<ge> maxLines \<and> bytes \<le> maxBytes then ByLines else by)
           in truncated_to content options output by partial)"

definition truncateLine :: "ustring \<Rightarrow> nat \<Rightarrow> ustring \<times> bool" where
  "truncateLine line maxChars =
     (if length line \<le> maxChars then (line, False) else (take maxChars line @ ucs ''... [truncated]'', True))"


section \<open>Sizes\<close>

lemma utf8_append: "ys = [] \<or> \<not> is_low (hd ys) \<Longrightarrow> utf8 (xs @ ys) = utf8 xs @ utf8 ys"
proof (induction xs rule: utf8.induct)
  case (2 c)
  then show ?case by (cases ys) auto
qed auto

lemma utf8_LF: "utf8 (LF # s) = LF # utf8 s"
  by (cases s) (simp_all add: is_high_def is_low_def encode_unit_def encode_bmp_def)

lemma utf8_lines: "utf8 (x @ LF # y) = utf8 x @ LF # utf8 y"
  by (simp add: utf8_append utf8_LF is_low_def)

lemma byteLength_Nil [simp]: "byteLength [] = 0"
  by (simp add: byteLength_def)

definition lines_size :: "ustring list \<Rightarrow> nat" where
  "lines_size ls = byteLength (unlines ls)"

lemma lines_size_Nil [simp]: "lines_size [] = 0"
  by (simp add: lines_size_def)

lemma lines_size_Cons: "lines_size (l # ls) = byteLength l + (if length ls > 0 then 1 else 0) + lines_size ls"
  by (cases ls) (simp_all add: lines_size_def js_join_Cons byteLength_def utf8_lines)

lemma lines_size_snoc: "lines_size (ls @ [l]) = lines_size ls + (byteLength l + (if length ls > 0 then 1 else 0))"
  by (induction ls) (auto simp: lines_size_Cons)

lemma length_take_append_Suc: "k < length ls \<Longrightarrow> take (Suc k) ls = take k ls @ [ls ! k]"
  by (rule take_Suc_conv_app_nth)

section \<open>The loops\<close>

text \<open>Both loops stop at the end of the lines, at the limit of lines, or where one more line is too much.\<close>

lemma head_loop_takes:
  assumes "head_loop maxLines maxBytes lines acc (lines_size acc) = (out, bytes, by)"
    and "length acc \<le> maxLines" and "lines_size acc \<le> maxBytes"
  shows "\<exists>k\<le>length lines. out = acc @ take k lines \<and> bytes = lines_size out \<and> length out \<le> maxLines \<and>
    bytes \<le> maxBytes \<and>
    (k = length lines \<or> length out = maxLines \<or> lines_size (acc @ take (Suc k) lines) > maxBytes)"
  using assms
proof (induction lines arbitrary: acc)
  case (Cons line lines)
  let ?size = "byteLength line + (if length acc > 0 then 1 else 0)"
  show ?case
  proof (cases "length acc < maxLines \<and> lines_size acc + ?size \<le> maxBytes")
    case True
    then have "head_loop maxLines maxBytes lines (acc @ [line]) (lines_size (acc @ [line])) = (out, bytes, by)"
      using Cons.prems(1) by (simp add: lines_size_snoc split: if_splits)
    then obtain k where k: "k \<le> length lines" "out = (acc @ [line]) @ take k lines" "bytes = lines_size out"
        "length out \<le> maxLines" "bytes \<le> maxBytes"
        "k = length lines \<or> length out = maxLines \<or> lines_size ((acc @ [line]) @ take (Suc k) lines) > maxBytes"
      using Cons.IH [of "acc @ [line]"] True by (auto simp: lines_size_snoc split: if_splits)
    then show ?thesis by (intro exI [of _ "Suc k"]) simp
  next
    case False
    then have "out = acc \<and> bytes = lines_size acc" using Cons.prems(1) by (auto simp: Let_def split: if_splits)
    then show ?thesis using False Cons.prems by (intro exI [of _ 0]) (auto simp: lines_size_snoc split: if_splits)
  qed
qed auto

lemma tail_loop_takes:
  assumes "tail_loop maxLines maxBytes (rev lines) acc (lines_size acc) = (out, bytes, by, partial)"
    and "length acc \<le> maxLines" and "lines_size acc \<le> maxBytes"
  shows "(\<exists>k\<le>length lines. out = drop k lines @ acc \<and> \<not> partial \<and> length out \<le> maxLines \<and> lines_size out \<le> maxBytes \<and>
      (k = 0 \<or> length out = maxLines \<or> lines_size (drop (k - 1) lines @ acc) > maxBytes)) \<or>
    partial \<and> acc = [] \<and> lines \<noteq> [] \<and> 0 < maxLines \<and> byteLength (last lines) > maxBytes \<and>
      out = [truncateStringToBytesFromEnd (last lines) maxBytes]"
  using assms
proof (induction lines arbitrary: acc rule: rev_induct)
  case (snoc line lines)
  let ?size = "byteLength line + (if length acc > 0 then 1 else 0)"
  show ?case
  proof (cases "length acc < maxLines \<and> lines_size acc + ?size \<le> maxBytes")
    case True
    then have "tail_loop maxLines maxBytes (rev lines) (line # acc) (lines_size (line # acc)) = (out, bytes, by, partial)"
      using snoc.prems(1) by (simp add: lines_size_Cons add.commute add.left_commute split: if_splits)
    then obtain k where k: "k \<le> length lines" "out = drop k lines @ line # acc" "\<not> partial"
        "length out \<le> maxLines" "lines_size out \<le> maxBytes"
        "k = 0 \<or> length out = maxLines \<or> lines_size (drop (k - 1) lines @ line # acc) > maxBytes"
      using snoc.IH [of "line # acc"] True by (auto simp: lines_size_Cons add.commute add.left_commute split: if_splits)
    then show ?thesis by (intro disjI1 exI [of _ k]) auto
  next
    case False
    show ?thesis
    proof (cases "acc = [] \<and> 0 < maxLines")
      case True
      then have "byteLength line > maxBytes" using False by simp
      then have "partial \<and> out = [truncateStringToBytesFromEnd line maxBytes]"
        using snoc.prems(1) True by (simp add: Let_def)
      then show ?thesis using True \<open>byteLength line > maxBytes\<close> by simp
    next
      case nonempty: False
      then have "out = acc \<and> \<not> partial" using False snoc.prems(1) by (auto simp: Let_def split: if_splits)
      then show ?thesis using False nonempty snoc.prems
        by (intro disjI1 exI [of _ "length (lines @ [line])"]) (auto simp: lines_size_Cons split: if_splits)
    qed
  qed
qed auto


section \<open>A line cut at a byte limit\<close>

definition code_units :: "ustring \<Rightarrow> bool" where
  "code_units s = list_all (\<lambda>c. 0 \<le> c \<and> c < 65536) s"

text \<open>\<open>toWellFormed\<close>: what encoding and decoding makes of a text.\<close>

fun toWellFormed :: "ustring \<Rightarrow> ustring" where
  "toWellFormed [] = []"
| "toWellFormed [c] = [if is_high c \<or> is_low c then 65533 else c]"
| "toWellFormed (c # d # s) =
     (if is_high c \<and> is_low d then c # d # toWellFormed s
      else (if is_high c \<or> is_low c then 65533 else c) # toWellFormed (d # s))"

lemma is_continuation_iff:
  assumes "0 \<le> b" and "b < 256"
  shows "is_continuation b \<longleftrightarrow> 128 \<le> b \<and> b < 192"
proof -
  have "\<forall>b\<in>set [0..255]. is_continuation b \<longleftrightarrow> 128 \<le> b \<and> b < 192" by code_simp
  then show ?thesis using assms by simp
qed

lemma encode_bmp_shape:
  assumes "0 \<le> c" and "c < 65536"
  shows "\<exists>b bs. encode_bmp c = b # bs \<and> \<not> is_continuation b \<and> list_all is_continuation bs"
proof -
  have "c div 4096 < 16" "0 \<le> c div 4096" using assms by auto
  then show ?thesis
    using assms by (auto simp: encode_bmp_def is_continuation_iff)
qed

lemma encode_unit_shape:
  assumes "0 \<le> c" and "c < 65536"
  shows "\<exists>b bs. encode_unit c = b # bs \<and> \<not> is_continuation b \<and> list_all is_continuation bs"
  using encode_bmp_shape [of 65533] encode_bmp_shape [OF assms] by (simp add: encode_unit_def)

lemma pair_point:
  assumes "is_high c" and "is_low d"
  defines "p \<equiv> 65536 + (c - 55296) * 1024 + (d - 56320)"
  shows "0 \<le> p div 262144" "p div 262144 < 5" "(p - 65536) div 1024 = c - 55296" "(p - 65536) mod 1024 = d - 56320"
    "p div 262144 * 262144 + p div 4096 mod 64 * 4096 + p div 64 mod 64 * 64 + p mod 64 = p"
proof -
  have range: "0 \<le> p" "p < 1114112" using assms by (auto simp: p_def is_high_def is_low_def)
  show "0 \<le> p div 262144" "p div 262144 < 5" using range by auto
  have "p - 65536 = (c - 55296) * 1024 + (d - 56320)" by (simp add: p_def)
  moreover have "0 \<le> d - 56320" "d - 56320 < 1024" using assms(2) by (auto simp: is_low_def)
  ultimately show "(p - 65536) div 1024 = c - 55296" "(p - 65536) mod 1024 = d - 56320"
    by (simp_all only: div_mult_self3 mod_mult_self3) simp_all
  have "p div 4096 = p div 262144 * 64 + p div 4096 mod 64"
    using div_mult_mod_eq [of "p div 4096" 64] by (simp add: zdiv_zmult2_eq [symmetric])
  moreover have "p div 64 = p div 4096 * 64 + p div 64 mod 64"
    using div_mult_mod_eq [of "p div 64" 64] by (simp add: zdiv_zmult2_eq [symmetric])
  moreover have "p = p div 64 * 64 + p mod 64" by simp
  ultimately show "p div 262144 * 262144 + p div 4096 mod 64 * 4096 + p div 64 mod 64 * 64 + p mod 64 = p" by linarith
qed

lemma encode_pair_shape:
  assumes "is_high c" and "is_low d"
  shows "\<exists>b bs. encode_pair c d = b # bs \<and> \<not> is_continuation b \<and> list_all is_continuation bs"
proof -
  define p where "p = 65536 + (c - 55296) * 1024 + (d - 56320)"
  have "0 \<le> p div 262144" "p div 262144 < 5" using pair_point(1,2) [OF assms] by (simp_all add: p_def)
  then have "\<not> is_continuation (240 + p div 262144)" by (subst is_continuation_iff) auto
  then show ?thesis unfolding encode_pair_def p_def [symmetric] Let_def by (simp add: is_continuation_iff)
qed

lemma decode_encode_bmp:
  assumes "0 \<le> c" and "c < 65536"
  shows "decode_utf8 (encode_bmp c @ r) = c # decode_utf8 r"
proof -
  define x y z where "x = c div 4096" and "y = c div 64 mod 64" and "z = c mod 64"
  have "c div 64 = x * 64 + y"
    using div_mult_mod_eq [of "c div 64" 64] by (simp add: x_def y_def zdiv_zmult2_eq [symmetric])
  moreover have "c = c div 64 * 64 + z" by (simp add: z_def)
  ultimately have c: "x * 4096 + y * 64 + z = c" "c div 64 * 64 + z = c" by linarith+
  have x: "0 \<le> x" "x < 16" using assms by (auto simp: x_def)
  consider "c < 128" | "128 \<le> c" "c < 2048" | "2048 \<le> c" by linarith
  then show ?thesis
  proof cases
    case 2
    define q where "q = c div 64"
    have "2 \<le> q" "q < 32" using 2 by (auto simp: q_def)
    moreover have "encode_bmp c = [192 + q, 128 + z]" using 2 by (simp add: encode_bmp_def q_def z_def)
    moreover have "q * 64 + z = c" using c(2) by (simp add: q_def)
    ultimately show ?thesis by simp
  next
    case 3
    then have "encode_bmp c = [224 + x, 128 + y, 128 + z]" by (simp add: encode_bmp_def x_def y_def z_def)
    then show ?thesis using c(1) x by simp
  qed (simp add: encode_bmp_def)
qed

lemma decode_encode_pair:
  assumes "is_high c" and "is_low d"
  shows "decode_utf8 (encode_pair c d @ r) = c # d # decode_utf8 r"
proof -
  define p where "p = 65536 + (c - 55296) * 1024 + (d - 56320)"
  define w x y z where "w = p div 262144" and "x = p div 4096 mod 64" and "y = p div 64 mod 64" and "z = p mod 64"
  have p: "0 \<le> w" "w < 5" "(p - 65536) div 1024 = c - 55296" "(p - 65536) mod 1024 = d - 56320"
    "w * 262144 + x * 4096 + y * 64 + z - 65536 = p - 65536"
    using pair_point [OF assms, folded p_def, folded w_def x_def y_def z_def] by simp_all
  have "encode_pair c d = [240 + w, 128 + x, 128 + y, 128 + z]"
    unfolding encode_pair_def p_def [symmetric] Let_def w_def x_def y_def z_def ..
  then have "decode_utf8 (encode_pair c d @ r) =
      (let q = w * 262144 + x * 4096 + y * 64 + z - 65536 in (55296 + q div 1024) # (56320 + q mod 1024) # decode_utf8 r)"
    using p(1,2) by (simp add: add.assoc)
  also have "\<dots> = c # d # decode_utf8 r" unfolding p(5) Let_def p(3,4) by simp
  finally show ?thesis .
qed

lemma decode_encode_unit:
  assumes "0 \<le> c" and "c < 65536"
  shows "decode_utf8 (encode_unit c @ r) = (if is_high c \<or> is_low c then 65533 else c) # decode_utf8 r"
  using assms by (simp add: encode_unit_def decode_encode_bmp)

lemma decode_utf8_utf8: "code_units s \<Longrightarrow> decode_utf8 (utf8 s) = toWellFormed s"
proof (induction s rule: utf8.induct)
  case (2 c)
  then show ?case using decode_encode_unit [of c "[]"] by (simp add: code_units_def)
next
  case (3 c d s)
  then show ?case using decode_encode_unit [of c] by (simp add: code_units_def decode_encode_pair)
qed simp

lemma utf8_not_high: "\<not> is_high c \<Longrightarrow> utf8 (c # s) = encode_unit c @ utf8 s"
  by (cases s) simp_all

lemma utf8_toWellFormed: "utf8 (toWellFormed s) = utf8 s"
proof (induction s rule: utf8.induct)
  case (3 c d s)
  have "utf8 ((if is_high c \<or> is_low c then 65533 else c) # t) = encode_unit c @ utf8 t" for t
    by (subst utf8_not_high) (simp_all add: encode_unit_def is_high_def is_low_def)
  then show ?case using 3 by (simp del: utf8.simps(3)) (simp add: is_high_def is_low_def)
qed (simp_all add: encode_unit_def is_high_def is_low_def)

text \<open>Skipping continuation bytes leads to the encoding of a suffix of the text.\<close>

lemma skip_to_character:
  assumes "code_units s"
  shows "\<exists>t. suffix t s \<and> dropWhile is_continuation (drop k (utf8 s)) = utf8 t"
  using assms
proof (induction s arbitrary: k rule: utf8.induct)
  case 1
  then show ?case by (intro exI [of _ "[]"]) simp
next
  have step: "\<exists>t. suffix t (x @ s) \<and> dropWhile is_continuation (drop k (e @ utf8 s)) = utf8 t"
    if "e = b # bs" "\<not> is_continuation b" "list_all is_continuation bs" "utf8 (x @ s) = e @ utf8 s"
      and IH: "\<And>k. \<exists>t. suffix t s \<and> dropWhile is_continuation (drop k (utf8 s)) = utf8 t"
    for e b bs x s and k :: nat
  proof (cases k)
    case 0
    then show ?thesis using that(1,2,4) by (intro exI [of _ "x @ s"]) simp
  next
    case (Suc j)
    have "dropWhile is_continuation (drop j bs @ r) = dropWhile is_continuation r" for r
      using that(3) by (intro dropWhile_append2) (auto simp: list_all_iff dest: in_set_dropD)
    then have "dropWhile is_continuation (drop k (e @ utf8 s)) = dropWhile is_continuation (drop (j - length bs) (utf8 s))"
      using Suc that(1) by simp
    then show ?thesis using IH [of "j - length bs"] by (metis suffix_appendI)
  qed
  {
    case (2 c)
    then obtain b bs where "encode_unit c = b # bs" "\<not> is_continuation b" "list_all is_continuation bs"
      using encode_unit_shape [of c] by (auto simp: code_units_def)
    from step [OF this, of "[c]" "[]"] show ?case by (metis append_Nil2 drop_Nil dropWhile.simps(1) suffix_order.refl utf8.simps(1,2))
  next
    case (3 c d s)
    show ?case
    proof (cases "is_high c \<and> is_low d")
      case True
      then obtain b bs where "encode_pair c d = b # bs" "\<not> is_continuation b" "list_all is_continuation bs"
        using encode_pair_shape by blast
      from step [OF this, of "[c, d]" s] show ?thesis using 3 True by (simp add: code_units_def)
    next
      case False
      obtain b bs where "encode_unit c = b # bs" "\<not> is_continuation b" "list_all is_continuation bs"
        using 3(3) encode_unit_shape [of c] by (auto simp: code_units_def)
      from step [OF this, of "[c]" "d # s"] show ?thesis using 3 False by (auto simp: code_units_def)
    qed
  }
qed


lemma cut_line_fits: "code_units s \<Longrightarrow> byteLength (truncateStringToBytesFromEnd s n) \<le> n"
proof (cases "byteLength s \<le> n")
  case False
  assume units: "code_units s"
  let ?buf = "utf8 s"
  let ?rest = "dropWhile is_continuation (drop (length ?buf - n) ?buf)"
  obtain t where t: "suffix t s" "?rest = utf8 t" using skip_to_character [OF units] by blast
  have "code_units t" using units t(1) by (auto simp: code_units_def list_all_iff dest: set_mono_suffix)
  then have "utf8 (decode_utf8 ?rest) = ?rest" using t(2) by (simp add: decode_utf8_utf8 utf8_toWellFormed)
  moreover have "length ?rest \<le> length (drop (length ?buf - n) ?buf)" by (rule length_dropWhile_le)
  ultimately show ?thesis using False by (simp add: truncateStringToBytesFromEnd_def byteLength_def Let_def)
qed (simp add: truncateStringToBytesFromEnd_def byteLength_def)

lemma cut_line_suffix:
  assumes "code_units s"
  shows "\<exists>t. suffix t s \<and> truncateStringToBytesFromEnd s n \<in> {t, toWellFormed t}"
proof (cases "byteLength s \<le> n")
  case True
  then have "truncateStringToBytesFromEnd s n = s" by (simp add: truncateStringToBytesFromEnd_def byteLength_def)
  then show ?thesis by (intro exI [of _ s]) simp
next
  case False
  let ?buf = "utf8 s"
  obtain t where t: "suffix t s" "dropWhile is_continuation (drop (length ?buf - n) ?buf) = utf8 t"
    using skip_to_character [OF assms] by blast
  have "code_units t" using assms t(1) by (auto simp: code_units_def list_all_iff dest: set_mono_suffix)
  then have "truncateStringToBytesFromEnd s n = toWellFormed t"
    using False t(2) by (simp add: truncateStringToBytesFromEnd_def byteLength_def decode_utf8_utf8)
  then show ?thesis using t(1) by blast
qed

section \<open>What truncation keeps\<close>

lemma splitLines_prefix: "\<exists>rest. content = unlines (splitLinesForCounting content) @ rest"
proof (cases "content = []")
  case False
  show ?thesis
  proof (cases "last content = LF")
    case True
    then obtain front where "content = front @ [LF]" using False by (metis append_butlast_last_id)
    moreover have "split_on LF (front @ [LF]) = split_on LF front @ [[]]" by (induction front) (auto split: list.splits)
    ultimately show ?thesis using join_split [of LF front] by (simp add: splitLinesForCounting_def)
  qed (use False join_split [of LF content] in \<open>auto simp: splitLinesForCounting_def intro!: exI [of _ "[]"]\<close>)
qed (simp add: splitLinesForCounting_def)

lemma splitLines_empty: "splitLinesForCounting content = [] \<Longrightarrow> content = []"
proof -
  assume none: "splitLinesForCounting content = []"
  show "content = []"
  proof (rule ccontr)
    assume ne: "content \<noteq> []"
    then obtain front where "last content = LF \<Longrightarrow> content = front @ [LF]" by (metis append_butlast_last_id)
    moreover have "split_on LF (front @ [LF]) = split_on LF front @ [[]]" by (induction front) (auto split: list.splits)
    ultimately show False using none ne by (auto simp: splitLinesForCounting_def Let_def split: if_splits)
  qed
qed

lemma truncated_to_simps [simp]:
  "tc_content (truncated_to content options out b partial) = unlines out"
  "tc_outputLines (truncated_to content options out b partial) = length out"
  "tc_outputBytes (truncated_to content options out b partial) = lines_size out"
  "tc_lastLinePartial (truncated_to content options out b partial) = partial"
  by (simp_all add: truncated_to_def lines_size_def Let_def)

lemma untruncated_simps [simp]:
  "tc_content (untruncated content options) = content"
  "tc_outputLines (untruncated content options) = length (splitLinesForCounting content)"
  "tc_outputBytes (untruncated content options) = byteLength content"
  "\<not> tc_lastLinePartial (untruncated content options)"
  by (simp_all add: untruncated_def Let_def)

lemma truncateHead_lines:
  fixes content :: ustring and options :: truncation_options
  defines "r \<equiv> truncateHead content options" and "lines \<equiv> splitLinesForCounting content"
  shows "tc_outputLines r \<le> max_lines options \<and> tc_outputBytes r \<le> max_bytes options \<and>
    tc_outputBytes r = byteLength (tc_content r) \<and> (\<exists>rest. content = tc_content r @ rest) \<and>
    (tc_content r = content \<or>
     tc_content r = unlines (take (tc_outputLines r) lines) \<and>
     (tc_outputLines r = length lines \<or> tc_outputLines r = max_lines options \<or>
      byteLength (unlines (take (tc_outputLines r + 1) lines)) > max_bytes options))"
proof (cases "length lines \<le> max_lines options \<and> byteLength content \<le> max_bytes options")
  case True
  then have "r = untruncated content options" by (simp add: r_def truncateHead_def lines_def Let_def)
  then show ?thesis using True by (simp add: lines_def)
next
  case False
  have ne: "lines \<noteq> []"
  proof
    assume "lines = []"
    moreover from this have "byteLength content = 0" using splitLines_empty [of content] by (simp add: lines_def)
    ultimately show False using False by simp
  qed
  show ?thesis
  proof (cases "byteLength (hd lines) > max_bytes options")
    case True
    have "r = \<lparr>tc_content = [], tc_truncated = True, tc_truncatedBy = Some ByBytes, tc_totalLines = length lines,
        tc_totalBytes = byteLength content, tc_outputLines = 0, tc_outputBytes = 0, tc_lastLinePartial = False,
        tc_firstLineExceedsLimit = True, tc_maxLines = max_lines options, tc_maxBytes = max_bytes options\<rparr>"
      unfolding r_def truncateHead_def Let_def lines_def [symmetric] by (simp only: False True if_False if_True)
    then show ?thesis using True ne by (cases lines) simp_all
  next
    case fits: False
    obtain out bytes "by" where loop: "head_loop (max_lines options) (max_bytes options) lines [] 0 = (out, bytes, by)"
      by (metis prod_cases3)
    then have "\<exists>k\<le>length lines. out = [] @ take k lines \<and> bytes = lines_size out \<and> length out \<le> max_lines options \<and>
        bytes \<le> max_bytes options \<and>
        (k = length lines \<or> length out = max_lines options \<or> lines_size ([] @ take (Suc k) lines) > max_bytes options)"
      by (intro head_loop_takes) simp_all
    then obtain k where k: "k \<le> length lines" "out = take k lines" "bytes = lines_size out"
        "length out \<le> max_lines options" "bytes \<le> max_bytes options"
        "k = length lines \<or> length out = max_lines options \<or> lines_size (take (Suc k) lines) > max_bytes options"
      unfolding append_Nil by blast
    have "\<exists>b. r = truncated_to content options out b False"
      unfolding r_def truncateHead_def Let_def lines_def [symmetric]
      by (simp only: False fits loop if_False prod.case) blast
    then obtain b where r: "r = truncated_to content options out b False" by blast
    have out: "length out = k" using k(1,2) by simp
    have "\<exists>rest. content = unlines out @ rest"
      using splitLines_prefix [of content] unlines_take_prefix [of lines k] k(2) unfolding lines_def [symmetric]
      by (metis append.assoc)
    then show ?thesis using k unfolding r truncated_to_simps lines_size_def [symmetric] out Suc_eq_plus1 by simp
  qed
qed

text \<open>
  \<open>truncateHead\<close> returns the text unchanged or its first lines, whole ones only, with at
  most the allowed number of lines and bytes; it reports the sizes of what it returns, and stops only
  where the lines end, the limit of lines is reached or one more line would pass the limit of bytes.
\<close>

theorem truncateHead_keeps_first_lines:
  "let r = truncateHead content options; lines = splitLinesForCounting content in
    tc_outputLines r \<le> max_lines options \<and> tc_outputBytes r \<le> max_bytes options \<and>
    tc_outputBytes r = byteLength (tc_content r) \<and> (\<exists>rest. content = tc_content r @ rest) \<and>
    (tc_content r = content \<or>
     tc_content r = unlines (take (tc_outputLines r) lines) \<and>
     (tc_outputLines r = length lines \<or> tc_outputLines r = max_lines options \<or>
      byteLength (unlines (take (tc_outputLines r + 1) lines)) > max_bytes options))"
  unfolding Let_def by (rule truncateHead_lines)

lemma truncateTail_lines:
  fixes content :: ustring and options :: truncation_options
  defines "r \<equiv> truncateTail content options" and "lines \<equiv> splitLinesForCounting content"
  assumes "code_units content"
  shows "tc_outputLines r \<le> max_lines options \<and> tc_outputBytes r \<le> max_bytes options \<and>
    tc_outputBytes r = byteLength (tc_content r) \<and>
    (tc_content r = content \<or>
     (\<exists>k. k + tc_outputLines r = length lines \<and> tc_content r = unlines (drop k lines) \<and>
        (k = 0 \<or> tc_outputLines r = max_lines options \<or> byteLength (unlines (drop (k - 1) lines)) > max_bytes options)) \<or>
     tc_lastLinePartial r \<and> tc_outputLines r = 1 \<and> byteLength (last lines) > max_bytes options \<and>
     (\<exists>t. suffix t (last lines) \<and> tc_content r \<in> {t, toWellFormed t}))"
proof (cases "length lines \<le> max_lines options \<and> byteLength content \<le> max_bytes options")
  case True
  then have "r = untruncated content options" by (simp add: r_def truncateTail_def lines_def Let_def)
  then show ?thesis using True by (simp add: lines_def)
next
  case False
  obtain out bytes b partial where
    loop: "tail_loop (max_lines options) (max_bytes options) (rev lines) [] 0 = (out, bytes, b, partial)"
    by (metis prod_cases4)
  have "\<exists>c. r = truncated_to content options out c partial"
    unfolding r_def truncateTail_def Let_def lines_def [symmetric]
    by (simp only: False loop if_False prod.case) blast
  then obtain c where r: "r = truncated_to content options out c partial" by blast
  have "(\<exists>k\<le>length lines. out = drop k lines @ [] \<and> \<not> partial \<and> length out \<le> max_lines options \<and>
        lines_size out \<le> max_bytes options \<and>
        (k = 0 \<or> length out = max_lines options \<or> lines_size (drop (k - 1) lines @ []) > max_bytes options)) \<or>
      partial \<and> [] = ([] :: ustring list) \<and> lines \<noteq> [] \<and> 0 < max_lines options \<and>
        byteLength (last lines) > max_bytes options \<and>
        out = [truncateStringToBytesFromEnd (last lines) (max_bytes options)]"
    using loop by (intro tail_loop_takes) simp_all
  then show ?thesis
  proof (rule disjE)
    assume "\<exists>k\<le>length lines. out = drop k lines @ [] \<and> \<not> partial \<and> length out \<le> max_lines options \<and>
        lines_size out \<le> max_bytes options \<and>
        (k = 0 \<or> length out = max_lines options \<or> lines_size (drop (k - 1) lines @ []) > max_bytes options)"
    then obtain k where k: "k \<le> length lines" "out = drop k lines" "length out \<le> max_lines options"
        "lines_size out \<le> max_bytes options"
        "k = 0 \<or> length out = max_lines options \<or> lines_size (drop (k - 1) lines) > max_bytes options"
      unfolding append_Nil2 by (elim exE conjE) (rule that)
    then have "k + length out = length lines" by simp
    then show ?thesis using k unfolding r truncated_to_simps lines_size_def [symmetric] by blast
  next
    assume "partial \<and> [] = ([] :: ustring list) \<and> lines \<noteq> [] \<and> 0 < max_lines options \<and>
        byteLength (last lines) > max_bytes options \<and>
        out = [truncateStringToBytesFromEnd (last lines) (max_bytes options)]"
    then have cut: "partial" "lines \<noteq> []" "0 < max_lines options" "byteLength (last lines) > max_bytes options"
      "out = [truncateStringToBytesFromEnd (last lines) (max_bytes options)]"
      by simp_all
    obtain rest where "content = unlines lines @ rest" using splitLines_prefix [of content] by (auto simp: lines_def)
    moreover have "drop (length lines - 1) lines = [last lines]"
      using cut(2) by (metis append_butlast_last_id append_eq_conv_conj length_butlast)
    then obtain front where "unlines lines = front @ last lines"
      using unlines_drop_suffix [of lines "length lines - 1"] by auto
    ultimately have "code_units (last lines)" using assms(3) by (simp add: code_units_def)
    from cut_line_fits [OF this] cut_line_suffix [OF this] show ?thesis
      using cut unfolding r truncated_to_simps by (simp add: lines_size_def)
  qed
qed

text \<open>
  C33: \<open>truncateTail\<close> returns the text unchanged, its last lines, or, when the last line alone is
  too long, an end of that line cut between two characters. What it returns has at most the allowed
  number of lines and bytes, and whole lines are left out only for one of the limits.
\<close>

theorem truncateTail_keeps_last_lines:
  assumes "code_units content"
  shows "let r = truncateTail content options; lines = splitLinesForCounting content in
    tc_outputLines r \<le> max_lines options \<and> tc_outputBytes r \<le> max_bytes options \<and>
    tc_outputBytes r = byteLength (tc_content r) \<and>
    (tc_content r = content \<or>
     (\<exists>k. k + tc_outputLines r = length lines \<and> tc_content r = unlines (drop k lines) \<and>
        (k = 0 \<or> tc_outputLines r = max_lines options \<or> byteLength (unlines (drop (k - 1) lines)) > max_bytes options)) \<or>
     tc_lastLinePartial r \<and> tc_outputLines r = 1 \<and> byteLength (last lines) > max_bytes options \<and>
     (\<exists>t. suffix t (last lines) \<and> tc_content r \<in> {t, toWellFormed t}))"
  unfolding Let_def by (rule truncateTail_lines [OF assms])


section \<open>Examples\<close>

definition demo_limits :: truncation_options where
  "demo_limits = \<lparr>to_maxLines = Some 9, to_maxBytes = Some 4\<rparr>"

definition demo_text :: ustring where
  "demo_text = [97, 98, LF, 8364, 8364]"

lemma demo_truncated:
  "code_units demo_text" "tc_content (truncateTail demo_text demo_limits) = [8364]"
  "max_bytes demo_limits = 4" "\<not> tc_content (truncateTail demo_text demo_limits) = demo_text"
  by code_simp+

theorem truncateTail_keeps_last_lines_witness:
  "tc_content (truncateTail demo_text demo_limits) = [8364] \<and> byteLength [8364] \<le> 4 \<and>
   tc_outputBytes (truncateTail demo_text demo_limits) = byteLength [8364]"
  using truncateTail_keeps_last_lines [OF demo_truncated(1), of demo_limits] demo_truncated(2,3)
  unfolding Let_def by simp

text \<open>
  A text that passes the limit of bytes only through its final line break is reported as truncated
  by lines, although far fewer lines than allowed were there.
\<close>

lemma final_break_reported_as_lines:
  "tc_truncatedBy (truncateHead (ucs ''abcd'' @ [LF]) demo_limits) = Some ByLines"
  "tc_totalLines (truncateHead (ucs ''abcd'' @ [LF]) demo_limits) = 1"
  "max_lines demo_limits = 9"
  by code_simp+

end
