(* ===== verification/OutputBuffer.thy ===== *)
theory OutputBuffer
  imports Truncate
begin

text \<open>
  The rolling buffer of tool output (\<open>packages/coding-agent/src/core/tools/output-accumulator.ts\<close>):
  bytes arrive in chunks, are decoded as they come, and only a tail of the text is kept in memory; a
  snapshot shows the last lines as \<open>truncateTail\<close> would show them of the whole output. The full
  output goes to a temporary file once it is too large.

  \<open>TextDecoder\<close> is modelled by the UTF-8 decoder of the Encoding standard: a partial character is
  kept between chunks, and a malformed one becomes the replacement character.
\<close>

section \<open>The streaming decoder\<close>

record decoder =
  dc_point :: int
  dc_needed :: nat
  dc_lower :: int
  dc_upper :: int
  dc_started :: bool

definition idle_decoder :: "bool \<Rightarrow> decoder" where
  "idle_decoder started = \<lparr>dc_point = 0, dc_needed = 0, dc_lower = 128, dc_upper = 191, dc_started = started\<rparr>"

definition first_byte :: "int \<Rightarrow> bool \<Rightarrow> int list \<times> decoder" where
  "first_byte b started =
     (let idle = idle_decoder started in
      if b < 128 then ([b], idle)
      else if 194 \<le> b \<and> b \<le> 223 then ([], idle\<lparr>dc_needed := 1, dc_point := b - 192\<rparr>)
      else if 224 \<le> b \<and> b \<le> 239 then
        ([], idle\<lparr>dc_needed := 2, dc_point := b - 224, dc_lower := (if b = 224 then 160 else 128),
               dc_upper := (if b = 237 then 159 else 191)\<rparr>)
      else if 240 \<le> b \<and> b \<le> 244 then
        ([], idle\<lparr>dc_needed := 3, dc_point := b - 240, dc_lower := (if b = 240 then 144 else 128),
               dc_upper := (if b = 244 then 143 else 191)\<rparr>)
      else ([65533], idle))"

definition decode_byte :: "int \<Rightarrow> decoder \<Rightarrow> int list \<times> decoder" where
  "decode_byte b dc =
     (if dc_needed dc = 0 then first_byte b (dc_started dc)
      else if b < dc_lower dc \<or> dc_upper dc < b then apfst ((#) 65533) (first_byte b (dc_started dc))
      else
        let p = dc_point dc * 64 + (b - 128)
        in if dc_needed dc = 1 then ([p], idle_decoder (dc_started dc))
           else ([], (idle_decoder (dc_started dc))\<lparr>dc_point := p, dc_needed := dc_needed dc - 1\<rparr>))"

fun decode_bytes :: "int list \<Rightarrow> decoder \<Rightarrow> int list \<times> decoder" where
  "decode_bytes [] dc = ([], dc)"
| "decode_bytes (b # bs) dc =
     (let (ps, dc') = decode_byte b dc; (qs, dc'') = decode_bytes bs dc' in (ps @ qs, dc''))"

definition units_of :: "int \<Rightarrow> ustring" where
  "units_of p = (if p < 65536 then [p] else [55296 + (p - 65536) div 1024, 56320 + (p - 65536) mod 1024])"

text \<open>A byte order mark at the start of the stream is dropped.\<close>

definition decode_stream :: "int list \<Rightarrow> decoder \<Rightarrow> ustring \<times> decoder" where
  "decode_stream data dc =
     (let (ps, dc') = decode_bytes data dc
      in if ps = [] then ([], dc')
         else (concat (map units_of (if \<not> dc_started dc \<and> hd ps = 65279 then tl ps else ps)), dc'\<lparr>dc_started := True\<rparr>))"

definition decode_end :: "decoder \<Rightarrow> ustring \<times> decoder" where
  "decode_end dc = (if dc_needed dc = 0 then [] else [65533], idle_decoder False)"

section \<open>The accumulator\<close>

record accumulator =
  oa_maxLines :: nat
  oa_maxBytes :: nat
  oa_maxRollingBytes :: nat
  oa_decoder :: decoder
  oa_rawChunks :: "int list list"
  oa_tailText :: ustring
  oa_tailBytes :: nat
  oa_tailStartsAtLineBoundary :: bool
  oa_totalRawBytes :: nat
  oa_totalDecodedBytes :: nat
  oa_completedLines :: nat
  oa_totalLines :: nat
  oa_currentLineBytes :: nat
  oa_hasOpenLine :: bool
  oa_finished :: bool
  oa_tempFilePath :: "ustring option"
  oa_tempFileOpen :: bool
  oa_tempFile :: "int list"

text \<open>
  \<open>oa_tempFileOpen\<close> says whether \<open>tempFileStream\<close> is set, and \<open>oa_tempFile\<close> is what has been
  written to it. An operation that may open the file takes the path \<open>defaultTempFilePath\<close> draws.
\<close>

definition new_accumulator :: "truncation_options \<Rightarrow> accumulator" where
  "new_accumulator options =
     \<lparr>oa_maxLines = max_lines options, oa_maxBytes = max_bytes options,
      oa_maxRollingBytes = max (max_bytes options * 2) 1, oa_decoder = idle_decoder False, oa_rawChunks = [],
      oa_tailText = [], oa_tailBytes = 0, oa_tailStartsAtLineBoundary = True, oa_totalRawBytes = 0,
      oa_totalDecodedBytes = 0, oa_completedLines = 0, oa_totalLines = 0, oa_currentLineBytes = 0,
      oa_hasOpenLine = False, oa_finished = False, oa_tempFilePath = None, oa_tempFileOpen = False, oa_tempFile = []\<rparr>"

definition trimTail :: "accumulator \<Rightarrow> accumulator" where
  "trimTail s =
     (let buffer = utf8 (oa_tailText s)
      in if length buffer \<le> oa_maxRollingBytes s then s\<lparr>oa_tailBytes := length buffer\<rparr>
         else
           let start0 = length buffer - oa_maxRollingBytes s;
               rest = dropWhile is_continuation (drop start0 buffer);
               start = length buffer - length rest;
               boundary = (if start = 0 then oa_tailStartsAtLineBoundary s else buffer ! (start - 1) = 10);
               tail = decode_utf8 rest
           in s\<lparr>oa_tailStartsAtLineBoundary := boundary, oa_tailText := tail, oa_tailBytes := byteLength tail\<rparr>)"

definition count_lines :: "ustring \<Rightarrow> nat \<Rightarrow> accumulator \<Rightarrow> accumulator" where
  "count_lines s bytes a =
     (let newlines = count_list s LF;
          a = (if newlines = 0
               then a\<lparr>oa_currentLineBytes := oa_currentLineBytes a + bytes, oa_hasOpenLine := True\<rparr>
               else let tail = last (lines_of s)
                    in a\<lparr>oa_completedLines := oa_completedLines a + newlines,
                         oa_currentLineBytes := byteLength tail, oa_hasOpenLine := (length tail > 0)\<rparr>)
      in a\<lparr>oa_totalLines := oa_completedLines a + (if oa_hasOpenLine a then 1 else 0)\<rparr>)"

definition appendDecodedText :: "ustring \<Rightarrow> accumulator \<Rightarrow> accumulator" where
  "appendDecodedText s a =
     (if length s = 0 then a
      else
        let bytes = byteLength s;
            a = a\<lparr>oa_totalDecodedBytes := oa_totalDecodedBytes a + bytes, oa_tailText := oa_tailText a @ s,
                  oa_tailBytes := oa_tailBytes a + bytes\<rparr>;
            a = (if oa_tailBytes a > oa_maxRollingBytes a * 2 then trimTail a else a)
        in count_lines s bytes a)"

definition shouldUseTempFile :: "accumulator \<Rightarrow> bool" where
  "shouldUseTempFile a =
     (oa_totalRawBytes a > oa_maxBytes a \<or> oa_totalDecodedBytes a > oa_maxBytes a \<or> oa_totalLines a > oa_maxLines a)"

definition ensureTempFile :: "ustring \<Rightarrow> accumulator \<Rightarrow> accumulator" where
  "ensureTempFile path a =
     (if oa_tempFilePath a \<noteq> None then a
      else a\<lparr>oa_tempFilePath := Some path, oa_tempFileOpen := True,
             oa_tempFile := oa_tempFile a @ concat (oa_rawChunks a), oa_rawChunks := []\<rparr>)"

definition append_error :: ustring where
  "append_error = ucs ''Cannot append to a finished output accumulator''"

definition append_output :: "ustring \<Rightarrow> int list \<Rightarrow> accumulator \<Rightarrow> (ustring + unit) \<times> accumulator" where
  "append_output path data a =
     (if oa_finished a then (Inl append_error, a)
      else
        let a = a\<lparr>oa_totalRawBytes := oa_totalRawBytes a + length data\<rparr>;
            (s, dc) = decode_stream data (oa_decoder a);
            a = appendDecodedText s (a\<lparr>oa_decoder := dc\<rparr>)
        in (Inr (),
            if oa_tempFileOpen a \<or> shouldUseTempFile a then
              (let a = ensureTempFile path a
               in if oa_tempFileOpen a then a\<lparr>oa_tempFile := oa_tempFile a @ data\<rparr> else a)
            else if length data > 0 then a\<lparr>oa_rawChunks := oa_rawChunks a @ [data]\<rparr>
            else a))"

definition finish_output :: "ustring \<Rightarrow> accumulator \<Rightarrow> accumulator" where
  "finish_output path a =
     (if oa_finished a then a
      else
        let (s, dc) = decode_end (oa_decoder a);
            a = appendDecodedText s (a\<lparr>oa_finished := True, oa_decoder := dc\<rparr>)
        in if shouldUseTempFile a then ensureTempFile path a else a)"

definition getSnapshotText :: "accumulator \<Rightarrow> ustring" where
  "getSnapshotText a =
     (if oa_tailStartsAtLineBoundary a then oa_tailText a
      else case index_of [LF] (oa_tailText a) of
             None \<Rightarrow> oa_tailText a
           | Some firstNewline \<Rightarrow> drop (firstNewline + 1) (oa_tailText a))"

record snapshot_result =
  os_content :: ustring
  os_truncation :: truncation_result
  os_fullOutputPath :: "ustring option"

definition snapshot_truncation :: "accumulator \<Rightarrow> truncation_result" where
  "snapshot_truncation a =
     (let tailTruncation = truncateTail (getSnapshotText a)
            \<lparr>to_maxLines = Some (oa_maxLines a), to_maxBytes = Some (oa_maxBytes a)\<rparr>;
          truncated = (oa_totalLines a > oa_maxLines a \<or> oa_totalDecodedBytes a > oa_maxBytes a);
          truncatedBy =
            (if truncated
             then Some (case tc_truncatedBy tailTruncation of
                          Some b \<Rightarrow> b
                        | None \<Rightarrow> (if oa_totalDecodedBytes a > oa_maxBytes a then ByBytes else ByLines))
             else None)
      in tailTruncation\<lparr>tc_truncated := truncated, tc_truncatedBy := truncatedBy, tc_totalLines := oa_totalLines a,
           tc_totalBytes := oa_totalDecodedBytes a, tc_maxLines := oa_maxLines a, tc_maxBytes := oa_maxBytes a\<rparr>)"

definition output_snapshot :: "bool \<Rightarrow> ustring \<Rightarrow> accumulator \<Rightarrow> snapshot_result \<times> accumulator" where
  "output_snapshot persistIfTruncated path a =
     (let truncation = snapshot_truncation a;
          a = (if persistIfTruncated \<and> tc_truncated truncation then ensureTempFile path a else a)
      in (\<lparr>os_content = tc_content truncation, os_truncation = truncation, os_fullOutputPath = oa_tempFilePath a\<rparr>, a))"

definition closeTempFile :: "accumulator \<Rightarrow> accumulator" where
  "closeTempFile a = (if \<not> oa_tempFileOpen a then a else a\<lparr>oa_tempFileOpen := False\<rparr>)"

definition getLastLineBytes :: "accumulator \<Rightarrow> nat" where
  "getLastLineBytes a = oa_currentLineBytes a"


section \<open>Texts of code points\<close>

definition is_scalar :: "int \<Rightarrow> bool" where
  "is_scalar p = (0 \<le> p \<and> p < 1114112 \<and> \<not> (55296 \<le> p \<and> p \<le> 57343))"

abbreviation scalars :: "int list \<Rightarrow> bool" where
  "scalars ps \<equiv> list_all is_scalar ps"

definition text_of :: "int list \<Rightarrow> ustring" where
  "text_of ps = concat (map units_of ps)"

lemma text_of_simps [simp]:
  "text_of [] = []" "text_of (p # ps) = units_of p @ text_of ps" "text_of (ps @ qs) = text_of ps @ text_of qs"
  by (simp_all add: text_of_def)

lemma units_of_not_Nil [simp]: "units_of p \<noteq> []"
  by (simp add: units_of_def)

lemma text_of_eq_Nil [simp]: "text_of ps = [] \<longleftrightarrow> ps = []"
  by (cases ps) auto

lemma units_of_pair:
  assumes "is_scalar p" and "\<not> p < 65536"
  shows "\<exists>c d. units_of p = [c, d] \<and> is_high c \<and> is_low d"
proof -
  have "0 \<le> (p - 65536) div 1024" "(p - 65536) div 1024 < 1024" using assms by (auto simp: is_scalar_def)
  then show ?thesis using assms(2) by (simp add: units_of_def is_high_def is_low_def)
qed

lemma units_of_single: "is_scalar p \<Longrightarrow> p < 65536 \<Longrightarrow> units_of p = [p] \<and> \<not> is_high p \<and> \<not> is_low p \<and> 0 \<le> p"
  by (auto simp: units_of_def is_scalar_def is_high_def is_low_def)

lemma utf8_point: "is_scalar p \<Longrightarrow> utf8 (units_of p @ s) = utf8 (units_of p) @ utf8 s"
proof (cases "p < 65536")
  case True
  assume "is_scalar p"
  then show ?thesis using units_of_single True by (simp add: utf8_not_high [of p s])
next
  case False
  assume "is_scalar p"
  then show ?thesis using units_of_pair False by fastforce
qed

lemma utf8_text_append: "scalars ps \<Longrightarrow> utf8 (text_of ps @ s) = utf8 (text_of ps) @ utf8 s"
proof (induction ps)
  case (Cons p ps)
  then show ?case
    using utf8_point [of p "text_of ps @ s"] utf8_point [of p "text_of ps"] by simp
qed simp

lemma byteLength_text_append: "scalars ps \<Longrightarrow> byteLength (text_of ps @ s) = byteLength (text_of ps) + byteLength s"
  by (simp add: byteLength_def utf8_text_append)

lemma point_bytes:
  assumes "is_scalar p"
  shows "\<exists>b bs. utf8 (units_of p) = b # bs \<and> \<not> is_continuation b \<and> list_all is_continuation bs \<and> length bs \<le> 3 \<and>
    (last (b # bs) = 10 \<longrightarrow> p = 10)"
proof -
  have ten: "\<not> is_continuation 10" by code_simp
  have tail: "last (b # bs) \<noteq> 10" if "list_all is_continuation bs" "bs \<noteq> []" for b bs
    using that ten by (metis last.simps last_in_set list_all_iff)
  show ?thesis
  proof (cases "p < 65536")
    case True
    then have p: "units_of p = [p]" "\<not> is_high p" "\<not> is_low p" "0 \<le> p" using units_of_single assms by auto
    then have e: "utf8 (units_of p) = encode_bmp p" by (simp add: encode_unit_def)
    obtain b bs where shape: "encode_bmp p = b # bs" "\<not> is_continuation b" "list_all is_continuation bs"
      using encode_bmp_shape [OF p(4) True] by blast
    have "length bs \<le> 3 \<and> (bs = [] \<longrightarrow> b = p)" using shape(1) by (auto simp: encode_bmp_def split: if_splits)
    then show ?thesis using e shape tail [OF shape(3)] by (cases "bs = []") auto
  next
    case False
    then obtain c d where cd: "units_of p = [c, d]" "is_high c" "is_low d" using units_of_pair assms by blast
    then have e: "utf8 (units_of p) = encode_pair c d" by simp
    obtain b bs where shape: "encode_pair c d = b # bs" "\<not> is_continuation b" "list_all is_continuation bs"
      using encode_pair_shape [OF cd(2,3)] by blast
    have "length bs = 3" using shape(1) by (auto simp: encode_pair_def Let_def)
    then show ?thesis using e shape tail [OF shape(3), of b] by (intro exI [of _ b] exI [of _ bs]) auto
  qed
qed

lemma text_of_units:
  assumes "scalars ps"
  shows "code_units (text_of ps)" and "toWellFormed (text_of ps) = text_of ps"
proof -
  have point: "code_units (units_of p)" "toWellFormed (units_of p @ s) = units_of p @ toWellFormed s" if "is_scalar p" for p s
  proof -
    show "code_units (units_of p)"
      using that units_of_single units_of_pair by (cases "p < 65536") (fastforce simp: code_units_def is_high_def is_low_def)+
    show "toWellFormed (units_of p @ s) = units_of p @ toWellFormed s"
    proof (cases "p < 65536")
      case True
      then show ?thesis using units_of_single [OF that] by (cases s) auto
    next
      case False
      then show ?thesis using units_of_pair [OF that] by fastforce
    qed
  qed
  show "code_units (text_of ps)" using assms point(1) by (induction ps) (auto simp: code_units_def)
  show "toWellFormed (text_of ps) = text_of ps" using assms point(2) by (induction ps) auto
qed

text \<open>Cutting the encoding of a text and skipping to the next character drops whole characters.\<close>

lemma skip_to_point:
  assumes "scalars ps"
  shows "\<exists>j\<le>length ps. dropWhile is_continuation (drop k (utf8 (text_of ps))) = utf8 (text_of (drop j ps)) \<and>
    byteLength (text_of ps) \<le> byteLength (text_of (drop j ps)) + k + 3 \<and>
    (k \<le> byteLength (text_of ps) \<longrightarrow> k \<le> byteLength (text_of (take j ps)))"
  using assms
proof (induction ps arbitrary: k)
  case (Cons p ps)
  then have p: "is_scalar p" and ps: "scalars ps" by simp_all
  obtain b bs where shape: "utf8 (units_of p) = b # bs" "\<not> is_continuation b" "list_all is_continuation bs" "length bs \<le> 3"
    using point_bytes [OF p] by blast
  have utf8: "utf8 (text_of (p # ps)) = b # bs @ utf8 (text_of ps)" using utf8_point [OF p] shape(1) by simp
  show ?case
  proof (cases k)
    case 0
    then show ?thesis using shape(2) utf8 by (intro exI [of _ 0]) simp
  next
    case (Suc i)
    obtain j where j: "j \<le> length ps"
        "dropWhile is_continuation (drop (i - length bs) (utf8 (text_of ps))) = utf8 (text_of (drop j ps))"
        "byteLength (text_of ps) \<le> byteLength (text_of (drop j ps)) + (i - length bs) + 3"
        "i - length bs \<le> byteLength (text_of ps) \<longrightarrow> i - length bs \<le> byteLength (text_of (take j ps))"
        "i \<le> length bs \<longrightarrow> byteLength (text_of (drop j ps)) = byteLength (text_of ps)"
    proof (cases "i \<le> length bs")
      case True
      have "dropWhile is_continuation (utf8 (text_of ps)) = utf8 (text_of ps)"
      proof (cases ps)
        case (Cons q qs)
        moreover from this have "is_scalar q" using ps by simp
        ultimately obtain c cs where "utf8 (units_of q) = c # cs" "\<not> is_continuation c"
          using point_bytes [of q] by blast
        then show ?thesis using Cons ps utf8_point [of q "text_of qs"] by simp
      qed simp
      then show ?thesis using True by (intro that [of 0]) simp_all
    next
      case False
      then show ?thesis using Cons.IH [OF ps, of "i - length bs"] that by auto
    qed
    have "dropWhile is_continuation (drop i bs @ r) = dropWhile is_continuation r" for r
      using shape(3) by (intro dropWhile_append2) (auto simp: list_all_iff dest: in_set_dropD)
    then have "dropWhile is_continuation (drop k (utf8 (text_of (p # ps)))) = utf8 (text_of (drop j ps))"
      using Suc utf8 j(2) by simp
    moreover have "byteLength (text_of (p # ps)) = Suc (length bs) + byteLength (text_of ps)"
      using utf8 by (simp add: byteLength_def)
    moreover have "byteLength (text_of (p # take j ps)) = Suc (length bs) + byteLength (text_of (take j ps))"
      using utf8_point [OF p] shape(1) by (simp add: byteLength_def)
    ultimately show ?thesis
      using j Suc shape(4) by (cases "i \<le> length bs"; intro exI [of _ "Suc j"]) auto
  qed
qed (auto simp: byteLength_def)


section \<open>The decoder yields texts of code points\<close>

definition bytes :: "int list \<Rightarrow> bool" where
  "bytes data = list_all (\<lambda>b. 0 \<le> b \<and> b < 256) data"

text \<open>What a partial character may be: a continuation in bounds never makes a surrogate.\<close>

definition decoder_inv :: "decoder \<Rightarrow> bool" where
  "decoder_inv dc =
     (let p = dc_point dc; lo = dc_lower dc; hi = dc_upper dc in
      dc_needed dc = 0 \<or>
      dc_needed dc = 1 \<and> 2 \<le> p \<and> p < 17408 \<and> \<not> (864 \<le> p \<and> p \<le> 895) \<and> lo = 128 \<and> hi = 191 \<or>
      dc_needed dc = 2 \<and> 0 \<le> p \<and> p \<le> 15 \<and> lo = (if p = 0 then 160 else 128) \<and> hi = (if p = 13 then 159 else 191) \<or>
      dc_needed dc = 2 \<and> 16 \<le> p \<and> p \<le> 271 \<and> lo = 128 \<and> hi = 191 \<or>
      dc_needed dc = 3 \<and> 0 \<le> p \<and> p \<le> 4 \<and> lo = (if p = 0 then 144 else 128) \<and> hi = (if p = 4 then 143 else 191))"

lemma decoder_invI:
  "n = 1 \<Longrightarrow> 2 \<le> p \<Longrightarrow> p < 17408 \<Longrightarrow> \<not> (864 \<le> p \<and> p \<le> 895) \<Longrightarrow> lo = 128 \<Longrightarrow> hi = 191 \<Longrightarrow>
   decoder_inv \<lparr>dc_point = p, dc_needed = n, dc_lower = lo, dc_upper = hi, dc_started = s\<rparr>"
  "n = 2 \<Longrightarrow> 0 \<le> p \<Longrightarrow> p \<le> 15 \<Longrightarrow> lo = (if p = 0 then 160 else 128) \<Longrightarrow> hi = (if p = 13 then 159 else 191) \<Longrightarrow>
   decoder_inv \<lparr>dc_point = p, dc_needed = n, dc_lower = lo, dc_upper = hi, dc_started = s\<rparr>"
  "n = 2 \<Longrightarrow> 16 \<le> p \<Longrightarrow> p \<le> 271 \<Longrightarrow> lo = 128 \<Longrightarrow> hi = 191 \<Longrightarrow>
   decoder_inv \<lparr>dc_point = p, dc_needed = n, dc_lower = lo, dc_upper = hi, dc_started = s\<rparr>"
  "n = 3 \<Longrightarrow> 0 \<le> p \<Longrightarrow> p \<le> 4 \<Longrightarrow> lo = (if p = 0 then 144 else 128) \<Longrightarrow> hi = (if p = 4 then 143 else 191) \<Longrightarrow>
   decoder_inv \<lparr>dc_point = p, dc_needed = n, dc_lower = lo, dc_upper = hi, dc_started = s\<rparr>"
  by (simp_all add: decoder_inv_def)

lemma decoder_inv_idle [simp]: "decoder_inv (idle_decoder started)"
  by (simp add: decoder_inv_def idle_decoder_def)

lemma first_byte_inv:
  assumes "first_byte b started = (ps, dc)" and "0 \<le> b"
  shows "scalars ps \<and> decoder_inv dc"
proof -
  consider "b < 128" | (two) "194 \<le> b" "b \<le> 223" | (three) "224 \<le> b" "b \<le> 239" | (four) "240 \<le> b" "b \<le> 244"
    | (bad) "128 \<le> b" "\<not> (194 \<le> b \<and> b \<le> 223)" "\<not> (224 \<le> b \<and> b \<le> 239)" "\<not> (240 \<le> b \<and> b \<le> 244)" by linarith
  then show ?thesis
  proof cases
    case 1
    then have "ps = [b]" "dc = idle_decoder started" using assms(1) by (simp_all add: first_byte_def)
    then show ?thesis using 1 assms(2) by (simp add: is_scalar_def)
  next
    case two
    then have "ps = []" "dc = \<lparr>dc_point = b - 192, dc_needed = 1, dc_lower = 128, dc_upper = 191, dc_started = started\<rparr>"
      using assms(1) by (simp_all add: first_byte_def idle_decoder_def)
    then show ?thesis using two by (simp add: decoder_invI(1))
  next
    case three
    then have "ps = []" "dc = \<lparr>dc_point = b - 224, dc_needed = 2, dc_lower = (if b = 224 then 160 else 128),
        dc_upper = (if b = 237 then 159 else 191), dc_started = started\<rparr>"
      using assms(1) by (simp_all add: first_byte_def idle_decoder_def)
    then show ?thesis using three by (simp add: decoder_invI(2))
  next
    case four
    then have "ps = []" "dc = \<lparr>dc_point = b - 240, dc_needed = 3, dc_lower = (if b = 240 then 144 else 128),
        dc_upper = (if b = 244 then 143 else 191), dc_started = started\<rparr>"
      using assms(1) by (simp_all add: first_byte_def idle_decoder_def)
    then show ?thesis using four by (simp add: decoder_invI(4))
  next
    case bad
    then have "first_byte b started = ([65533], idle_decoder started)"
      unfolding first_byte_def Let_def by (simp only: bad if_False) (use bad(1) in simp)
    then show ?thesis using assms(1) by (auto simp: is_scalar_def)
  qed
qed

lemma decode_byte_inv:
  assumes "decode_byte b dc = (ps, dc')" and "0 \<le> b" and "decoder_inv dc"
  shows "scalars ps \<and> decoder_inv dc'"
proof (cases "dc_needed dc = 0 \<or> b < dc_lower dc \<or> dc_upper dc < b")
  case True
  obtain qs dc'' where first: "first_byte b (dc_started dc) = (qs, dc'')" by fastforce
  then show ?thesis
    using assms(1) True first_byte_inv [OF first assms(2)]
    by (auto simp: decode_byte_def is_scalar_def split: if_splits)
next
  case False
  define p where "p = dc_point dc * 64 + (b - 128)"
  have range: "dc_needed dc \<noteq> 0" "dc_lower dc \<le> b" "b \<le> dc_upper dc" using False by auto
  then consider (one) "dc_needed dc = 1" "128 \<le> p" "p < 1114112" "\<not> (55296 \<le> p \<and> p \<le> 57343)"
    | (two) "dc_needed dc = 2" "2 \<le> p" "p < 17408" "\<not> (864 \<le> p \<and> p \<le> 895)"
    | (three) "dc_needed dc = 3" "16 \<le> p" "p \<le> 271"
  proof -
    from assms(3) range(1) consider (a) "dc_needed dc = 1" "2 \<le> dc_point dc" "dc_point dc < 17408"
        "dc_point dc \<le> 863 \<or> 896 \<le> dc_point dc" "dc_lower dc = 128" "dc_upper dc = 191"
      | (b) "dc_needed dc = 2" "0 \<le> dc_point dc" "dc_point dc \<le> 15"
        "dc_lower dc = (if dc_point dc = 0 then 160 else 128)" "dc_upper dc = (if dc_point dc = 13 then 159 else 191)"
      | (c) "dc_needed dc = 2" "16 \<le> dc_point dc" "dc_point dc \<le> 271" "dc_lower dc = 128" "dc_upper dc = 191"
      | (d) "dc_needed dc = 3" "0 \<le> dc_point dc" "dc_point dc \<le> 4"
        "dc_lower dc = (if dc_point dc = 0 then 144 else 128)" "dc_upper dc = (if dc_point dc = 4 then 143 else 191)"
      unfolding decoder_inv_def Let_def by linarith
    then show ?thesis
    proof cases
      case a
      then show ?thesis using range by (intro that(1)) (auto simp: p_def)
    next
      case b
      have "2 \<le> p" using b range by (cases "dc_point dc = 0") (auto simp: p_def)
      moreover have "p \<le> 863 \<or> 896 \<le> p"
        using b range by (cases "dc_point dc = 13"; cases "dc_point dc < 13") (auto simp: p_def)
      moreover have "p < 17408" using b range by (auto simp: p_def split: if_splits)
      ultimately show ?thesis using b(1) by (intro that(2)) auto
    next
      case c
      then show ?thesis using range by (intro that(2)) (auto simp: p_def)
    next
      case d
      have "16 \<le> p" using d range by (cases "dc_point dc = 0") (auto simp: p_def)
      moreover have "p \<le> 271" using d range by (cases "dc_point dc = 4") (auto simp: p_def split: if_splits)
      ultimately show ?thesis using d(1) by (intro that(3))
    qed
  qed
  then show ?thesis
  proof cases
    case one
    then have "ps = [p]" "dc' = idle_decoder (dc_started dc)"
      using assms(1) False by (simp_all add: decode_byte_def flip: p_def)
    then show ?thesis using one by (simp add: is_scalar_def)
  next
    case two
    then have "ps = []" "dc' = \<lparr>dc_point = p, dc_needed = 1, dc_lower = 128, dc_upper = 191, dc_started = dc_started dc\<rparr>"
      using assms(1) False by (simp_all add: decode_byte_def idle_decoder_def flip: p_def)
    then show ?thesis using two by (simp add: decoder_invI(1))
  next
    case three
    then have "ps = []" "dc' = \<lparr>dc_point = p, dc_needed = 2, dc_lower = 128, dc_upper = 191, dc_started = dc_started dc\<rparr>"
      using assms(1) False by (simp_all add: decode_byte_def idle_decoder_def flip: p_def)
    then show ?thesis using three by (simp add: decoder_invI(3))
  qed
qed

lemma decode_bytes_inv:
  "decode_bytes data dc = (ps, dc') \<Longrightarrow> bytes data \<Longrightarrow> decoder_inv dc \<Longrightarrow> scalars ps \<and> decoder_inv dc'"
proof (induction data dc arbitrary: ps dc' rule: decode_bytes.induct)
  case (2 b bs dc)
  obtain qs dc1 rs where steps: "decode_byte b dc = (qs, dc1)" "decode_bytes bs dc1 = (rs, dc')" "ps = qs @ rs"
    using "2.prems"(1) by (auto split: prod.splits)
  have "scalars qs \<and> decoder_inv dc1" using decode_byte_inv [OF steps(1)] "2.prems" by (simp add: bytes_def)
  then show ?case using "2.IH" [OF steps(1) [symmetric] refl steps(2)] "2.prems"(2) steps(3) by (simp add: bytes_def)
qed simp

lemma decode_stream_points:
  assumes "decode_stream data dc = (s, dc')" and "bytes data" and "decoder_inv dc"
  shows "(\<exists>ps. scalars ps \<and> s = text_of ps) \<and> decoder_inv dc'"
proof -
  obtain ps dc1 where steps: "decode_bytes data dc = (ps, dc1)" by fastforce
  have inv: "scalars ps" "decoder_inv dc1" using decode_bytes_inv [OF steps assms(2,3)] by auto
  then have "decoder_inv (dc1\<lparr>dc_started := True\<rparr>)" by (simp add: decoder_inv_def)
  moreover have "scalars (tl ps)" using inv(1) by (cases ps) auto
  ultimately show ?thesis
    using assms(1) steps inv
    by (cases "ps = []"; cases "\<not> dc_started dc \<and> hd ps = 65279")
      (auto simp: decode_stream_def text_of_def intro: exI [of _ "[]"] exI [of _ ps] exI [of _ "tl ps"])
qed

lemma decode_end_points: "decode_end dc = (s, dc') \<Longrightarrow> (\<exists>ps. scalars ps \<and> s = text_of ps) \<and> decoder_inv dc'"
  by (auto simp: decode_end_def is_scalar_def units_of_def split: if_splits
      intro: exI [of _ "[]"] exI [of _ "[65533]"])


section \<open>Lines of a growing text\<close>

lemma length_lines: "length (lines_of s) = count_list s LF + 1"
  by (induction s) (auto split: list.splits)

lemma lines_snoc_LF: "lines_of (s @ [LF]) = lines_of s @ [[]]"
  by (induction s) (auto split: list.splits)

lemma lines_append_LF: "lines_of (x @ LF # y) = lines_of x @ lines_of y"
  by (induction x) (auto split: list.splits)

lemma last_lines: "LF \<notin> set y \<Longrightarrow> last (lines_of (x @ LF # y)) = y"
  by (simp add: lines_append_LF split_on_free_id)

lemma last_lines_empty: "last (lines_of s) = [] \<longleftrightarrow> s = [] \<or> last s = LF"
proof (cases "LF \<in> set s")
  case True
  then obtain x y where s: "s = x @ LF # y" and free: "LF \<notin> set y" by (metis split_list_last)
  have "y = [] \<longleftrightarrow> last s = LF" using s free by (auto dest: last_in_set)
  then show ?thesis using last_lines [OF free] s by simp
next
  case False
  have "last s = LF \<Longrightarrow> s = []" using False last_in_set by force
  then show ?thesis using False by (auto simp: split_on_free_id)
qed

lemma last_lines_append:
  "last (lines_of (s @ t)) = (if LF \<in> set t then last (lines_of t) else last (lines_of s) @ t)"
proof (cases "LF \<in> set t")
  case True
  then obtain x y where t: "t = x @ LF # y" and free: "LF \<notin> set y" by (metis split_list_last)
  then show ?thesis using last_lines [OF free, of "s @ x"] last_lines [OF free, of x] by simp
next
  case no_break: False
  show ?thesis
  proof (cases "LF \<in> set s")
    case True
    then obtain x y where s: "s = x @ LF # y" and free: "LF \<notin> set y" by (metis split_list_last)
    then show ?thesis using last_lines [of "y @ t" x] last_lines [OF free, of x] no_break by simp
  qed (simp add: no_break split_on_free_id)
qed

lemma counted_lines:
  "length (splitLinesForCounting s) = count_list s LF + (if s \<noteq> [] \<and> last s \<noteq> LF then 1 else 0)"
  using length_lines [of s] by (simp add: splitLinesForCounting_def Let_def)

lemma splitLines_append_LF: "splitLinesForCounting (x @ LF # y) = lines_of x @ splitLinesForCounting y"
proof (cases "y = []")
  case True
  then show ?thesis by (simp add: splitLinesForCounting_def lines_append_LF)
next
  case False
  then show ?thesis by (simp add: splitLinesForCounting_def lines_append_LF butlast_append Let_def)
qed

lemma splitLines_size: "byteLength s \<le> lines_size (splitLinesForCounting s) + 1"
proof -
  have "s = unlines (splitLinesForCounting s) \<or> s = unlines (splitLinesForCounting s) @ [LF]"
  proof (cases "s \<noteq> [] \<and> last s = LF")
    case True
    then obtain x where "s = x @ [LF]" by (metis append_butlast_last_id)
    then show ?thesis using join_split [of LF x] by (simp add: splitLinesForCounting_def lines_snoc_LF)
  next
    case False
    then show ?thesis using join_split [of LF s] by (auto simp: splitLinesForCounting_def)
  qed
  then show ?thesis
  proof
    assume "s = unlines (splitLinesForCounting s)"
    then show ?thesis by (simp add: lines_size_def)
  next
    assume "s = unlines (splitLinesForCounting s) @ [LF]"
    then have "byteLength s = byteLength (unlines (splitLinesForCounting s) @ LF # [])" by simp
    then show ?thesis by (simp add: byteLength_def utf8_lines lines_size_def)
  qed
qed

lemma text_of_hd: "scalars ps \<Longrightarrow> ps \<noteq> [] \<Longrightarrow> \<not> is_low (hd (text_of ps))"
proof (cases ps)
  case (Cons p qs)
  assume "scalars ps"
  then have p: "is_scalar p" using Cons by simp
  show ?thesis
  proof (cases "p < 65536")
    case False
    then obtain c d where "units_of p = [c, d]" "is_high c" using units_of_pair [OF p] by blast
    then show ?thesis using Cons by (auto simp: is_high_def is_low_def)
  qed (use Cons units_of_single [OF p] in simp)
qed simp

lemma byteLength_append_text: "scalars ps \<Longrightarrow> byteLength (s @ text_of ps) = byteLength s + byteLength (text_of ps)"
  using text_of_hd [of ps] by (cases "ps = []") (simp_all add: byteLength_def utf8_append)

lemma last_text: "scalars ps \<Longrightarrow> ps \<noteq> [] \<Longrightarrow> last (text_of ps) = LF \<longleftrightarrow> last ps = 10"
proof (cases ps rule: rev_cases)
  case (snoc qs p)
  assume "scalars ps"
  then have p: "is_scalar p" using snoc by simp
  show ?thesis
  proof (cases "p < 65536")
    case False
    then obtain c d where "units_of p = [c, d]" "is_low d" using units_of_pair [OF p] by blast
    then show ?thesis using snoc False by (auto simp: is_low_def)
  qed (use snoc units_of_single [OF p] in simp)
qed simp


section \<open>What the accumulator holds\<close>

text \<open>
  \<open>follows ps a\<close>: after decoding the code points \<open>ps\<close>, the counters describe the whole text, and
  the buffer holds an end of it of a bounded size, with a flag that says whether it starts a line.
\<close>

definition holds_tail :: "int list \<Rightarrow> accumulator \<Rightarrow> bool" where
  "holds_tail ps a =
     (scalars ps \<and> 0 < oa_maxRollingBytes a \<and>
      oa_tailBytes a = byteLength (oa_tailText a) \<and>
      (\<exists>j\<le>length ps. oa_tailText a = text_of (drop j ps) \<and>
         oa_tailStartsAtLineBoundary a = (j = 0 \<or> ps ! (j - 1) = 10) \<and>
         (0 < j \<longrightarrow> oa_maxRollingBytes a \<le> byteLength (oa_tailText a) + 3)))"

definition counts :: "int list \<Rightarrow> accumulator \<Rightarrow> bool" where
  "counts ps a =
     (let s = text_of ps in
      oa_totalDecodedBytes a = byteLength s \<and>
      oa_completedLines a = count_list s LF \<and>
      oa_hasOpenLine a = (s \<noteq> [] \<and> last s \<noteq> LF) \<and>
      oa_totalLines a = length (splitLinesForCounting s) \<and>
      oa_currentLineBytes a = byteLength (last (lines_of s)))"

definition follows :: "int list \<Rightarrow> accumulator \<Rightarrow> bool" where
  "follows ps a = (holds_tail ps a \<and> counts ps a \<and> oa_tailBytes a \<le> oa_maxRollingBytes a * 2)"

lemma nth_before: "xs \<noteq> [] \<Longrightarrow> (xs @ ys) ! (length xs - 1) = last xs"
  by (cases xs rule: rev_cases) (simp_all add: nth_append)

lemma utf8_split:
  assumes "scalars qs"
  shows "utf8 (text_of qs) = utf8 (text_of (take i qs)) @ utf8 (text_of (drop i qs))"
proof -
  have "scalars (take i qs)" using assms by (auto simp: list_all_iff dest: in_set_takeD)
  from utf8_text_append [OF this, of "text_of (drop i qs)"] show ?thesis by (simp flip: text_of_simps(3))
qed

text \<open>The byte before a cut tells whether the cut is at the start of a line.\<close>

lemma byte_before:
  assumes qs: "scalars qs" and i: "0 < i" "i \<le> length qs"
  shows "utf8 (text_of qs) ! (byteLength (text_of (take i qs)) - 1) = 10 \<longleftrightarrow> qs ! (i - 1) = 10"
proof -
  have take: "take i qs = take (i - 1) qs @ [qs ! (i - 1)]"
    using i by (metis Suc_diff_1 Suc_le_lessD take_Suc_conv_app_nth)
  have p: "is_scalar (qs ! (i - 1))" and front: "scalars (take (i - 1) qs)"
    using qs i by (auto simp: list_all_iff dest: in_set_takeD)
  have "utf8 (text_of (take i qs)) = utf8 (text_of (take (i - 1) qs)) @ utf8 (units_of (qs ! (i - 1)))"
    using take utf8_text_append [OF front, of "text_of [qs ! (i - 1)]"] by simp
  moreover obtain b bs where shape: "utf8 (units_of (qs ! (i - 1))) = b # bs" "last (b # bs) = 10 \<longrightarrow> qs ! (i - 1) = 10"
    using point_bytes [OF p] by blast
  ultimately have bytes: "utf8 (text_of (take i qs)) = utf8 (text_of (take (i - 1) qs)) @ b # bs" by (simp only:)
  have ne: "utf8 (text_of (take i qs)) \<noteq> []" and last: "last (utf8 (text_of (take i qs))) = last (b # bs)"
    unfolding bytes by simp_all
  have "utf8 (text_of qs) ! (byteLength (text_of (take i qs)) - 1) = last (utf8 (text_of (take i qs)))"
    unfolding utf8_split [OF qs, of i] byteLength_def by (rule nth_before [OF ne])
  moreover have "qs ! (i - 1) = 10 \<Longrightarrow> b # bs = [10]"
    using shape(1) by (simp add: units_of_def encode_unit_def encode_bmp_def is_high_def is_low_def)
  then have "qs ! (i - 1) = 10 \<Longrightarrow> last (b # bs) = 10" by simp
  ultimately show ?thesis unfolding last using shape(2) by metis
qed

lemma trimTail_holds:
  assumes holds: "holds_tail ps a" and long: "oa_maxRollingBytes a < oa_tailBytes a"
  shows "holds_tail ps (trimTail a) \<and> oa_tailBytes (trimTail a) \<le> oa_maxRollingBytes a"
proof -
  let ?max = "oa_maxRollingBytes a"
  obtain j where j: "j \<le> length ps" "oa_tailText a = text_of (drop j ps)" and ps: "scalars ps" and "0 < ?max"
    using holds by (auto simp: holds_tail_def)
  define qs where "qs = drop j ps"
  have qs: "scalars qs" "oa_tailText a = text_of qs" using ps j by (auto simp: qs_def list_all_iff dest: in_set_dropD)
  define k where "k = byteLength (text_of qs) - ?max"
  have tail: "oa_tailBytes a = byteLength (text_of qs)" using holds qs(2) by (simp add: holds_tail_def)
  then have k: "0 < k" "k \<le> byteLength (text_of qs)" "byteLength (text_of qs) = k + ?max"
    using long by (auto simp: k_def)
  obtain i where i: "i \<le> length qs" "dropWhile is_continuation (drop k (utf8 (text_of qs))) = utf8 (text_of (drop i qs))"
      "byteLength (text_of qs) \<le> byteLength (text_of (drop i qs)) + k + 3" "k \<le> byteLength (text_of (take i qs))"
    using skip_to_point [OF qs(1), of k] k(2) by blast
  have "i \<noteq> 0" using i(4) k(1) by (cases i) auto
  have parts: "scalars (drop i qs)" using qs(1) by (auto simp: list_all_iff dest: in_set_dropD)
  have sizes: "byteLength (text_of qs) = byteLength (text_of (take i qs)) + byteLength (text_of (drop i qs))"
    using utf8_split [OF qs(1), of i] by (simp add: byteLength_def)
  have decoded: "decode_utf8 (utf8 (text_of (drop i qs))) = text_of (drop i qs)"
    using text_of_units [OF parts] by (simp add: decode_utf8_utf8)
  have before: "utf8 (text_of qs) ! (byteLength (text_of (take i qs)) - 1) = 10 \<longleftrightarrow> qs ! (i - 1) = 10"
    using byte_before [OF qs(1), of i] i(1) \<open>i \<noteq> 0\<close> by simp
  have trim: "trimTail a = a\<lparr>oa_tailStartsAtLineBoundary := (qs ! (i - 1) = 10), oa_tailText := text_of (drop i qs),
      oa_tailBytes := byteLength (text_of (drop i qs))\<rparr>"
  proof -
    have "\<not> length (utf8 (text_of qs)) \<le> ?max" using k by (simp add: byteLength_def)
    moreover have "length (utf8 (text_of qs)) - ?max = k" using k by (simp add: byteLength_def)
    moreover have "length (utf8 (text_of qs)) - length (utf8 (text_of (drop i qs))) = byteLength (text_of (take i qs))"
      using sizes by (simp add: byteLength_def)
    moreover have "byteLength (text_of (take i qs)) \<noteq> 0" using i(4) k(1) by simp
    ultimately show ?thesis
      unfolding trimTail_def Let_def qs(2) by (simp only: i(2) if_False decoded before)
  qed
  have "text_of (drop i qs) = text_of (drop (j + i) ps)" by (simp add: qs_def add.commute)
  moreover have "qs ! (i - 1) = ps ! (j + i - 1)" using \<open>i \<noteq> 0\<close> i(1) j(1) by (simp add: qs_def nth_drop)
  moreover have "j + i \<le> length ps" using i(1) j(1) by (simp add: qs_def)
  moreover have "?max \<le> byteLength (text_of (drop i qs)) + 3" "byteLength (text_of (drop i qs)) \<le> ?max"
    using i(3,4) k sizes by simp_all
  ultimately show ?thesis
    using ps \<open>0 < ?max\<close> \<open>i \<noteq> 0\<close> unfolding trim holds_tail_def by (auto intro!: exI [of _ "j + i"])
qed


lemma count_lines_counts:
  assumes "counts ps b" and "scalars qs" and "qs \<noteq> []"
    and "oa_completedLines a = oa_completedLines b" "oa_currentLineBytes a = oa_currentLineBytes b"
    and "oa_totalDecodedBytes a = oa_totalDecodedBytes b + byteLength (text_of qs)"
  shows "counts (ps @ qs) (count_lines (text_of qs) (byteLength (text_of qs)) a)"
proof -
  let ?s = "text_of ps" and ?t = "text_of qs"
  have ne: "?t \<noteq> []" using assms(3) by simp
  have total: "byteLength (?s @ ?t) = byteLength ?s + byteLength ?t" by (rule byteLength_append_text [OF assms(2)])
  have line: "byteLength (last (lines_of ?s) @ ?t) = byteLength (last (lines_of ?s)) + byteLength ?t"
    by (rule byteLength_append_text [OF assms(2)])
  have open_line: "last (lines_of ?t) = [] \<longleftrightarrow> last ?t = LF" using last_lines_empty [of ?t] ne by simp
  show ?thesis
  proof (cases "LF \<in> set ?t")
    case True
    then have "count_list ?t LF \<noteq> 0" by (simp add: count_list_0_iff)
    then show ?thesis
      using assms True ne total open_line last_lines_append [of ?s ?t]
      by (auto simp: counts_def count_lines_def Let_def counted_lines)
  next
    case False
    then have "count_list ?t LF = 0" "last ?t \<noteq> LF" using last_in_set [OF ne] by (auto simp: count_list_0_iff)
    then show ?thesis
      using assms False ne total line last_lines_append [of ?s ?t]
      by (auto simp: counts_def count_lines_def Let_def counted_lines)
  qed
qed

lemma count_lines_simps [simp]:
  "oa_tailText (count_lines s n a) = oa_tailText a" "oa_tailBytes (count_lines s n a) = oa_tailBytes a"
  "oa_tailStartsAtLineBoundary (count_lines s n a) = oa_tailStartsAtLineBoundary a"
  "oa_maxRollingBytes (count_lines s n a) = oa_maxRollingBytes a" "oa_maxBytes (count_lines s n a) = oa_maxBytes a"
  "oa_maxLines (count_lines s n a) = oa_maxLines a" "oa_decoder (count_lines s n a) = oa_decoder a"
  "oa_finished (count_lines s n a) = oa_finished a" "oa_rawChunks (count_lines s n a) = oa_rawChunks a"
  "oa_tempFile (count_lines s n a) = oa_tempFile a" "oa_tempFilePath (count_lines s n a) = oa_tempFilePath a"
  "oa_tempFileOpen (count_lines s n a) = oa_tempFileOpen a" "oa_totalRawBytes (count_lines s n a) = oa_totalRawBytes a"
  "oa_totalDecodedBytes (count_lines s n a) = oa_totalDecodedBytes a"
  by (simp_all add: count_lines_def Let_def)

lemma trimTail_simps [simp]:
  "oa_maxRollingBytes (trimTail a) = oa_maxRollingBytes a" "oa_maxBytes (trimTail a) = oa_maxBytes a"
  "oa_maxLines (trimTail a) = oa_maxLines a" "oa_decoder (trimTail a) = oa_decoder a"
  "oa_finished (trimTail a) = oa_finished a" "oa_rawChunks (trimTail a) = oa_rawChunks a"
  "oa_tempFile (trimTail a) = oa_tempFile a" "oa_tempFilePath (trimTail a) = oa_tempFilePath a"
  "oa_tempFileOpen (trimTail a) = oa_tempFileOpen a" "oa_totalRawBytes (trimTail a) = oa_totalRawBytes a"
  "oa_totalDecodedBytes (trimTail a) = oa_totalDecodedBytes a" "oa_completedLines (trimTail a) = oa_completedLines a"
  "oa_currentLineBytes (trimTail a) = oa_currentLineBytes a"
  by (simp_all add: trimTail_def Let_def)

lemma appendDecodedText_follows:
  assumes follows: "follows ps a" and qs: "scalars qs"
  shows "follows (ps @ qs) (appendDecodedText (text_of qs) a)"
proof (cases "qs = []")
  case True
  then show ?thesis using follows by (simp add: appendDecodedText_def)
next
  case False
  let ?n = "byteLength (text_of qs)"
  define b where "b = a\<lparr>oa_totalDecodedBytes := oa_totalDecodedBytes a + ?n, oa_tailText := oa_tailText a @ text_of qs,
    oa_tailBytes := oa_tailBytes a + ?n\<rparr>"
  define c where "c = (if oa_tailBytes b > oa_maxRollingBytes b * 2 then trimTail b else b)"
  have result: "appendDecodedText (text_of qs) a = count_lines (text_of qs) ?n c"
    using False by (simp add: appendDecodedText_def b_def c_def Let_def)
  from follows obtain j where j: "j \<le> length ps" "oa_tailText a = text_of (drop j ps)"
      "oa_tailStartsAtLineBoundary a = (j = 0 \<or> ps ! (j - 1) = 10)"
      "0 < j \<longrightarrow> oa_maxRollingBytes a \<le> byteLength (oa_tailText a) + 3"
    unfolding follows_def holds_tail_def by (elim exE conjE) (rule that)
  have facts: "scalars ps" "0 < oa_maxRollingBytes a" "oa_tailBytes a = byteLength (oa_tailText a)"
    using follows by (simp_all add: follows_def holds_tail_def)
  have "holds_tail (ps @ qs) b"
    using j facts qs byteLength_append_text [OF qs, of "oa_tailText a"]
    by (auto simp: holds_tail_def b_def nth_append intro!: exI [of _ j])
  then have c: "holds_tail (ps @ qs) c \<and> oa_tailBytes c \<le> oa_maxRollingBytes c * 2"
    using trimTail_holds [of "ps @ qs" b] facts(2) by (auto simp: c_def b_def)
  have "counts ps a" using follows by (simp add: follows_def)
  then have "counts (ps @ qs) (count_lines (text_of qs) ?n c)"
    by (rule count_lines_counts) (use qs False in \<open>simp_all add: c_def b_def\<close>)
  then show ?thesis using c unfolding result by (simp add: follows_def holds_tail_def)
qed


section \<open>Decoding by chunks\<close>

lemma decode_bytes_append:
  "decode_bytes (xs @ ys) dc =
     (let (ps, dc1) = decode_bytes xs dc; (qs, dc2) = decode_bytes ys dc1 in (ps @ qs, dc2))"
  by (induction xs arbitrary: dc) (auto simp: Let_def split: prod.splits)

lemma first_byte_started: "first_byte b v = apsnd (\<lambda>d. d\<lparr>dc_started := v\<rparr>) (first_byte b u)"
  by (simp add: first_byte_def idle_decoder_def Let_def)

lemma decode_byte_started:
  "decode_byte b (dc\<lparr>dc_started := v\<rparr>) = apsnd (\<lambda>d. d\<lparr>dc_started := v\<rparr>) (decode_byte b dc)"
  using first_byte_started [of b v "dc_started dc"]
  by (cases "first_byte b (dc_started dc)") (simp add: decode_byte_def idle_decoder_def Let_def)

lemma decode_bytes_started:
  "decode_bytes bs (dc\<lparr>dc_started := v\<rparr>) = apsnd (\<lambda>d. d\<lparr>dc_started := v\<rparr>) (decode_bytes bs dc)"
proof (induction bs arbitrary: dc)
  case (Cons b bs)
  obtain ps dc1 where "decode_byte b dc = (ps, dc1)" by fastforce
  moreover obtain qs dc2 where "decode_bytes bs dc1 = (qs, dc2)" by fastforce
  ultimately show ?case using Cons.IH [of dc1] by (simp add: decode_byte_started)
qed simp

lemma decode_byte_keeps_started: "decode_byte b dc = (ps, dc') \<Longrightarrow> dc_started dc' = dc_started dc"
  by (auto simp: decode_byte_def first_byte_def idle_decoder_def Let_def split: if_splits)

lemma decode_bytes_keeps_started: "decode_bytes bs dc = (ps, dc') \<Longrightarrow> dc_started dc' = dc_started dc"
  by (induction bs arbitrary: dc ps dc') (auto split: prod.splits dest: decode_byte_keeps_started)

theorem decode_stream_append:
  "decode_stream (xs @ ys) dc =
     (let (s, dc1) = decode_stream xs dc; (t, dc2) = decode_stream ys dc1 in (s @ t, dc2))"
proof -
  obtain ps dc1 where xs: "decode_bytes xs dc = (ps, dc1)" by fastforce
  obtain qs dc2 where ys: "decode_bytes ys dc1 = (qs, dc2)" by fastforce
  have started: "dc_started dc1 = dc_started dc" "dc_started dc2 = dc_started dc"
    using decode_bytes_keeps_started [OF xs] decode_bytes_keeps_started [OF ys] by simp_all
  have all: "decode_bytes (xs @ ys) dc = (ps @ qs, dc2)" using xs ys by (simp add: decode_bytes_append)
  have rest: "decode_bytes ys (dc1\<lparr>dc_started := True\<rparr>) = (qs, dc2\<lparr>dc_started := True\<rparr>)"
    using ys by (simp add: decode_bytes_started)
  show ?thesis
  proof (cases "ps = []")
    case True
    then show ?thesis using xs ys all started by (simp add: decode_stream_def)
  next
    case False
    then show ?thesis using xs all rest by (cases "qs = []") (auto simp: decode_stream_def tl_append2)
  qed
qed

section \<open>A whole run\<close>

definition append_outputs :: "ustring \<Rightarrow> int list list \<Rightarrow> accumulator \<Rightarrow> accumulator" where
  "append_outputs path chunks a = fold (\<lambda>data a. snd (append_output path data a)) chunks a"

definition stores :: "int list \<Rightarrow> accumulator \<Rightarrow> bool" where
  "stores data a =
     (oa_totalRawBytes a = length data \<and>
      (case oa_tempFilePath a of
         None \<Rightarrow> \<not> oa_tempFileOpen a \<and> oa_tempFile a = [] \<and> concat (oa_rawChunks a) = data \<and>
           length data \<le> oa_maxBytes a
       | Some p \<Rightarrow> oa_tempFileOpen a \<and> oa_rawChunks a = [] \<and> oa_tempFile a = data))"

definition output_inv :: "truncation_options \<Rightarrow> int list \<Rightarrow> accumulator \<Rightarrow> bool" where
  "output_inv options data a =
     (stores data a \<and> oa_maxLines a = max_lines options \<and> oa_maxBytes a = max_bytes options \<and>
      oa_maxRollingBytes a = max (max_bytes options * 2) 1 \<and> decoder_inv (oa_decoder a) \<and> \<not> oa_finished a \<and>
      (\<exists>ps. follows ps a \<and> decode_stream data (idle_decoder False) = (text_of ps, oa_decoder a)))"

lemma appendDecodedText_simps [simp]:
  "oa_maxRollingBytes (appendDecodedText s a) = oa_maxRollingBytes a" "oa_maxBytes (appendDecodedText s a) = oa_maxBytes a"
  "oa_maxLines (appendDecodedText s a) = oa_maxLines a" "oa_decoder (appendDecodedText s a) = oa_decoder a"
  "oa_finished (appendDecodedText s a) = oa_finished a" "oa_rawChunks (appendDecodedText s a) = oa_rawChunks a"
  "oa_tempFile (appendDecodedText s a) = oa_tempFile a" "oa_tempFilePath (appendDecodedText s a) = oa_tempFilePath a"
  "oa_tempFileOpen (appendDecodedText s a) = oa_tempFileOpen a"
  "oa_totalRawBytes (appendDecodedText s a) = oa_totalRawBytes a"
  by (simp_all add: appendDecodedText_def Let_def)

lemma follows_cong:
  "oa_maxRollingBytes a = oa_maxRollingBytes b \<Longrightarrow> oa_tailText a = oa_tailText b \<Longrightarrow> oa_tailBytes a = oa_tailBytes b \<Longrightarrow>
   oa_tailStartsAtLineBoundary a = oa_tailStartsAtLineBoundary b \<Longrightarrow>
   oa_totalDecodedBytes a = oa_totalDecodedBytes b \<Longrightarrow> oa_completedLines a = oa_completedLines b \<Longrightarrow>
   oa_hasOpenLine a = oa_hasOpenLine b \<Longrightarrow> oa_totalLines a = oa_totalLines b \<Longrightarrow>
   oa_currentLineBytes a = oa_currentLineBytes b \<Longrightarrow> follows ps b \<Longrightarrow> follows ps a"
  by (simp add: follows_def holds_tail_def counts_def Let_def)

lemma new_accumulator_inv: "output_inv options [] (new_accumulator options)"
proof -
  have "follows [] (new_accumulator options)"
    by (simp add: follows_def holds_tail_def counts_def new_accumulator_def splitLinesForCounting_def)
  then show ?thesis
    by (auto simp: output_inv_def stores_def new_accumulator_def decode_stream_def intro: exI [of _ "[]"])
qed


lemma stores_step:
  assumes "stores data a" and "oa_totalRawBytes b = oa_totalRawBytes a + length chunk"
    and "oa_rawChunks b = oa_rawChunks a" "oa_tempFile b = oa_tempFile a" "oa_tempFilePath b = oa_tempFilePath a"
      "oa_tempFileOpen b = oa_tempFileOpen a" "oa_maxBytes b = oa_maxBytes a"
  shows "stores (data @ chunk)
     (if oa_tempFileOpen b \<or> shouldUseTempFile b then
        (let a = ensureTempFile path b
         in if oa_tempFileOpen a then a\<lparr>oa_tempFile := oa_tempFile a @ chunk\<rparr> else a)
      else if length chunk > 0 then b\<lparr>oa_rawChunks := oa_rawChunks b @ [chunk]\<rparr>
      else b)"
  using assms by (auto simp: stores_def ensureTempFile_def shouldUseTempFile_def Let_def split: option.splits)

lemma append_output_inv:
  assumes inv: "output_inv options data a" and chunk: "bytes chunk"
  shows "output_inv options (data @ chunk) (snd (append_output path chunk a))" and "fst (append_output path chunk a) = Inr ()"
proof -
  obtain ps where ps: "follows ps a" "decode_stream data (idle_decoder False) = (text_of ps, oa_decoder a)"
    using inv by (auto simp: output_inv_def)
  have facts: "stores data a" "decoder_inv (oa_decoder a)" "\<not> oa_finished a" using inv by (simp_all add: output_inv_def)
  obtain s dc where step: "decode_stream chunk (oa_decoder a) = (s, dc)" by fastforce
  obtain qs where qs: "scalars qs" "s = text_of qs" "decoder_inv dc"
    using decode_stream_points [OF step chunk facts(2)] by blast
  define b where "b = appendDecodedText s (a\<lparr>oa_totalRawBytes := oa_totalRawBytes a + length chunk, oa_decoder := dc\<rparr>)"
  define c where "c = (if oa_tempFileOpen b \<or> shouldUseTempFile b then
        (let a = ensureTempFile path b
         in if oa_tempFileOpen a then a\<lparr>oa_tempFile := oa_tempFile a @ chunk\<rparr> else a)
      else if length chunk > 0 then b\<lparr>oa_rawChunks := oa_rawChunks b @ [chunk]\<rparr>
      else b)"
  have result: "append_output path chunk a = (Inr (), c)"
    using facts(3) step by (simp add: append_output_def b_def c_def Let_def)
  have "follows ps (a\<lparr>oa_totalRawBytes := oa_totalRawBytes a + length chunk, oa_decoder := dc\<rparr>)"
    by (rule follows_cong [OF _ _ _ _ _ _ _ _ _ ps(1)]) simp_all
  then have "follows (ps @ qs) b" unfolding b_def qs(2) by (rule appendDecodedText_follows [OF _ qs(1)])
  then have shown: "follows (ps @ qs) c"
    by (rule follows_cong [rotated -1]) (simp_all add: c_def ensureTempFile_def Let_def)
  have same: "oa_decoder c = dc" "oa_maxLines c = oa_maxLines a" "oa_maxBytes c = oa_maxBytes a"
      "oa_maxRollingBytes c = oa_maxRollingBytes a" "oa_finished c = oa_finished a"
    by (simp_all add: c_def b_def ensureTempFile_def Let_def)
  have "stores (data @ chunk) c" unfolding c_def by (rule stores_step [OF facts(1)]) (simp_all add: b_def)
  moreover have "decode_stream (data @ chunk) (idle_decoder False) = (text_of (ps @ qs), dc)"
    using ps(2) step qs(2) by (simp add: decode_stream_append)
  ultimately show "output_inv options (data @ chunk) (snd (append_output path chunk a))"
    using inv shown same qs(3) unfolding result by (auto simp: output_inv_def)
  show "fst (append_output path chunk a) = Inr ()" unfolding result by simp
qed

lemma append_outputs_inv:
  "list_all bytes chunks \<Longrightarrow> output_inv options data a \<Longrightarrow>
   output_inv options (data @ concat chunks) (append_outputs path chunks a)"
proof (induction chunks arbitrary: data a)
  case (Cons chunk chunks)
  then have "output_inv options (data @ chunk) (snd (append_output path chunk a))"
    using append_output_inv(1) [OF Cons.prems(2)] by simp
  from Cons.IH [OF _ this] Cons.prems(1) show ?case by (simp add: append_outputs_def)
qed (simp add: append_outputs_def)

lemma run_inv:
  "list_all bytes chunks \<Longrightarrow> output_inv options (concat chunks) (append_outputs path chunks (new_accumulator options))"
  using append_outputs_inv [OF _ new_accumulator_inv, of chunks options path] by simp

text \<open>
  C34: however the output is split into chunks, the buffer takes every chunk, and what is kept in
  memory stays within a bound set by the limit of bytes: the text of the rolling buffer, and the
  bytes waiting for a temporary file, of which none is lost: each is in memory while there is no file, and
  in the file, in order, once there is one.
\<close>

theorem output_memory_bounded:
  assumes "list_all bytes chunks" and "bytes chunk"
  shows "let a = append_outputs path chunks (new_accumulator options) in
    fst (append_output path chunk a) = Inr () \<and>
    byteLength (oa_tailText a) \<le> 2 * max (max_bytes options * 2) 1 \<and>
    (case oa_tempFilePath a of
       None \<Rightarrow> concat (oa_rawChunks a) = concat chunks \<and> length (concat chunks) \<le> max_bytes options
     | Some p \<Rightarrow> oa_rawChunks a = [] \<and> oa_tempFile a = concat chunks)"
proof -
  define a where "a = append_outputs path chunks (new_accumulator options)"
  have inv: "output_inv options (concat chunks) a" unfolding a_def by (rule run_inv [OF assms(1)])
  have "byteLength (oa_tailText a) \<le> 2 * max (max_bytes options * 2) 1"
    using inv by (auto simp: output_inv_def follows_def holds_tail_def)
  moreover have "case oa_tempFilePath a of
        None \<Rightarrow> concat (oa_rawChunks a) = concat chunks \<and> length (concat chunks) \<le> max_bytes options
      | Some p \<Rightarrow> oa_rawChunks a = [] \<and> oa_tempFile a = concat chunks"
    using inv by (auto simp: output_inv_def stores_def split: option.splits)
  ultimately show ?thesis
    using append_output_inv(2) [OF inv assms(2)] unfolding a_def [symmetric] Let_def by blast
qed


section \<open>Snapshots\<close>

lemma tail_loop_append:
  assumes "tail_loop M B xs acc (lines_size acc) = r" and "lines_size acc \<le> B" and "B < lines_size (rev xs @ acc)"
  shows "tail_loop M B (xs @ ys) acc (lines_size acc) = r"
  using assms
proof (induction xs arbitrary: acc)
  case (Cons x xs)
  show ?case
  proof (cases "length acc < M \<and> lines_size acc + (byteLength x + (if length acc > 0 then 1 else 0)) \<le> B")
    case True
    then have size: "lines_size (x # acc) = lines_size acc + (byteLength x + (if length acc > 0 then 1 else 0))"
      by (simp add: lines_size_Cons)
    have "tail_loop M B xs (x # acc) (lines_size (x # acc)) = r" using Cons.prems(1) True unfolding size by simp
    from Cons.IH [OF this] Cons.prems(3) True show ?thesis unfolding size by simp
  next
    case False
    then have "tail_loop M B ((x # xs) @ ys) acc (lines_size acc) = tail_loop M B (x # xs) acc (lines_size acc)"
      by (cases "length acc < M") (simp_all add: Let_def del: length_greater_0_conv)
    then show ?thesis using Cons.prems(1) by simp
  qed
qed simp

lemma truncateTail_long:
  assumes content: "splitLinesForCounting content = front @ lines"
    and long: "max_bytes options < lines_size lines" "max_bytes options < byteLength content"
    and loop: "tail_loop (max_lines options) (max_bytes options) (rev lines) [] 0 = (out, n, b, partial)"
  shows "truncateTail content options =
    truncated_to content options out (if length out \<ge> max_lines options \<and> n \<le> max_bytes options then ByLines else b) partial"
proof -
  have "tail_loop (max_lines options) (max_bytes options) (rev (front @ lines)) [] 0 = (out, n, b, partial)"
    using tail_loop_append [of _ _ "rev lines" "[]", OF _ _ _, where ys = "rev front"] loop long(1) by simp
  then show ?thesis using long(2) by (simp add: truncateTail_def content Let_def)
qed

text \<open>When the buffer was cut, the snapshot's text is an end of the output that starts a line.\<close>

lemma index_of_break: "index_of [c] s = Some i \<Longrightarrow> s = take i s @ c # drop (i + 1) s \<and> c \<notin> set (take i s)"
proof
  assume found: "index_of [c] s = Some i"
  show "s = take i s @ c # drop (i + 1) s" using index_of_split [OF found] by simp
  show "c \<notin> set (take i s)"
  proof
    assume "c \<in> set (take i s)"
    then obtain j where j: "j < i" "j < length s" "s ! j = c" by (auto simp: in_set_conv_nth)
    then have "starts_with [c] (drop j s)" by (simp add: starts_with_iff Cons_nth_drop_Suc [symmetric])
    then show False using index_of_first [OF found j(1)] by simp
  qed
qed

lemma index_of_no_break: "index_of [c] s = None \<Longrightarrow> c \<notin> set s"
proof
  assume none: "index_of [c] s = None" and "c \<in> set s"
  then obtain j where j: "j < length s" "s ! j = c" by (auto simp: in_set_conv_nth)
  then have "starts_with [c] (drop j s)" by (simp add: starts_with_iff Cons_nth_drop_Suc [symmetric])
  then show False using none j(1) by (auto simp: index_of_None_iff)
qed

text \<open>What a cut left of its line is no longer than the line.\<close>

lemma cut_line_size:
  assumes "u = [] \<or> \<not> is_low (hd u)" and "LF \<notin> set u"
  shows "byteLength u \<le> byteLength (last (lines_of (x @ u)))"
  using assms last_lines_append [of x u] by (simp add: byteLength_def utf8_append)

lemma snapshot_text:
  assumes follows: "follows ps a" and short: "\<And>l. l \<in> set (lines_of (text_of ps)) \<Longrightarrow> byteLength l + k \<le> oa_maxRollingBytes a"
    and k: "4 \<le> k"
  shows "getSnapshotText a = text_of ps \<or>
    (\<exists>x. text_of ps = x @ LF # getSnapshotText a \<and> k \<le> byteLength (getSnapshotText a) + 4)"
proof -
  from follows obtain j where j: "j \<le> length ps" "oa_tailText a = text_of (drop j ps)"
      "oa_tailStartsAtLineBoundary a = (j = 0 \<or> ps ! (j - 1) = 10)"
      "0 < j \<longrightarrow> oa_maxRollingBytes a \<le> byteLength (oa_tailText a) + 3"
    unfolding follows_def holds_tail_def by (elim exE conjE) (rule that)
  have split: "text_of ps = text_of (take j ps) @ oa_tailText a" using j(2) by (simp flip: text_of_simps(3))
  show ?thesis
  proof (cases "j = 0")
    case True
    then show ?thesis using j by (simp add: getSnapshotText_def)
  next
    case False
    show ?thesis
    proof (cases "ps ! (j - 1) = 10")
      case True
      have "take j ps = take (j - 1) ps @ [ps ! (j - 1)]"
        using j(1) False by (metis Suc_diff_1 Suc_le_lessD gr0I take_Suc_conv_app_nth)
      then have "text_of (take j ps) = text_of (take (j - 1) ps) @ [LF]" using True by (simp add: units_of_def)
      moreover have "k \<le> oa_maxRollingBytes a" using short [of "hd (lines_of (text_of ps))"] by simp
      ultimately show ?thesis using split j True False by (auto simp: getSnapshotText_def)
    next
      case inside: False
      have "scalars (drop j ps)" using follows by (auto simp: follows_def holds_tail_def list_all_iff dest: in_set_dropD)
      then have low: "oa_tailText a = [] \<or> \<not> is_low (hd (oa_tailText a))" using text_of_hd [of "drop j ps"] j(2) by auto
      have cut_open: "\<not> oa_tailStartsAtLineBoundary a" "oa_maxRollingBytes a \<le> byteLength (oa_tailText a) + 3"
        using j(3,4) False inside by auto
      show ?thesis
      proof (cases "index_of [LF] (oa_tailText a)")
        case None
        have "byteLength (oa_tailText a) \<le> byteLength (last (lines_of (text_of ps)))"
          unfolding split by (rule cut_line_size [OF low index_of_no_break [OF None]])
        then show ?thesis using short [of "last (lines_of (text_of ps))"] cut_open(2) k by simp
      next
        case (Some i)
        let ?u = "take i (oa_tailText a)" and ?g = "drop (i + 1) (oa_tailText a)"
        have tail: "oa_tailText a = ?u @ LF # ?g" "LF \<notin> set ?u" using index_of_break [OF Some] by auto
        have "?u = [] \<or> \<not> is_low (hd ?u)" using low by (cases "oa_tailText a"; cases i) auto
        then have "byteLength ?u \<le> byteLength (last (lines_of (text_of (take j ps) @ ?u)))"
          by (rule cut_line_size [OF _ tail(2)])
        moreover have whole: "text_of ps = (text_of (take j ps) @ ?u) @ LF # ?g" using split tail(1) by simp
        then have "last (lines_of (text_of (take j ps) @ ?u)) \<in> set (lines_of (text_of ps))"
          by (simp only: lines_append_LF) simp
        moreover have "byteLength (oa_tailText a) = byteLength ?u + 1 + byteLength ?g"
          using arg_cong [OF tail(1), of byteLength] by (simp add: byteLength_def utf8_lines del: append_take_drop_id)
        ultimately have "k \<le> byteLength ?g + 4" using short cut_open(2) by fastforce
        then show ?thesis using whole Some cut_open(1) by (auto simp: getSnapshotText_def)
      qed
    qed
  qed
qed


lemma truncateTail_cong:
  "max_lines options = max_lines options' \<Longrightarrow> max_bytes options = max_bytes options' \<Longrightarrow>
   truncateTail s options = truncateTail s options'"
  by (simp add: truncateTail_def untruncated_def truncated_to_def Let_def)

lemma truncateTail_totals:
  "tc_truncated (truncateTail s options) =
     (max_lines options < length (splitLinesForCounting s) \<or> max_bytes options < byteLength s)"
  "(tc_truncatedBy (truncateTail s options) = None) = (\<not> tc_truncated (truncateTail s options))"
  "tc_totalLines (truncateTail s options) = length (splitLinesForCounting s)"
  "tc_totalBytes (truncateTail s options) = byteLength s"
  "tc_maxLines (truncateTail s options) = max_lines options" "tc_maxBytes (truncateTail s options) = max_bytes options"
  by (auto simp: truncateTail_def untruncated_def truncated_to_def Let_def split: prod.splits)

lemma snapshot_agrees:
  assumes follows: "follows ps a" and lines: "oa_maxLines a = max_lines options" and size: "oa_maxBytes a = max_bytes options"
    and rolling: "oa_maxRollingBytes a = max (max_bytes options * 2) 1"
    and short: "\<And>l. l \<in> set (lines_of (text_of ps)) \<Longrightarrow> byteLength l + 5 < max_bytes options"
  shows "snapshot_truncation a = truncateTail (text_of ps) options"
proof -
  let ?t = "text_of ps" and ?g = "getSnapshotText a"
  let ?own = "\<lparr>to_maxLines = Some (max_lines options), to_maxBytes = Some (max_bytes options)\<rparr>"
  have own: "truncateTail s ?own = truncateTail s options" for s
  proof (rule truncateTail_cong)
    show "max_lines ?own = max_lines options" by (subst max_lines_def) simp
    show "max_bytes ?own = max_bytes options" by (subst max_bytes_def) simp
  qed
  have totals: "oa_totalLines a = length (splitLinesForCounting ?t)" "oa_totalDecodedBytes a = byteLength ?t"
    using follows by (simp_all add: follows_def counts_def Let_def)
  have "byteLength l + (max_bytes options + 6) \<le> oa_maxRollingBytes a" if "l \<in> set (lines_of ?t)" for l
    using short [OF that] rolling by simp
  from snapshot_text [OF follows this] consider "?g = ?t"
    | x where "?t = x @ LF # ?g" "max_bytes options + 2 \<le> byteLength ?g" by fastforce
  then show ?thesis
  proof cases
    case 1
    then show ?thesis
      unfolding snapshot_truncation_def Let_def own totals lines size 1
      using truncateTail_totals [of ?t options]
      by (cases "truncateTail ?t options"; cases "tc_truncatedBy (truncateTail ?t options)") simp_all
  next
    case 2
    obtain out n b partial where
      loop: "tail_loop (max_lines options) (max_bytes options) (rev (splitLinesForCounting ?g)) [] 0 = (out, n, b, partial)"
      by (metis prod_cases4)
    have long: "max_bytes options < lines_size (splitLinesForCounting ?g)" "max_bytes options < byteLength ?g"
      using 2(2) splitLines_size [of ?g] by simp_all
    have "byteLength ?g < byteLength ?t" using arg_cong [OF 2(1), of byteLength] by (simp add: byteLength_def utf8_lines)
    then have larger: "max_bytes options < byteLength ?t" using long(2) by simp
    have "splitLinesForCounting ?t = lines_of x @ splitLinesForCounting ?g"
      by (subst 2(1)) (rule splitLines_append_LF)
    from truncateTail_long [OF this long(1) larger loop] truncateTail_long [OF _ long loop, of "[]"] show ?thesis
      unfolding snapshot_truncation_def Let_def own totals lines size
      using larger by (simp add: truncated_to_def Let_def)
  qed
qed

definition decode_all :: "int list \<Rightarrow> ustring" where
  "decode_all data = (let (s, dc) = decode_stream data (idle_decoder False) in s @ fst (decode_end dc))"

lemma finish_output_follows:
  assumes inv: "output_inv options data a"
  shows "\<exists>ps. follows ps (finish_output path a) \<and> decode_all data = text_of ps"
    and "oa_maxLines (finish_output path a) = max_lines options" "oa_maxBytes (finish_output path a) = max_bytes options"
      "oa_maxRollingBytes (finish_output path a) = max (max_bytes options * 2) 1"
proof -
  obtain s dc where stop: "decode_end (oa_decoder a) = (s, dc)" by fastforce
  define b where "b = appendDecodedText s (a\<lparr>oa_finished := True, oa_decoder := dc\<rparr>)"
  have result: "finish_output path a = (if shouldUseTempFile b then ensureTempFile path b else b)"
    using inv stop by (simp add: finish_output_def output_inv_def b_def Let_def)
  obtain ps where ps: "follows ps a" "decode_stream data (idle_decoder False) = (text_of ps, oa_decoder a)"
    using inv by (auto simp: output_inv_def)
  obtain qs where qs: "scalars qs" "s = text_of qs" using decode_end_points [OF stop] by blast
  have "follows ps (a\<lparr>oa_finished := True, oa_decoder := dc\<rparr>)"
    by (rule follows_cong [OF _ _ _ _ _ _ _ _ _ ps(1)]) simp_all
  then have "follows (ps @ qs) b" unfolding b_def qs(2) by (rule appendDecodedText_follows [OF _ qs(1)])
  then have "follows (ps @ qs) (finish_output path a)"
    by (rule follows_cong [rotated -1]) (simp_all add: result ensureTempFile_def)
  moreover have "decode_all data = text_of (ps @ qs)" using ps(2) stop qs(2) by (simp add: decode_all_def)
  ultimately show "\<exists>ps. follows ps (finish_output path a) \<and> decode_all data = text_of ps" by blast
  show "oa_maxLines (finish_output path a) = max_lines options" "oa_maxBytes (finish_output path a) = max_bytes options"
      "oa_maxRollingBytes (finish_output path a) = max (max_bytes options * 2) 1"
    using inv by (simp_all add: result b_def ensureTempFile_def output_inv_def)
qed

text \<open>
  C20: the snapshot of a finished output whose lines are shorter than the limit of bytes shows, however the output
  was split into chunks and however much of it was dropped, exactly what \<open>truncateTail\<close> makes of
  the whole decoded output, content, counts and flags alike.
\<close>

theorem snapshot_is_truncateTail:
  assumes "list_all bytes chunks"
    and "\<And>l. l \<in> set (lines_of (decode_all (concat chunks))) \<Longrightarrow> byteLength l + 5 < max_bytes options"
  shows "os_truncation (fst (output_snapshot persist path
      (finish_output path (append_outputs path chunks (new_accumulator options))))) =
    truncateTail (decode_all (concat chunks)) options"
proof -
  let ?a = "append_outputs path chunks (new_accumulator options)"
  have inv: "output_inv options (concat chunks) ?a" by (rule run_inv [OF assms(1)])
  obtain ps where ps: "follows ps (finish_output path ?a)" "decode_all (concat chunks) = text_of ps"
    using finish_output_follows(1) [OF inv] by blast
  have "snapshot_truncation (finish_output path ?a) = truncateTail (text_of ps) options"
    using snapshot_agrees [OF ps(1)] finish_output_follows(2-4) [OF inv] assms(2) unfolding ps(2) by blast
  then show ?thesis by (simp add: output_snapshot_def Let_def ps(2))
qed


section \<open>Examples\<close>

definition demo_output_limits :: truncation_options where
  "demo_output_limits = \<lparr>to_maxLines = Some 2, to_maxBytes = Some 9\<rparr>"

text \<open>Three lines, with a character of three bytes split between two chunks.\<close>

definition demo_chunks :: "int list list" where
  "demo_chunks = [[97, 10, 226], [130], [172, 10], [98, 99]]"

lemma demo_chunks_simps:
  "list_all bytes demo_chunks" "decode_all (concat demo_chunks) = [97, LF, 8364, LF, 98, 99]"
  "list_all (\<lambda>l. byteLength l + 5 < max_bytes demo_output_limits) (lines_of [97, LF, 8364, LF, 98, 99])"
  "tc_content (truncateTail [97, LF, 8364, LF, 98, 99] demo_output_limits) = [8364, LF, 98, 99]"
  "tc_totalLines (truncateTail [97, LF, 8364, LF, 98, 99] demo_output_limits) = 3"
  by code_simp+

theorem snapshot_is_truncateTail_witness:
  "tc_content (os_truncation (fst (output_snapshot True []
      (finish_output [] (append_outputs [] demo_chunks (new_accumulator demo_output_limits)))))) =
    [8364, LF, 98, 99]"
proof -
  have "byteLength l + 5 < max_bytes demo_output_limits" if "l \<in> set (lines_of (decode_all (concat demo_chunks)))" for l
    using that demo_chunks_simps(3) unfolding demo_chunks_simps(2) list_all_iff by blast
  from snapshot_is_truncateTail [OF demo_chunks_simps(1) this] show ?thesis
    unfolding demo_chunks_simps(2) by (simp only: demo_chunks_simps(4))
qed

theorem output_memory_bounded_witness:
  "byteLength (oa_tailText (append_outputs [] demo_chunks (new_accumulator demo_output_limits))) \<le> 36"
proof -
  have "bytes []" "max_bytes demo_output_limits = 9" by code_simp+
  then show ?thesis using output_memory_bounded [OF demo_chunks_simps(1) \<open>bytes []\<close>, of "[]" demo_output_limits]
    unfolding Let_def by simp
qed

text \<open>
  Without the bound on the lines the snapshot may be empty: of one line longer than the buffer, with
  a line break at its end, nothing is left after the first line break of the buffer, where
  \<open>truncateTail\<close> shows the end of the line.
\<close>

lemma long_line_lost:
  "(let options = \<lparr>to_maxLines = Some 2, to_maxBytes = Some 4\<rparr>; data = replicate 20 97 @ [10] in
     tc_content (snapshot_truncation (finish_output [] (append_outputs [] [data] (new_accumulator options)))) = [] \<and>
     tc_content (truncateTail (decode_all data) options) = [97, 97, 97, 97])"
  by code_simp

end
