(* ===== verification/Checkpoints.thy ===== *)
theory Checkpoints
  imports EditTool OutputBuffer
begin

text \<open>
  Undoing edits (\<open>core/edit-checkpoints/checkpoint-manager.ts\<close>): before a prompt first touches a
  file, the text of the file is captured, and undoing back to a prompt writes the captured texts of
  that prompt and all later ones back. The file operations are a record of functions on a world, as
  those of the edit tool are; what undoing needs of them is the locale \<open>checkpoint_files\<close>, with
  \<open>node-fs-ops.ts\<close> on the disk of \<open>EditTool\<close> as its instance. A \<open>Map\<close> is a list of pairs in the
  order of insertion.
\<close>

section \<open>Batches of captured files\<close>

datatype pre_image = PreContent ustring | PreAbsent

record 'w checkpoint_operations =
  co_read :: "ustring \<Rightarrow> 'w \<Rightarrow> (ustring + ustring option) \<times> 'w"
  co_write :: "ustring \<Rightarrow> ustring \<Rightarrow> 'w \<Rightarrow> (ustring + unit) \<times> 'w"
  co_remove :: "ustring \<Rightarrow> 'w \<Rightarrow> (ustring + unit) \<times> 'w"

record edit_batch =
  eb_promptNumber :: int
  eb_promptId :: ustring
  eb_files :: "(ustring \<times> pre_image) list"

record batch_summary =
  bs_promptNumber :: int
  bs_promptId :: ustring
  bs_fileCount :: nat
  bs_paths :: "ustring list"

record undo_result =
  ur_batchesUndone :: nat
  ur_restored :: "ustring list"
  ur_removed :: "ustring list"

text \<open>The manager is the list of its batches, from the oldest to the newest.\<close>

definition batchFor :: "int \<Rightarrow> ustring \<Rightarrow> edit_batch list \<Rightarrow> edit_batch \<times> edit_batch list" where
  "batchFor promptNumber promptId batches =
     (case List.find (\<lambda>b. eb_promptNumber b = promptNumber) batches of
        Some existing \<Rightarrow> (existing, batches)
      | None \<Rightarrow>
          let batch = \<lparr>eb_promptNumber = promptNumber, eb_promptId = promptId, eb_files = []\<rparr>
          in (batch, sort_key eb_promptNumber (batches @ [batch])))"

text \<open>\<open>batch.files.set\<close> on a path that is not yet in the map; the batch is shared with the list.\<close>

definition set_file :: "int \<Rightarrow> ustring \<Rightarrow> pre_image \<Rightarrow> edit_batch list \<Rightarrow> edit_batch list" where
  "set_file promptNumber path pre batches =
     map (\<lambda>b. if eb_promptNumber b = promptNumber then b\<lparr>eb_files := eb_files b @ [(path, pre)]\<rparr> else b) batches"

definition pre_image_of :: "ustring option \<Rightarrow> pre_image" where
  "pre_image_of content = (case content of None \<Rightarrow> PreAbsent | Some c \<Rightarrow> PreContent c)"

definition capture ::
  "'w checkpoint_operations \<Rightarrow> int \<Rightarrow> ustring \<Rightarrow> ustring \<Rightarrow> edit_batch list \<Rightarrow> 'w \<Rightarrow> (ustring + bool) \<times> edit_batch list \<times> 'w" where
  "capture ops promptNumber promptId absPath batches w =
     (let (batch, batches) = batchFor promptNumber promptId batches
      in if map_of (eb_files batch) absPath \<noteq> None then (Inr False, batches, w)
         else case co_read ops absPath w of
                (Inl e, w) \<Rightarrow> (Inl e, batches, w)
              | (Inr content, w) \<Rightarrow> (Inr True, set_file promptNumber absPath (pre_image_of content) batches, w))"

definition restoreCapture :: "int \<Rightarrow> ustring \<Rightarrow> ustring \<Rightarrow> pre_image \<Rightarrow> edit_batch list \<Rightarrow> edit_batch list" where
  "restoreCapture promptNumber promptId absPath pre batches =
     (let (batch, batches) = batchFor promptNumber promptId batches
      in if map_of (eb_files batch) absPath \<noteq> None then batches else set_file promptNumber absPath pre batches)"

text \<open>A persisted snapshot is the list of its batches, each with its list of files.\<close>

definition hydrate :: "edit_batch list option \<Rightarrow> edit_batch list" where
  "hydrate state =
     (case state of
        None \<Rightarrow> []
      | Some batches \<Rightarrow>
          fold (\<lambda>b. fold (\<lambda>(path, pre). restoreCapture (eb_promptNumber b) (eb_promptId b) path pre) (eb_files b)) batches [])"

definition serialize :: "edit_batch list \<Rightarrow> edit_batch list" where
  "serialize batches =
     map (\<lambda>b. \<lparr>eb_promptNumber = eb_promptNumber b, eb_promptId = eb_promptId b, eb_files = eb_files b\<rparr>) batches"

definition getPreImage :: "int \<Rightarrow> ustring \<Rightarrow> edit_batch list \<Rightarrow> pre_image option" where
  "getPreImage promptNumber absPath batches =
     (case List.find (\<lambda>b. eb_promptNumber b = promptNumber) batches of
        None \<Rightarrow> None | Some b \<Rightarrow> map_of (eb_files b) absPath)"

definition hasChanges :: "edit_batch list \<Rightarrow> bool" where
  "hasChanges batches = (length batches > 0)"

definition listBatches :: "edit_batch list \<Rightarrow> batch_summary list" where
  "listBatches batches =
     map (\<lambda>b. \<lparr>bs_promptNumber = eb_promptNumber b, bs_promptId = eb_promptId b, bs_fileCount = length (eb_files b),
                bs_paths = map fst (eb_files b)\<rparr>) (rev batches)"

definition keepAll :: "edit_batch list \<Rightarrow> edit_batch list" where
  "keepAll batches = []"

section \<open>Undoing\<close>

definition keep_first :: "ustring \<times> pre_image \<Rightarrow> (ustring \<times> pre_image) list \<Rightarrow> (ustring \<times> pre_image) list" where
  "keep_first f earliest = (if map_of earliest (fst f) = None then earliest @ [f] else earliest)"

definition earliest_files :: "edit_batch list \<Rightarrow> (ustring \<times> pre_image) list" where
  "earliest_files toUndo = fold (\<lambda>b. fold keep_first (eb_files b)) toUndo []"

fun restore_files ::
  "'w checkpoint_operations \<Rightarrow> (ustring \<times> pre_image) list \<Rightarrow> ustring list \<Rightarrow> ustring list \<Rightarrow> 'w \<Rightarrow>
   (ustring + ustring list \<times> ustring list) \<times> 'w" where
  "restore_files ops [] restored removed w = (Inr (restored, removed), w)"
| "restore_files ops ((path, PreAbsent) # earliest) restored removed w =
     (case co_remove ops path w of
        (Inl e, w) \<Rightarrow> (Inl e, w)
      | (Inr _, w) \<Rightarrow> restore_files ops earliest restored (removed @ [path]) w)"
| "restore_files ops ((path, PreContent content) # earliest) restored removed w =
     (case co_write ops path content w of
        (Inl e, w) \<Rightarrow> (Inl e, w)
      | (Inr _, w) \<Rightarrow> restore_files ops earliest (restored @ [path]) removed w)"

definition undoSuffix ::
  "'w checkpoint_operations \<Rightarrow> nat \<Rightarrow> edit_batch list \<Rightarrow> 'w \<Rightarrow> (ustring + undo_result) \<times> edit_batch list \<times> 'w" where
  "undoSuffix ops startIndex batches w =
     (let toUndo = drop startIndex batches
      in case restore_files ops (earliest_files toUndo) [] [] w of
           (Inl e, w) \<Rightarrow> (Inl e, batches, w)
         | (Inr (restored, removed), w) \<Rightarrow>
             (Inr \<lparr>ur_batchesUndone = length toUndo, ur_restored = restored, ur_removed = removed\<rparr>,
              take startIndex batches, w))"

definition nothing_undone :: undo_result where
  "nothing_undone = \<lparr>ur_batchesUndone = 0, ur_restored = [], ur_removed = []\<rparr>"

definition undoLastBatches ::
  "'w checkpoint_operations \<Rightarrow> int \<Rightarrow> edit_batch list \<Rightarrow> 'w \<Rightarrow> (ustring + undo_result) \<times> edit_batch list \<times> 'w" where
  "undoLastBatches ops n batches w =
     (if n \<le> 0 \<or> length batches = 0 then (Inr nothing_undone, batches, w)
      else undoSuffix ops (nat (max 0 (int (length batches) - n))) batches w)"

definition undoToPrompt ::
  "'w checkpoint_operations \<Rightarrow> int \<Rightarrow> edit_batch list \<Rightarrow> 'w \<Rightarrow> (ustring + undo_result) \<times> edit_batch list \<times> 'w" where
  "undoToPrompt ops m batches w =
     (case find_index (\<lambda>b. eb_promptNumber b \<ge> m) batches of
        None \<Rightarrow> (Inr nothing_undone, batches, w)
      | Some startIndex \<Rightarrow> undoSuffix ops startIndex batches w)"

section \<open>The operations of the file system\<close>

text \<open>Only a missing file is no error for \<open>read\<close>; \<open>rm\<close> with \<open>force\<close> ignores a missing file.\<close>

definition nodeCheckpointFsOps :: "disk checkpoint_operations" where
  "nodeCheckpointFsOps =
     \<lparr>co_read = (\<lambda>path d. (Inr (dk_files d path), tick d)),
      co_write = fsWriteFile,
      co_remove = (\<lambda>path d.
        if path \<in> set (dk_readonly d) then (Inl (eacces path), tick d)
        else (Inr (), tick (d\<lparr>dk_files := (dk_files d)(path := None)\<rparr>)))\<rparr>"

section \<open>What the files were\<close>

text \<open>
  The abstraction: a list of batches stands for the files as they were before the first of its
  captures, the earliest captured text of each captured file and the present one of every other.
\<close>

definition pre_text :: "pre_image \<Rightarrow> ustring option" where
  "pre_text pre = (case pre of PreContent c \<Rightarrow> Some c | PreAbsent \<Rightarrow> None)"

definition captured :: "edit_batch list \<Rightarrow> (ustring \<times> pre_image) list" where
  "captured batches = concat (map eb_files batches)"

definition files_before :: "edit_batch list \<Rightarrow> (ustring \<Rightarrow> ustring option) \<Rightarrow> ustring \<Rightarrow> ustring option" where
  "files_before batches files p =
     (case map_of (captured batches) p of None \<Rightarrow> files p | Some pre \<Rightarrow> pre_text pre)"

lemma pre_text_of [simp]: "pre_text (pre_image_of c) = c"
  by (simp add: pre_text_def pre_image_of_def split: option.splits)

lemma captured_simps [simp]:
  "captured [] = []" "captured (b # bs) = eb_files b @ captured bs" "captured (bs @ cs) = captured bs @ captured cs"
  by (simp_all add: captured_def)

text \<open>Collecting the earliest captures forgets later ones and nothing else.\<close>

lemma keep_first_all:
  "map_of (fold keep_first fs acc) = map_of (acc @ fs) \<and>
   (distinct (map fst acc) \<longrightarrow> distinct (map fst (fold keep_first fs acc)))"
proof (induction fs arbitrary: acc)
  case (Cons f fs)
  show ?case
  proof (cases "map_of acc (fst f) = None")
    case True
    then have "fst f \<notin> fst ` set acc" by (simp add: map_of_eq_None_iff)
    then show ?thesis using Cons.IH [of "acc @ [f]"] True by (simp add: keep_first_def)
  next
    case False
    then have "map_of (acc @ f # fs) = map_of (acc @ fs)"
      by (cases f) (auto simp: fun_eq_iff map_add_def split: option.splits)
    moreover have "keep_first f acc = acc" using False by (simp add: keep_first_def)
    ultimately show ?thesis using Cons.IH [of acc] by simp
  qed
qed simp

lemma earliest_files_of:
  "map_of (earliest_files bs) = map_of (captured bs)" "distinct (map fst (earliest_files bs))"
proof -
  have "fold (\<lambda>b. fold keep_first (eb_files b)) bs acc = fold keep_first (captured bs) acc" for acc
    by (induction bs arbitrary: acc) simp_all
  then show "map_of (earliest_files bs) = map_of (captured bs)" "distinct (map fst (earliest_files bs))"
    using keep_first_all [of "captured bs" "[]"] by (simp_all add: earliest_files_def)
qed


section \<open>What undoing needs of the files\<close>

locale checkpoint_files =
  fixes ops :: "'w checkpoint_operations" and files :: "'w \<Rightarrow> ustring \<Rightarrow> ustring option"
  assumes read_keeps: "files (snd (co_read ops p w)) = files w"
    and read_text: "co_read ops p w = (Inr c, w') \<Longrightarrow> c = files w p"
    and write_stores: "co_write ops p t w = (Inr u, w') \<Longrightarrow> files w' = (files w)(p \<mapsto> t)"
    and write_fails: "co_write ops p t w = (Inl e, w') \<Longrightarrow> files w' = files w"
    and remove_drops: "co_remove ops p w = (Inr u, w') \<Longrightarrow> files w' = (files w)(p := None)"
    and remove_fails: "co_remove ops p w = (Inl e, w') \<Longrightarrow> files w' = files w"
begin

definition put_back :: "ustring \<times> pre_image \<Rightarrow> 'w \<Rightarrow> (ustring + unit) \<times> 'w" where
  "put_back f w = (case snd f of PreAbsent \<Rightarrow> co_remove ops (fst f) w | PreContent c \<Rightarrow> co_write ops (fst f) c w)"

lemma restore_files_step:
  "restore_files ops (f # fs) restored removed w =
     (case put_back f w of
        (Inl e, w1) \<Rightarrow> (Inl e, w1)
      | (Inr _, w1) \<Rightarrow>
          if snd f = PreAbsent then restore_files ops fs restored (removed @ [fst f]) w1
          else restore_files ops fs (restored @ [fst f]) removed w1)"
  by (cases f; cases "snd f") (auto simp: put_back_def split: prod.splits sum.splits)

lemma put_back_files:
  "put_back f w = (Inr u, w1) \<Longrightarrow> files w1 = (files w)(fst f := pre_text (snd f))"
  "put_back f w = (Inl e, w1) \<Longrightarrow> files w1 = files w"
  using write_stores write_fails remove_drops remove_fails
  by (auto simp: put_back_def pre_text_def split: pre_image.splits)

lemma restore_files_result:
  "restore_files ops fs restored removed w = (Inr r, w') \<Longrightarrow> distinct (map fst fs) \<Longrightarrow>
   files w' = (\<lambda>p. case map_of fs p of None \<Rightarrow> files w p | Some pre \<Rightarrow> pre_text pre)"
proof (induction fs arbitrary: restored removed w)
  case (Cons f fs)
  then obtain u w1 where w1: "put_back f w = (Inr u, w1)"
    by (auto simp: restore_files_step split: prod.splits sum.splits)
  have "map_of fs (fst f) = None" using Cons.prems(2) by (simp add: map_of_eq_None_iff)
  moreover have "files w' = (\<lambda>p. case map_of fs p of None \<Rightarrow> files w1 p | Some pre \<Rightarrow> pre_text pre)"
    using Cons.prems w1 Cons.IH by (auto simp: restore_files_step split: if_splits)
  ultimately show ?case using put_back_files(1) [OF w1] by (cases f) (auto simp: fun_eq_iff split: option.splits)
qed simp

lemma restore_files_others:
  "restore_files ops fs restored removed w = (r, w') \<Longrightarrow> map_of fs p = None \<Longrightarrow> files w' p = files w p"
proof (induction fs arbitrary: restored removed w)
  case (Cons f fs)
  obtain r1 w1 where w1: "put_back f w = (r1, w1)" by fastforce
  have p: "p \<noteq> fst f" "map_of fs p = None" using Cons.prems(2) by (cases f; auto split: if_splits)+
  then have "files w1 p = files w p" using put_back_files w1 by (cases r1) auto
  then show ?case
    using Cons.prems(1) Cons.IH [OF _ p(2)] w1 by (auto simp: restore_files_step split: sum.splits if_splits)
qed simp

lemma undoSuffix_result:
  assumes "undoSuffix ops k bs w = (Inr r, bs', w')"
  shows "bs' = take k bs" and "files w' = files_before (drop k bs) (files w)"
proof -
  obtain r1 w1 where run: "restore_files ops (earliest_files (drop k bs)) [] [] w = (r1, w1)" by fastforce
  then obtain x where "r1 = Inr x" "bs' = take k bs" "w1 = w'"
    using assms by (auto simp: undoSuffix_def Let_def split: sum.splits)
  then show "bs' = take k bs" and "files w' = files_before (drop k bs) (files w)"
    using restore_files_result run earliest_files_of [of "drop k bs"] by (auto simp: files_before_def)
qed

lemma undoSuffix_failed:
  assumes "undoSuffix ops k bs w = (Inl e, bs', w')"
  shows "bs' = bs" and "map_of (captured (drop k bs)) p = None \<Longrightarrow> files w' p = files w p"
proof -
  obtain r1 w1 where run: "restore_files ops (earliest_files (drop k bs)) [] [] w = (r1, w1)" by fastforce
  then have "bs' = bs" "w1 = w'" using assms by (auto simp: undoSuffix_def Let_def split: sum.splits)
  then show "bs' = bs" and "map_of (captured (drop k bs)) p = None \<Longrightarrow> files w' p = files w p"
    using restore_files_others [OF run] earliest_files_of(1) [of "drop k bs"] by auto
qed

end

interpretation node_files: checkpoint_files nodeCheckpointFsOps dk_files
  by unfold_locales (auto simp: nodeCheckpointFsOps_def fsWriteFile_def tick_def split: if_splits)


section \<open>Sessions of captured edits\<close>

definition batches_ok :: "edit_batch list \<Rightarrow> bool" where
  "batches_ok batches =
     (sorted_wrt (<) (map eb_promptNumber batches) \<and> (\<forall>b\<in>set batches. distinct (map fst (eb_files b))))"

abbreviation batches_from :: "int \<Rightarrow> edit_batch list \<Rightarrow> edit_batch list" where
  "batches_from n \<equiv> filter (\<lambda>b. n \<le> eb_promptNumber b)"

text \<open>
  How the session uses the manager: prompts have growing numbers; a file is captured before it
  changes, in whatever way; edits are kept, undone, or undone in part when a file operation fails;
  and the session is reopened from the stored batches. The first list has, for each prompt that can
  still be undone, the files as they were when it began.
\<close>

inductive edit_session ::
  "'w checkpoint_operations \<Rightarrow> ('w \<Rightarrow> ustring \<Rightarrow> ustring option) \<Rightarrow>
   (int \<times> (ustring \<Rightarrow> ustring option)) list \<Rightarrow> edit_batch list \<Rightarrow> 'w \<Rightarrow> bool"
  for ops files where
  session_opened: "edit_session ops files [] [] w"
| session_prompted: "edit_session ops files (starts @ [(n, files w)]) bs w"
  if "edit_session ops files starts bs w" and "\<forall>s\<in>set starts. fst s < n" and "\<forall>b\<in>set bs. eb_promptNumber b < n"
| session_mutated: "edit_session ops files (starts @ [(n, d)]) bs' w2"
  if "edit_session ops files (starts @ [(n, d)]) bs w" and "\<forall>b\<in>set bs. eb_promptNumber b \<le> n"
    and "capture ops n promptId p bs w = (Inr new, bs', w1)" and "\<forall>q. q \<noteq> p \<longrightarrow> files w2 q = files w1 q"
| session_capture_failed: "edit_session ops files (starts @ [(n, d)]) bs' w1"
  if "edit_session ops files (starts @ [(n, d)]) bs w" and "\<forall>b\<in>set bs. eb_promptNumber b \<le> n"
    and "capture ops n promptId p bs w = (Inl e, bs', w1)"
| session_kept: "edit_session ops files [(n, files w)] (keepAll bs) w"
  if "edit_session ops files (starts @ [(n, d)]) bs w"
| session_undone: "edit_session ops files (filter (\<lambda>s. fst s < m) starts) bs' w'"
  if "edit_session ops files starts bs w" and "undoToPrompt ops m bs w = (Inr r, bs', w')"
| session_undo_failed: "edit_session ops files (filter (\<lambda>s. fst s \<le> m) starts) bs' w'"
  if "edit_session ops files starts bs w" and "undoToPrompt ops m bs w = (Inl e, bs', w')"
| session_reopened: "edit_session ops files starts (hydrate (Some (serialize bs))) w"
  if "edit_session ops files starts bs w"

lemma batches_snoc:
  "batches_ok (bs @ [b]) \<longleftrightarrow> batches_ok bs \<and> (\<forall>x\<in>set bs. eb_promptNumber x < eb_promptNumber b) \<and> distinct (map fst (eb_files b))"
  by (auto simp: batches_ok_def sorted_wrt_append)

lemma batches_sub: "batches_ok (xs @ ys) \<Longrightarrow> batches_ok xs \<and> batches_ok ys"
  by (auto simp: batches_ok_def sorted_wrt_append)

lemma find_append: "List.find P (xs @ ys) = (case List.find P xs of None \<Rightarrow> List.find P ys | Some x \<Rightarrow> Some x)"
  by (induction xs) auto

lemma sorted_wrt_map_filter: "sorted_wrt R (map f xs) \<Longrightarrow> sorted_wrt R (map f (filter P xs))"
  by (induction xs) auto

text \<open>The batch of the newest prompt is the last one, old or new.\<close>

lemma batchFor_old:
  assumes "batches_ok (front @ [b])"
  shows "batchFor (eb_promptNumber b) i (front @ [b]) = (b, front @ [b])"
proof -
  have "List.find (\<lambda>x. eb_promptNumber x = eb_promptNumber b) front = None"
    using assms by (auto simp: find_None_iff batches_snoc)
  then show ?thesis by (simp add: batchFor_def find_append)
qed

lemma batchFor_new:
  fixes i :: ustring
  assumes "batches_ok bs" and "\<forall>x\<in>set bs. eb_promptNumber x < n"
  defines "b \<equiv> \<lparr>eb_promptNumber = n, eb_promptId = i, eb_files = []\<rparr>"
  shows "batchFor n i bs = (b, bs @ [b])" and "batches_ok (bs @ [b])"
proof -
  show ok: "batches_ok (bs @ [b])" using assms by (simp add: batches_snoc b_def)
  then have "sorted (map eb_promptNumber (bs @ [b]))"
    unfolding batches_ok_def by (blast intro: sorted_wrt_mono_rel strict_sorted_imp_sorted)
  then have "sort_key eb_promptNumber (bs @ [b]) = bs @ [b]" by (rule sort_key_id_if_sorted)
  moreover have "List.find (\<lambda>x. eb_promptNumber x = n) bs = None" using assms(2) by (auto simp: find_None_iff)
  ultimately show "batchFor n i bs = (b, bs @ [b])" by (simp add: batchFor_def b_def Let_def)
qed

lemma batchFor_last:
  assumes ok: "batches_ok bs" and newest: "\<forall>b\<in>set bs. eb_promptNumber b \<le> n"
  shows "\<exists>front b. batchFor n i bs = (b, front @ [b]) \<and> eb_promptNumber b = n \<and> batches_ok (front @ [b]) \<and>
    (bs = front @ [b] \<or> bs = front \<and> eb_files b = [])"
proof (cases "\<exists>b\<in>set bs. eb_promptNumber b = n")
  case True
  then have "bs \<noteq> []" by auto
  then obtain front b where bs: "bs = front @ [b]" by (metis append_butlast_last_id)
  have front: "\<forall>x\<in>set front. eb_promptNumber x < eb_promptNumber b" using ok bs batches_snoc by blast
  then have "eb_promptNumber b = n" using True newest bs by fastforce
  then show ?thesis using ok bs batchFor_old [of front b i] by blast
next
  case False
  then have "\<forall>x\<in>set bs. eb_promptNumber x < n" using newest by force
  then show ?thesis using batchFor_new [OF ok, of n i] by fastforce
qed

lemma set_file_last:
  assumes "batches_ok (front @ [b])" and "eb_promptNumber b = n"
  shows "set_file n p pre (front @ [b]) = front @ [b\<lparr>eb_files := eb_files b @ [(p, pre)]\<rparr>]"
proof -
  have "\<forall>x\<in>set front. eb_promptNumber x \<noteq> n" using assms by (auto simp: batches_snoc)
  then show ?thesis using assms(2) by (auto simp: set_file_def intro: map_idI)
qed

lemma files_before_append: "files_before xs (files_before ys f) = files_before (xs @ ys) f"
  by (auto simp: files_before_def fun_eq_iff map_add_def split: option.splits)

lemma files_before_cong: "captured xs = captured ys \<Longrightarrow> files_before xs f = files_before ys f"
  by (simp add: files_before_def fun_eq_iff)

lemma files_before_Nil [simp]: "files_before [] f = f"
  by (simp add: files_before_def fun_eq_iff)

lemma batches_split:
  assumes "batches_ok bs"
  shows "case find_index (\<lambda>b. eb_promptNumber b \<ge> m) bs of
      None \<Rightarrow> batches_from m bs = []
    | Some i \<Rightarrow> drop i bs = batches_from m bs \<and> take i bs = filter (\<lambda>b. eb_promptNumber b < m) bs"
  using assms
proof (induction bs)
  case (Cons b bs)
  then have later: "\<forall>x\<in>set bs. eb_promptNumber b < eb_promptNumber x" and ok: "batches_ok bs" by (auto simp: batches_ok_def)
  show ?case
  proof (cases "eb_promptNumber b \<ge> m")
    case True
    then have "filter (\<lambda>b. m \<le> eb_promptNumber b) bs = bs" using later by (intro filter_True) auto
    moreover have "filter (\<lambda>b. eb_promptNumber b < m) bs = []" using True later by (intro filter_False) auto
    ultimately show ?thesis using True by simp
  next
    case False
    then show ?thesis using Cons.IH [OF ok] by (simp split: option.splits)
  qed
qed simp


context checkpoint_files
begin

text \<open>
  The invariant: for each prompt that can be undone, the batches from it on stand for the files as
  they were when it began.
\<close>

definition keeps_starts :: "(int \<times> (ustring \<Rightarrow> ustring option)) list \<Rightarrow> edit_batch list \<Rightarrow> 'w \<Rightarrow> bool" where
  "keeps_starts starts bs w =
     (batches_ok bs \<and> sorted_wrt (<) (map fst starts) \<and>
      (\<forall>(n, d)\<in>set starts. files_before (batches_from n bs) (files w) = d))"

lemma capture_newest:
  assumes ok: "batches_ok bs" and newest: "\<forall>b\<in>set bs. eb_promptNumber b \<le> n"
    and run: "capture ops n i p bs w = (Inr new, bs', w1)"
  shows "batches_ok bs' \<and> files w1 = files w \<and>
    (\<forall>k\<le>n. map_of (captured (batches_from k bs')) p \<noteq> None \<and>
      (captured (batches_from k bs') = captured (batches_from k bs) \<or>
       captured (batches_from k bs') = captured (batches_from k bs) @ [(p, pre_image_of (files w p))]))"
proof -
  obtain front b where last: "batchFor n i bs = (b, front @ [b])" "eb_promptNumber b = n" "batches_ok (front @ [b])"
      "bs = front @ [b] \<or> bs = front \<and> eb_files b = []"
    using batchFor_last [OF ok newest] by blast
  then have same: "captured (batches_from k (front @ [b])) = captured (batches_from k bs)" for k by auto
  show ?thesis
  proof (cases "map_of (eb_files b) p = None")
    case False
    then have kept: "bs' = front @ [b]" "w1 = w" using run last(1) by (auto simp: capture_def)
    have "map_of (captured (batches_from k (front @ [b]))) p \<noteq> None" if "k \<le> n" for k
      using False that last(2) by (auto simp: map_add_def split: option.splits)
    then show ?thesis using last(3) unfolding kept same by simp
  next
    case True
    let ?b = "b\<lparr>eb_files := eb_files b @ [(p, pre_image_of (files w p))]\<rparr>"
    obtain c where read: "co_read ops p w = (Inr c, w1)" "bs' = set_file n p (pre_image_of c) (front @ [b])"
      using run last(1) True by (auto simp: capture_def split: prod.splits sum.splits)
    then have bs': "bs' = front @ [?b]" using set_file_last [OF last(3,2)] read_text [OF read(1)] by simp
    have "p \<notin> fst ` set (eb_files b)" using True by (simp add: map_of_eq_None_iff)
    then have "batches_ok bs'" using last(3) by (simp add: bs' batches_snoc)
    moreover have "captured (batches_from k bs') = captured (batches_from k bs) @ [(p, pre_image_of (files w p))]" if "k \<le> n" for k
      using that last(2) by (simp add: bs' flip: same)
    moreover have "map_of (xs @ [(p, y)]) p \<noteq> None" for xs :: "(ustring \<times> pre_image) list" and y
      by (auto simp: map_add_def split: option.splits)
    moreover have "files w1 = files w" using read_keeps [of p w] read(1) by simp
    ultimately show ?thesis by simp
  qed
qed

lemma capture_failed:
  assumes "batches_ok bs" and "\<forall>b\<in>set bs. eb_promptNumber b \<le> n" and "capture ops n i p bs w = (Inl e, bs', w1)"
  shows "batches_ok bs' \<and> files w1 = files w \<and> captured (batches_from k bs') = captured (batches_from k bs)"
proof -
  obtain front b where last: "batchFor n i bs = (b, front @ [b])" "eb_promptNumber b = n" "batches_ok (front @ [b])"
      "bs = front @ [b] \<or> bs = front \<and> eb_files b = []"
    using batchFor_last [OF assms(1,2)] by blast
  then have same: "captured (batches_from k (front @ [b])) = captured (batches_from k bs)" by auto
  have "co_read ops p w = (Inl e, w1)" "bs' = front @ [b]"
    using assms(3) last(1) by (auto simp: capture_def split: prod.splits sum.splits if_splits)
  then show ?thesis using read_keeps [of p w] last(3) same by simp
qed

lemma mutated_starts:
  assumes keeps: "keeps_starts (starts @ [(n, d)]) bs w" and newest: "\<forall>b\<in>set bs. eb_promptNumber b \<le> n"
    and run: "capture ops n i p bs w = (Inr new, bs', w1)" and only: "\<forall>q. q \<noteq> p \<longrightarrow> files w2 q = files w1 q"
  shows "keeps_starts (starts @ [(n, d)]) bs' w2"
proof -
  have ok: "batches_ok bs" using keeps by (simp add: keeps_starts_def)
  note capture = capture_newest [OF ok newest run]
  have "files_before (batches_from k bs') (files w2) = files_before (batches_from k bs) (files w)" if "k \<le> n" for k
  proof
    fix q
    have cap: "map_of (captured (batches_from k bs')) p \<noteq> None"
      "captured (batches_from k bs') = captured (batches_from k bs) \<or>
       captured (batches_from k bs') = captured (batches_from k bs) @ [(p, pre_image_of (files w p))]"
      using capture that by auto
    show "files_before (batches_from k bs') (files w2) q = files_before (batches_from k bs) (files w) q"
      using cap only capture by (cases "q = p") (auto simp: files_before_def map_add_def split: option.splits)
  qed
  moreover have "k \<le> n" if "(k, e) \<in> set (starts @ [(n, d)])" for k e
    using keeps that by (force simp: keeps_starts_def sorted_wrt_append)
  ultimately show ?thesis using keeps capture unfolding keeps_starts_def by fastforce
qed

end


context checkpoint_files
begin

lemma captures_keep_starts:
  assumes keeps: "keeps_starts (starts @ [(n, d)]) bs w" and newest: "\<forall>b\<in>set bs. eb_promptNumber b \<le> n"
    and run: "capture ops n i p bs w = (Inl e, bs', w1)"
  shows "keeps_starts (starts @ [(n, d)]) bs' w1"
proof -
  have "batches_ok bs" using keeps by (simp add: keeps_starts_def)
  note failed = capture_failed [OF this newest run]
  then have "files_before (batches_from k bs') (files w1) = files_before (batches_from k bs) (files w)" for k
    by (metis files_before_cong)
  then show ?thesis using keeps failed by (simp add: keeps_starts_def)
qed

lemma prompted_starts:
  assumes "keeps_starts starts bs w" and "\<forall>s\<in>set starts. fst s < n" and "\<forall>b\<in>set bs. eb_promptNumber b < n"
  shows "keeps_starts (starts @ [(n, files w)]) bs w"
proof -
  have "batches_from n bs = []" using assms(3) by (intro filter_False) auto
  then show ?thesis using assms by (auto simp: keeps_starts_def sorted_wrt_append)
qed

lemma undone_starts:
  assumes keeps: "keeps_starts starts bs w" and run: "undoToPrompt ops m bs w = (Inr r, bs', w')"
  shows "keeps_starts (filter (\<lambda>s. fst s < m) starts) bs' w'" and "files w' = files_before (batches_from m bs) (files w)"
    and "bs' = filter (\<lambda>b. eb_promptNumber b < m) bs"
proof -
  have ok: "batches_ok bs" using keeps by (simp add: keeps_starts_def)
  have split: "filter (\<lambda>b. eb_promptNumber b < m) bs @ batches_from m bs = bs"
  proof (cases "find_index (\<lambda>b. eb_promptNumber b \<ge> m) bs")
    case None
    then show ?thesis
      using batches_split [OF ok, of m] by (auto simp: filter_empty_conv not_le intro: filter_True)
  next
    case (Some i)
    then have "drop i bs = batches_from m bs" "take i bs = filter (\<lambda>b. eb_promptNumber b < m) bs"
      using batches_split [OF ok, of m] by auto
    then show ?thesis by (metis append_take_drop_id)
  qed
  have result: "bs' = filter (\<lambda>b. eb_promptNumber b < m) bs \<and> files w' = files_before (batches_from m bs) (files w)"
  proof (cases "find_index (\<lambda>b. eb_promptNumber b \<ge> m) bs")
    case None
    then show ?thesis using run batches_split [OF ok, of m] split by (simp add: undoToPrompt_def)
  next
    case (Some i)
    then show ?thesis using run batches_split [OF ok, of m] undoSuffix_result [of i bs w r bs' w'] by (simp add: undoToPrompt_def)
  qed
  then show "files w' = files_before (batches_from m bs) (files w)" "bs' = filter (\<lambda>b. eb_promptNumber b < m) bs"
    by simp_all
  have "batches_from k bs = batches_from k bs' @ batches_from m bs" if "k < m" for k
  proof -
    have "batches_from k (batches_from m bs) = batches_from m bs" using that by (intro filter_True) auto
    then show ?thesis using arg_cong [OF split, of "batches_from k"] result by simp
  qed
  then have "files_before (batches_from k bs') (files w') = files_before (batches_from k bs) (files w)" if "k < m" for k
    using that result by (simp add: files_before_append)
  moreover have "batches_ok bs'" using ok batches_sub [of bs' "batches_from m bs"] split result by simp
  ultimately show "keeps_starts (filter (\<lambda>s. fst s < m) starts) bs' w'"
    using keeps by (auto simp: keeps_starts_def intro: sorted_wrt_map_filter)
qed

lemma undo_failed_starts:
  assumes keeps: "keeps_starts starts bs w" and run: "undoToPrompt ops m bs w = (Inl e, bs', w')"
  shows "keeps_starts (filter (\<lambda>s. fst s \<le> m) starts) bs' w'" and "bs' = bs"
proof -
  have ok: "batches_ok bs" using keeps by (simp add: keeps_starts_def)
  obtain i where i: "find_index (\<lambda>b. eb_promptNumber b \<ge> m) bs = Some i" "undoSuffix ops i bs w = (Inl e, bs', w')"
    using run by (auto simp: undoToPrompt_def split: option.splits)
  have drop: "drop i bs = batches_from m bs" using batches_split [OF ok, of m] i(1) by simp
  show same: "bs' = bs" by (rule undoSuffix_failed(1) [OF i(2)])
  have "files_before (batches_from k bs) (files w') = files_before (batches_from k bs) (files w)" if "k \<le> m" for k
  proof
    fix p
    have "set (captured (batches_from m bs)) \<subseteq> set (captured (batches_from k bs))"
      using that by (auto simp: captured_def)
    then have "map_of (captured (batches_from k bs)) p = None \<Longrightarrow> map_of (captured (batches_from m bs)) p = None"
      by (auto simp: map_of_eq_None_iff)
    then show "files_before (batches_from k bs) (files w') p = files_before (batches_from k bs) (files w) p"
      using undoSuffix_failed(2) [OF i(2), of p] drop by (auto simp: files_before_def split: option.splits)
  qed
  then show "keeps_starts (filter (\<lambda>s. fst s \<le> m) starts) bs' w'"
    using keeps same by (auto simp: keeps_starts_def intro: sorted_wrt_map_filter)
qed

end


section \<open>Storing and reopening\<close>

lemma restore_captures:
  "batches_ok (front @ [b]) \<Longrightarrow> distinct (map fst (eb_files b @ fs)) \<Longrightarrow>
   fold (\<lambda>(p, pre). restoreCapture (eb_promptNumber b) i p pre) fs (front @ [b]) = front @ [b\<lparr>eb_files := eb_files b @ fs\<rparr>]"
proof (induction fs arbitrary: b)
  case (Cons f fs)
  obtain p pre where f: "f = (p, pre)" by fastforce
  let ?b = "b\<lparr>eb_files := eb_files b @ [(p, pre)]\<rparr>"
  have "map_of (eb_files b) p = None" using Cons.prems(2) f by (auto simp: map_of_eq_None_iff)
  then have step: "restoreCapture (eb_promptNumber b) i p pre (front @ [b]) = front @ [?b]"
    using batchFor_old [OF Cons.prems(1), of i] set_file_last [OF Cons.prems(1) refl]
    by (simp add: restoreCapture_def)
  have "batches_ok (front @ [?b])" using Cons.prems f by (simp add: batches_snoc)
  from Cons.IH [OF this] show ?case using Cons.prems(2) f step by simp
qed simp

lemma restore_batch:
  assumes "batches_ok front" and "\<forall>x\<in>set front. eb_promptNumber x < eb_promptNumber b" and "distinct (map fst (eb_files b))"
  shows "fold (\<lambda>(p, pre). restoreCapture (eb_promptNumber b) (eb_promptId b) p pre) (eb_files b) front =
    front @ (if eb_files b = [] then [] else [b])"
proof (cases "eb_files b")
  case (Cons f fs)
  obtain p pre where f: "f = (p, pre)" by fastforce
  let ?new = "\<lparr>eb_promptNumber = eb_promptNumber b, eb_promptId = eb_promptId b, eb_files = []\<rparr>"
  let ?b = "\<lparr>eb_promptNumber = eb_promptNumber b, eb_promptId = eb_promptId b, eb_files = [f]\<rparr>"
  have step: "restoreCapture (eb_promptNumber b) (eb_promptId b) p pre front = front @ [?b]"
    using batchFor_new [OF assms(1,2), of "eb_promptId b"]
      set_file_last [of front ?new "eb_promptNumber b" p pre] f
    by (simp add: restoreCapture_def)
  have "batches_ok (front @ [?b])" using assms by (simp add: batches_snoc)
  from restore_captures [OF this, of fs "eb_promptId b"] show ?thesis using assms(3) Cons f step by simp
qed simp

lemma reopened_batches: "batches_ok bs \<Longrightarrow> hydrate (Some (serialize bs)) = filter (\<lambda>b. eb_files b \<noteq> []) bs"
proof (induction bs rule: rev_induct)
  case (snoc b bs)
  then have ok: "batches_ok bs" "\<forall>x\<in>set bs. eb_promptNumber x < eb_promptNumber b" "distinct (map fst (eb_files b))"
    by (simp_all add: batches_snoc)
  have "batches_ok (filter P bs)" for P using ok(1) by (auto simp: batches_ok_def intro: sorted_wrt_map_filter)
  then show ?case
    using restore_batch [of "filter (\<lambda>b. eb_files b \<noteq> []) bs" b] ok(2,3) snoc.IH [OF ok(1)]
    by (simp add: hydrate_def serialize_def)
qed (simp add: hydrate_def serialize_def)

lemma reopened_captures: "captured (batches_from k (filter (\<lambda>b. eb_files b \<noteq> []) bs)) = captured (batches_from k bs)"
  by (induction bs) auto

context checkpoint_files
begin

lemma edit_session_keeps: "edit_session ops files starts bs w \<Longrightarrow> keeps_starts starts bs w"
proof (induction rule: edit_session.induct)
  case (session_opened w)
  show ?case by (simp add: keeps_starts_def batches_ok_def)
next
  case (session_prompted starts bs w n)
  then show ?case by (blast intro: prompted_starts)
next
  case (session_mutated starts n d bs w promptId p new bs' w1 w2)
  then show ?case by (blast intro: mutated_starts)
next
  case (session_capture_failed starts n d bs w promptId p e bs' w1)
  then show ?case by (blast intro: captures_keep_starts)
next
  case (session_kept starts n d bs w)
  show ?case by (simp add: keeps_starts_def batches_ok_def keepAll_def)
next
  case (session_undone starts bs w m r bs' w')
  then show ?case by (blast intro: undone_starts(1))
next
  case (session_undo_failed starts bs w m e bs' w')
  then show ?case by (blast intro: undo_failed_starts(1))
next
  case (session_reopened starts bs w)
  then have "batches_ok bs" by (simp add: keeps_starts_def)
  moreover from this have "batches_ok (filter (\<lambda>b. eb_files b \<noteq> []) bs)"
    by (auto simp: batches_ok_def intro: sorted_wrt_map_filter)
  moreover note files_before_cong [OF reopened_captures]
  ultimately show ?case using session_reopened.IH by (simp add: reopened_batches keeps_starts_def)
qed

lemma undo_restores:
  assumes "edit_session ops files starts bs w" and "(m, d) \<in> set starts" and "undoToPrompt ops m bs w = (Inr r, bs', w')"
  shows "files w' = d \<and> bs' = filter (\<lambda>b. eb_promptNumber b < m) bs"
  using edit_session_keeps [OF assms(1)] undone_starts(2,3) [OF _ assms(3)] assms(2) by (auto simp: keeps_starts_def)

end

section \<open>Undoing on the disk\<close>

lemma node_restore_succeeds:
  "\<forall>p\<in>fst ` set fs. p \<notin> set (dk_readonly d) \<Longrightarrow>
   \<exists>x d'. restore_files nodeCheckpointFsOps fs restored removed d = (Inr x, d')"
proof (induction fs arbitrary: restored removed d)
  case (Cons f fs)
  obtain p pre where f: "f = (p, pre)" by fastforce
  let ?d = "tick (d\<lparr>dk_files := (dk_files d)(p := pre_text pre)\<rparr>)"
  have "\<forall>q\<in>fst ` set fs. q \<notin> set (dk_readonly ?d)" using Cons.prems by (simp add: tick_def)
  from Cons.IH [OF this] show ?case
    using Cons.prems f by (cases pre) (auto simp: nodeCheckpointFsOps_def fsWriteFile_def pre_text_def)
qed simp

lemma node_undo_succeeds:
  assumes "\<forall>b\<in>set bs. \<forall>p\<in>fst ` set (eb_files b). p \<notin> set (dk_readonly d)"
  shows "\<exists>r bs' d'. undoToPrompt nodeCheckpointFsOps m bs d = (Inr r, bs', d')"
proof (cases "find_index (\<lambda>b. eb_promptNumber b \<ge> m) bs")
  case (Some i)
  have "set (earliest_files (drop i bs)) \<subseteq> set (captured (drop i bs))"
  proof
    fix f assume "f \<in> set (earliest_files (drop i bs))"
    then have "map_of (earliest_files (drop i bs)) (fst f) = Some (snd f)"
      using earliest_files_of(2) [of "drop i bs"] by simp
    then show "f \<in> set (captured (drop i bs))"       using earliest_files_of(1) [of "drop i bs"] map_of_SomeD [of "captured (drop i bs)" "fst f" "snd f"] by simp
  qed
  then have "\<forall>p\<in>fst ` set (earliest_files (drop i bs)). p \<notin> set (dk_readonly d)"
    using assms by (fastforce simp: captured_def dest: in_set_dropD)
  from node_restore_succeeds [OF this] obtain x d' where
    "restore_files nodeCheckpointFsOps (earliest_files (drop i bs)) [] [] d = (Inr x, d')" by blast
  then show ?thesis using Some by (cases x) (simp add: undoToPrompt_def undoSuffix_def)
qed (simp add: undoToPrompt_def)



text \<open>Undoing the last batches is undoing back to the prompt of the earliest of them.\<close>

lemma undo_last_is_undo_to:
  assumes ok: "batches_ok bs" and n: "0 < n" "n \<le> length bs"
  shows "undoLastBatches ops (int n) bs w = undoToPrompt ops (eb_promptNumber (bs ! (length bs - n))) bs w"
proof -
  let ?i = "length bs - n"
  have i: "?i < length bs" using n by simp
  have "eb_promptNumber (bs ! j) < eb_promptNumber (bs ! ?i)" if "j < ?i" for j
    using ok that i by (auto simp: batches_ok_def sorted_wrt_iff_nth_less)
  then have "find_index (\<lambda>b. eb_promptNumber b \<ge> eb_promptNumber (bs ! ?i)) bs = Some ?i"
    using i by (simp add: find_index_SomeI not_le)
  moreover have "nat (max 0 (int (length bs) - int n)) = ?i" using n by simp
  ultimately show ?thesis using n by (auto simp: undoLastBatches_def undoToPrompt_def)
qed

section \<open>Examples\<close>

definition undo_disk :: disk where
  "undo_disk = \<lparr>dk_files = [ucs ''/a'' \<mapsto> ucs ''one''], dk_readonly = [], dk_time = 0\<rparr>"

definition undo_edited :: disk where
  "undo_edited = \<lparr>dk_files = [ucs ''/a'' \<mapsto> ucs ''two'', ucs ''/b'' \<mapsto> ucs ''new''], dk_readonly = [], dk_time = 2\<rparr>"

definition undo_batches :: "edit_batch list" where
  "undo_batches =
     [\<lparr>eb_promptNumber = 1, eb_promptId = ucs ''#1'',
       eb_files = [(ucs ''/a'', PreContent (ucs ''one'')), (ucs ''/b'', PreAbsent)]\<rparr>]"

text \<open>One prompt changes a file and creates another one.\<close>

lemma undo_session: "edit_session nodeCheckpointFsOps dk_files [(1, dk_files undo_disk)] undo_batches undo_edited"
proof -
  let ?s = "[] @ [(1, dk_files undo_disk)]"
  let ?first = "[\<lparr>eb_promptNumber = 1, eb_promptId = ucs ''#1'', eb_files = [(ucs ''/a'', PreContent (ucs ''one''))]\<rparr>]"
  let ?mid = "undo_disk\<lparr>dk_files := [ucs ''/a'' \<mapsto> ucs ''two''], dk_time := 1\<rparr>"
  have files: "dk_files undo_disk = [ucs ''/a'' \<mapsto> ucs ''one'']" by (simp add: undo_disk_def)
  have paths: "ucs ''/a'' \<noteq> ucs ''/b''" by code_simp
  have start: "edit_session nodeCheckpointFsOps dk_files ?s [] undo_disk"
    by (rule session_prompted [OF session_opened]) simp_all
  have a: "capture nodeCheckpointFsOps 1 (ucs ''#1'') (ucs ''/a'') [] undo_disk = (Inr True, ?first, tick undo_disk)"
    by (simp add: capture_def batchFor_def set_file_def nodeCheckpointFsOps_def files pre_image_of_def Let_def)
  have mid: "edit_session nodeCheckpointFsOps dk_files ?s ?first ?mid"
    by (rule session_mutated [OF start _ a]) (simp_all add: tick_def files)
  have b: "capture nodeCheckpointFsOps 1 (ucs ''#1'') (ucs ''/b'') ?first ?mid = (Inr True, undo_batches, tick ?mid)"
    using paths by (simp add: capture_def batchFor_def set_file_def nodeCheckpointFsOps_def pre_image_of_def undo_batches_def Let_def)
  have "edit_session nodeCheckpointFsOps dk_files ?s undo_batches undo_edited"
    by (rule session_mutated [OF mid _ b]) (simp_all add: tick_def undo_edited_def)
  then show ?thesis by simp
qed


text \<open>
  The text of a file that is not UTF-8 is not its bytes: a byte that decodes to the replacement
  character is written back as three bytes.
\<close>

lemma binary_file_not_restored: "utf8 (decode_all [255]) = [239, 191, 189]"
  by code_simp

end
