(* ===== verification/StdinBuffer.thy ===== *)
theory StdinBuffer
  imports OutputBuffer
begin

text \<open>
  Terminal input (\<open>packages/tui/src/stdin-buffer.ts\<close>): input arrives in pieces, and an escape
  sequence is passed on only once it is whole; pasted text comes between two markers and is passed on
  as one event. Strings are UTF-16 units. The record \<open>stdin_buffer\<close> has the fields of the class,
  and each operation returns the events it emits.
\<close>

section \<open>Complete sequences\<close>

abbreviation ESC :: int where "ESC \<equiv> 27"
abbreviation BEL :: int where "BEL \<equiv> 7"

definition BRACKETED_PASTE_START :: ustring where
  "BRACKETED_PASTE_START = ESC # ucs ''[200~''"

definition BRACKETED_PASTE_END :: ustring where
  "BRACKETED_PASTE_END = ESC # ucs ''[201~''"

datatype sequence_status = Complete | Incomplete | NotEscape

definition ends_with :: "ustring \<Rightarrow> ustring \<Rightarrow> bool" where
  "ends_with p s = (length p \<le> length s \<and> drop (length s - length p) s = p)"

definition is_udigit :: "int \<Rightarrow> bool" where
  "is_udigit c = (48 \<le> c \<and> c \<le> 57)"

definition digits :: "ustring \<Rightarrow> bool" where
  "digits s = (s \<noteq> [] \<and> list_all is_udigit s)"

text \<open>
  The mouse test \<open>^<\d+;\d+;\d+[Mm]$\<close>, and the split into three numbers that is tried after it, ask
  for the same payloads.
\<close>

definition mouse_payload :: "ustring \<Rightarrow> bool" where
  "mouse_payload payload =
     (payload \<noteq> [] \<and> hd payload = 60 \<and> last payload \<in> {77, 109} \<and>
      (let parts = split_on 59 (butlast (tl payload)) in length parts = 3 \<and> list_all digits parts))"

definition isCompleteCsiSequence :: "ustring \<Rightarrow> sequence_status" where
  "isCompleteCsiSequence data =
     (if \<not> starts_with [ESC, 91] data then Complete
      else if length data < 3 then Incomplete
      else
        let payload = drop 2 data; lastChar = last payload
        in if 64 \<le> lastChar \<and> lastChar \<le> 126 then
             (if starts_with [60] payload then
                (if mouse_payload payload then Complete else Incomplete)
              else Complete)
           else Incomplete)"

definition isCompleteOscSequence :: "ustring \<Rightarrow> sequence_status" where
  "isCompleteOscSequence data =
     (if \<not> starts_with [ESC, 93] data then Complete
      else if ends_with [ESC, 92] data \<or> ends_with [BEL] data then Complete else Incomplete)"

definition isCompleteDcsSequence :: "ustring \<Rightarrow> sequence_status" where
  "isCompleteDcsSequence data =
     (if \<not> starts_with [ESC, 80] data then Complete
      else if ends_with [ESC, 92] data then Complete else Incomplete)"

definition isCompleteApcSequence :: "ustring \<Rightarrow> sequence_status" where
  "isCompleteApcSequence data =
     (if \<not> starts_with [ESC, 95] data then Complete
      else if ends_with [ESC, 92] data then Complete else Incomplete)"

definition isCompleteSequence :: "ustring \<Rightarrow> sequence_status" where
  "isCompleteSequence data =
     (if \<not> starts_with [ESC] data then NotEscape
      else if length data = 1 then Incomplete
      else
        let afterEsc = tl data
        in if starts_with [91] afterEsc then
             (if starts_with [91, 77] afterEsc then (if length data \<ge> 6 then Complete else Incomplete)
              else isCompleteCsiSequence data)
           else if starts_with [93] afterEsc then isCompleteOscSequence data
           else if starts_with [80] afterEsc then isCompleteDcsSequence data
           else if starts_with [95] afterEsc then isCompleteApcSequence data
           else if starts_with [79] afterEsc then (if length afterEsc \<ge> 2 then Complete else Incomplete)
           else Complete)"

text \<open>
  \<open>/^\x1b\[(\d+)(?::\d*)?(?::\d+)?u$/\<close>: digits, then nothing, one field that may be empty, or two
  fields of which the second has digits.
\<close>

definition digits_value :: "ustring \<Rightarrow> int" where
  "digits_value = foldl (\<lambda>n c. n * 10 + (c - 48)) 0"

definition parseUnmodifiedKittyPrintableCodepoint :: "ustring \<Rightarrow> int option" where
  "parseUnmodifiedKittyPrintableCodepoint sequence =
     (if starts_with [ESC, 91] sequence \<and> ends_with [117] sequence \<and> length sequence \<ge> 3 then
        (let fields = split_on 58 (butlast (drop 2 sequence));
             matches = digits (hd fields) \<and>
               (case tl fields of [] \<Rightarrow> True | [f] \<Rightarrow> list_all is_udigit f
                | [f, g] \<Rightarrow> list_all is_udigit f \<and> digits g | _ \<Rightarrow> False);
             codepoint = digits_value (hd fields)
         in if matches \<and> codepoint \<ge> 32 then Some codepoint else None)
      else None)"

section \<open>Extracting sequences\<close>

text \<open>The inner loop: the first end, from \<open>seqEnd\<close> on, at which the candidate is not incomplete.\<close>

function find_end :: "ustring \<Rightarrow> nat \<Rightarrow> nat option" where
  "find_end remaining seqEnd =
     (if seqEnd \<le> length remaining then
        (if isCompleteSequence (take seqEnd remaining) = Incomplete then find_end remaining (seqEnd + 1)
         else Some seqEnd)
      else None)"
  by pat_completeness auto
termination by (relation "measure (\<lambda>(remaining, seqEnd). Suc (length remaining) - seqEnd)") auto

declare find_end.simps [simp del]

lemma find_end_range: "find_end remaining k = Some n \<Longrightarrow> k \<le> n \<and> n \<le> length remaining"
  by (induction remaining k rule: find_end.induct) (subst (asm) (2) find_end.simps, auto split: if_splits)

text \<open>
  How many units the next sequence takes: two escapes before a character that starts a sequence are
  an escape and the start of that sequence.
\<close>

definition sequence_length :: "ustring \<Rightarrow> nat option" where
  "sequence_length remaining =
     (if starts_with [ESC] remaining then
        (case find_end remaining 1 of
           None \<Rightarrow> None
         | Some seqEnd \<Rightarrow>
             Some (if take seqEnd remaining = [ESC, ESC] \<and> seqEnd < length remaining \<and>
                      remaining ! seqEnd \<in> {91, 93, 79, 80, 95}
                   then 1 else seqEnd))
      else Some 1)"

lemma sequence_length_pos: "sequence_length s = Some n \<Longrightarrow> 0 < n"
  using find_end_range [of s 1] by (auto simp: sequence_length_def split: if_splits option.splits)

function extractCompleteSequences :: "ustring \<Rightarrow> ustring list \<times> ustring" where
  "extractCompleteSequences remaining =
     (if remaining = [] then ([], [])
      else case sequence_length remaining of
             None \<Rightarrow> ([], remaining)
           | Some n \<Rightarrow> apfst ((#) (take n remaining)) (extractCompleteSequences (drop n remaining)))"
  by pat_completeness auto
termination by (relation "measure length") (auto dest: sequence_length_pos)

declare extractCompleteSequences.simps [simp del]

section \<open>The buffer\<close>

datatype stdin_event = DataEvent ustring | PasteEvent ustring

record stdin_buffer =
  sb_buffer :: ustring
  sb_timeout :: bool
  sb_pasteMode :: bool
  sb_pasteBuffer :: ustring
  sb_pendingKitty :: "int option"

definition new_stdin_buffer :: stdin_buffer where
  "new_stdin_buffer =
     \<lparr>sb_buffer = [], sb_timeout = False, sb_pasteMode = False, sb_pasteBuffer = [], sb_pendingKitty = None\<rparr>"

definition emitDataSequence :: "ustring \<Rightarrow> int option \<Rightarrow> stdin_event list \<times> int option" where
  "emitDataSequence sequence pending =
     (if length sequence = 1 \<and> pending = Some (hd sequence) then ([], None)
      else ([DataEvent sequence], parseUnmodifiedKittyPrintableCodepoint sequence))"

fun emit_sequences :: "ustring list \<Rightarrow> int option \<Rightarrow> stdin_event list \<times> int option" where
  "emit_sequences [] pending = ([], pending)"
| "emit_sequences (s # ss) pending =
     (let (es, pending) = emitDataSequence s pending in apfst ((@) es) (emit_sequences ss pending))"

text \<open>In paste mode: the pasted text once its end has come, and the text behind it, which is processed next.\<close>

definition end_paste :: "stdin_event list \<Rightarrow> stdin_buffer \<Rightarrow> (stdin_event list \<times> ustring) \<times> stdin_buffer" where
  "end_paste events s =
     (case index_of BRACKETED_PASTE_END (sb_pasteBuffer s) of
        None \<Rightarrow> ((events, []), s)
      | Some endIndex \<Rightarrow>
          ((events @ [PasteEvent (take endIndex (sb_pasteBuffer s))],
            drop (endIndex + length BRACKETED_PASTE_END) (sb_pasteBuffer s)),
           s\<lparr>sb_pasteMode := False, sb_pasteBuffer := [], sb_pendingKitty := None\<rparr>))"

definition start_paste :: "nat \<Rightarrow> stdin_buffer \<Rightarrow> stdin_event list \<times> stdin_buffer" where
  "start_paste startIndex s =
     (let events =
            (if startIndex > 0
             then fst (emit_sequences (fst (extractCompleteSequences (take startIndex (sb_buffer s)))) (sb_pendingKitty s))
             else [])
      in (events,
          s\<lparr>sb_pendingKitty := None, sb_buffer := [], sb_pasteMode := True,
            sb_pasteBuffer := drop (startIndex + length BRACKETED_PASTE_START) (sb_buffer s)\<rparr>))"

definition process_sequences :: "stdin_buffer \<Rightarrow> stdin_event list \<times> stdin_buffer" where
  "process_sequences s =
     (let (sequences, remainder) = extractCompleteSequences (sb_buffer s);
          (events, pending) = emit_sequences sequences (sb_pendingKitty s)
      in (events, s\<lparr>sb_buffer := remainder, sb_pendingKitty := pending, sb_timeout := (length remainder > 0)\<rparr>))"

text \<open>One call of \<open>process\<close> up to the call it makes of itself: its events, and the text of that call, if any.\<close>

definition receive :: "ustring \<Rightarrow> stdin_buffer \<Rightarrow> (stdin_event list \<times> ustring) \<times> stdin_buffer" where
  "receive str s =
     (let s = s\<lparr>sb_timeout := False\<rparr> in
      if length str = 0 \<and> length (sb_buffer s) = 0 then
        (let (events, pending) = emitDataSequence [] (sb_pendingKitty s)
         in ((events, []), s\<lparr>sb_pendingKitty := pending\<rparr>))
      else
        let s = s\<lparr>sb_buffer := sb_buffer s @ str\<rparr> in
        if sb_pasteMode s then
          end_paste [] (s\<lparr>sb_pasteBuffer := sb_pasteBuffer s @ sb_buffer s, sb_buffer := []\<rparr>)
        else
          case index_of BRACKETED_PASTE_START (sb_buffer s) of
            Some startIndex \<Rightarrow> (let (events, s) = start_paste startIndex s in end_paste events s)
          | None \<Rightarrow> (let (events, s) = process_sequences s in ((events, []), s)))"

definition input_size :: "ustring \<Rightarrow> stdin_buffer \<Rightarrow> nat" where
  "input_size str s = length str + length (sb_buffer s) + length (sb_pasteBuffer s)"

lemma marker_length [simp]: "length BRACKETED_PASTE_START = 6" "length BRACKETED_PASTE_END = 6"
  by (simp_all add: BRACKETED_PASTE_START_def BRACKETED_PASTE_END_def ucs_def)

lemma end_paste_rest:
  "end_paste es s = ((fs, rest), s') \<Longrightarrow> rest \<noteq> [] \<Longrightarrow>
   length rest < length (sb_pasteBuffer s) \<and> sb_buffer s' = sb_buffer s \<and> sb_pasteBuffer s' = []"
  using index_of_split [of BRACKETED_PASTE_END "sb_pasteBuffer s"]
  by (auto simp: end_paste_def split: option.splits)

lemma receive_rest: "receive str s = ((es, rest), s') \<Longrightarrow> rest \<noteq> [] \<Longrightarrow> input_size rest s' < input_size str s"
  by (auto simp: receive_def input_size_def start_paste_def Let_def split: if_splits option.splits prod.splits
      dest!: end_paste_rest)

function process_text :: "ustring \<Rightarrow> stdin_buffer \<Rightarrow> stdin_event list \<times> stdin_buffer" where
  "process_text str s =
     (case receive str s of
        ((events, rest), s) \<Rightarrow>
          if length rest > 0 then apfst ((@) events) (process_text rest s) else (events, s))"
  by pat_completeness auto
termination
  by (relation "measure (\<lambda>(str, s). input_size str s)") (auto dest: receive_rest [OF sym])

declare process_text.simps [simp del]

text \<open>
  A chunk of bytes: a single high byte is an escape and the byte less 128; any other chunk is decoded
  on its own, a partial character at its end becoming the replacement character.
\<close>

definition buffer_to_string :: "int list \<Rightarrow> ustring" where
  "buffer_to_string data =
     (let (ps, dc) = decode_bytes data (idle_decoder True)
      in text_of (ps @ (if dc_needed dc = 0 then [] else [65533])))"

definition process_bytes :: "int list \<Rightarrow> stdin_buffer \<Rightarrow> stdin_event list \<times> stdin_buffer" where
  "process_bytes data s =
     process_text
       (if length data = 1 \<and> hd data > 127 then [ESC, hd data - 128] else buffer_to_string data) s"

definition flush_stdin :: "stdin_buffer \<Rightarrow> ustring list \<times> stdin_buffer" where
  "flush_stdin s =
     (let s = s\<lparr>sb_timeout := False\<rparr> in
      if length (sb_buffer s) = 0 then ([], s)
      else ([sb_buffer s], s\<lparr>sb_buffer := [], sb_pendingKitty := None\<rparr>))"

text \<open>What the timer does when it fires.\<close>

definition timeout_fires :: "stdin_buffer \<Rightarrow> stdin_event list \<times> stdin_buffer" where
  "timeout_fires s =
     (let (flushed, s) = flush_stdin s; (events, pending) = emit_sequences flushed (sb_pendingKitty s)
      in (events, s\<lparr>sb_pendingKitty := pending\<rparr>))"

definition clear_stdin :: "stdin_buffer \<Rightarrow> stdin_buffer" where
  "clear_stdin s =
     s\<lparr>sb_timeout := False, sb_buffer := [], sb_pasteMode := False, sb_pasteBuffer := [], sb_pendingKitty := None\<rparr>"

text \<open>Several chunks, none of them delayed until the timer fires.\<close>

fun process_chunks :: "ustring list \<Rightarrow> stdin_buffer \<Rightarrow> stdin_event list \<times> stdin_buffer" where
  "process_chunks [] s = ([], s)"
| "process_chunks (c # cs) s = (let (es, s) = process_text c s in apfst ((@) es) (process_chunks cs s))"


section \<open>Input as it is meant\<close>

text \<open>
  What a terminal sends: characters, escape sequences and pastes. A sequence is whole when it is
  complete and no part of it is, and an escape inside of it only starts its terminator.
\<close>

datatype input_token = Plain int | Sequence ustring | Paste ustring

definition whole_sequence :: "ustring \<Rightarrow> bool" where
  "whole_sequence s =
     (starts_with [ESC] s \<and> isCompleteSequence s = Complete \<and>
      list_all (\<lambda>k. isCompleteSequence (take k s) = Incomplete) [1..<length s] \<and>
      list_all (\<lambda>i. s ! i = ESC \<longrightarrow> i + 1 < length s \<and> s ! (i + 1) = 92) [1..<length s])"

fun token_text :: "input_token \<Rightarrow> ustring" where
  "token_text (Plain c) = [c]"
| "token_text (Sequence s) = s"
| "token_text (Paste c) = BRACKETED_PASTE_START @ c @ BRACKETED_PASTE_END"

fun token_ok :: "input_token \<Rightarrow> bool" where
  "token_ok (Plain c) = (c \<noteq> ESC)"
| "token_ok (Sequence s) = (whole_sequence s \<and> s \<noteq> BRACKETED_PASTE_START)"
| "token_ok (Paste c) = (index_of BRACKETED_PASTE_END (c @ BRACKETED_PASTE_END) = Some (length c))"

abbreviation token_texts :: "input_token list \<Rightarrow> ustring" where
  "token_texts ts \<equiv> concat (map token_text ts)"

fun is_paste :: "input_token \<Rightarrow> bool" where
  "is_paste (Paste c) = True" | "is_paste _ = False"

text \<open>The events a sequence of tokens stands for.\<close>

fun token_events :: "input_token list \<Rightarrow> int option \<Rightarrow> stdin_event list" where
  "token_events [] pending = []"
| "token_events (Paste c # ts) pending = PasteEvent c # token_events ts None"
| "token_events (t # ts) pending =
     (let (es, pending) = emitDataSequence (token_text t) pending in es @ token_events ts pending)"

lemma token_events_append:
  "list_all (Not \<circ> is_paste) ps \<Longrightarrow>
   token_events (ps @ ts) pending =
     (let (es, pending) = emit_sequences (map token_text ps) pending in es @ token_events ts pending)"
proof (induction ps arbitrary: pending)
  case (Cons p ps)
  then show ?case by (cases p) (auto simp: Let_def split: prod.splits)
qed simp

section \<open>Whole sequences are found\<close>

lemma find_end_first:
  "k \<le> n \<Longrightarrow> n \<le> length r \<Longrightarrow> (\<And>j. k \<le> j \<Longrightarrow> j < n \<Longrightarrow> isCompleteSequence (take j r) = Incomplete) \<Longrightarrow>
   isCompleteSequence (take n r) \<noteq> Incomplete \<Longrightarrow> find_end r k = Some n"
proof (induction "n - k" arbitrary: k)
  case 0
  then show ?case by (simp add: find_end.simps [of r k])
next
  case (Suc m)
  then have "find_end r (k + 1) = Some n" by simp
  then show ?case using Suc by (simp add: find_end.simps [of r k])
qed

lemma find_end_none:
  "(\<And>j. k \<le> j \<Longrightarrow> j \<le> length r \<Longrightarrow> isCompleteSequence (take j r) = Incomplete) \<Longrightarrow> find_end r k = None"
proof (induction "Suc (length r) - k" arbitrary: k)
  case 0
  then show ?case by (simp add: find_end.simps [of r k])
next
  case (Suc m)
  then have "find_end r (k + 1) = None" by simp
  then show ?case using Suc by (simp add: find_end.simps [of r k])
qed

lemma whole_parts:
  assumes "whole_sequence s"
  shows "starts_with [ESC] s" "isCompleteSequence s = Complete"
    and "0 < k \<Longrightarrow> k < length s \<Longrightarrow> isCompleteSequence (take k s) = Incomplete"
    and "0 < i \<Longrightarrow> i < length s \<Longrightarrow> s ! i = ESC \<Longrightarrow> i + 1 < length s \<and> s ! (i + 1) = 92"
  using assms by (auto simp: whole_sequence_def list_all_iff)

lemma whole_not_Nil: "whole_sequence s \<Longrightarrow> s \<noteq> []"
  by (auto simp: whole_sequence_def starts_with_def)

lemma sequence_length_whole:
  assumes "whole_sequence s"
  shows "sequence_length (s @ y) = Some (length s)"
proof -
  note s = whole_parts [OF assms]
  have "0 < length s" using whole_not_Nil [OF assms] by simp
  then have "find_end (s @ y) 1 = Some (length s)" using s(2,3) by (intro find_end_first) (auto simp: Suc_le_eq)
  moreover have "starts_with [ESC] (s @ y)" using s(1) \<open>0 < length s\<close> by (cases s) (auto simp: starts_with_def)
  moreover have "s \<noteq> [ESC, ESC]" using s(4) [of 1] by auto
  ultimately show ?thesis by (simp add: sequence_length_def)
qed

text \<open>A part of a sequence stays in the buffer.\<close>

lemma sequence_length_part:
  assumes "whole_sequence s" and "strict_prefix r s"
  shows "r = [] \<or> sequence_length r = None"
proof (cases "r = []")
  case False
  obtain y where y: "s = r @ y" "y \<noteq> []" using assms(2) by (auto elim: strict_prefixE')
  have "isCompleteSequence (take j r) = Incomplete" if "1 \<le> j" "j \<le> length r" for j
  proof -
    have "j < length s" using that(2) y by (cases y) auto
    then show ?thesis using whole_parts(3) [OF assms(1), of j] that y(1) by simp
  qed
  then have "find_end r 1 = None" by (rule find_end_none)
  moreover have "starts_with [ESC] r"
    using whole_parts(1) [OF assms(1)] y(1) False by (cases r) (auto simp: starts_with_def)
  ultimately show ?thesis by (simp add: sequence_length_def)
qed simp

lemma extract_tokens:
  assumes "list_all token_ok ps" and "list_all (Not \<circ> is_paste) ps" and "r = [] \<or> sequence_length r = None"
  shows "extractCompleteSequences (token_texts ps @ r) = (map token_text ps, r)"
  using assms(1,2)
proof (induction ps)
  case Nil
  then show ?case using assms(3) by (auto simp: extractCompleteSequences.simps [of r])
next
  case (Cons p ps)
  let ?rest = "token_texts ps @ r"
  have "token_text p \<noteq> [] \<and> sequence_length (token_text p @ ?rest) = Some (length (token_text p))"
  proof (cases p)
    case (Plain c)
    then show ?thesis using Cons.prems(1) by (simp add: sequence_length_def starts_with_def)
  next
    case (Sequence s)
    then show ?thesis using Cons.prems(1) whole_not_Nil sequence_length_whole [of s] by simp
  qed (use Cons.prems(2) in simp)
  moreover have "extractCompleteSequences ?rest = (map token_text ps, r)" using Cons by simp
  ultimately show ?case by (simp add: extractCompleteSequences.simps [of "token_text p @ ?rest"])
qed


section \<open>Paste markers are found\<close>

lemma start_whole: "whole_sequence BRACKETED_PASTE_START"
  by code_simp

lemma start_at:
  assumes "starts_with BRACKETED_PASTE_START (drop j x)"
  shows "j + 6 \<le> length x" "x ! j = ESC" "x ! (j + 1) = 91" "take 6 (drop j x) = BRACKETED_PASTE_START"
proof -
  obtain t where t: "drop j x = BRACKETED_PASTE_START @ t" using assms by (auto simp: starts_with_iff)
  from arg_cong [OF t, of length] show len: "j + 6 \<le> length x" by simp
  show "take 6 (drop j x) = BRACKETED_PASTE_START" by (simp add: t)
  have "x ! (j + i) = BRACKETED_PASTE_START ! i" if "i < 6" for i
    using arg_cong [OF t, of "\<lambda>l. l ! i"] that len by (simp add: nth_append)
  from this [of 0] this [of 1] show "x ! j = ESC" "x ! (j + 1) = 91" by (simp_all add: BRACKETED_PASTE_START_def ucs_def)
qed

lemma whole_no_start:
  assumes s: "whole_sequence s" and other: "s \<noteq> BRACKETED_PASTE_START" and j: "j < length s"
  shows "\<not> starts_with BRACKETED_PASTE_START (drop j (s @ z))"
proof
  assume at: "starts_with BRACKETED_PASTE_START (drop j (s @ z))"
  show False
  proof (cases "j = 0")
    case False
    have "s ! j = ESC" using start_at(2) [OF at] j by (simp add: nth_append)
    then have "j + 1 < length s" "s ! (j + 1) = 92" using whole_parts(4) [OF s, of j] False j by auto
    then show False using start_at(3) [OF at] by (simp add: nth_append)
  next
    case True
    have take: "take 6 (s @ z) = BRACKETED_PASTE_START" using start_at(4) [OF at] True by simp
    have complete: "isCompleteSequence BRACKETED_PASTE_START = Complete" by (rule whole_parts(2) [OF start_whole])
    consider "length s < 6" | "length s = 6" | "6 < length s" by linarith
    then show False
    proof cases
      case 1
      then have "take (length s) BRACKETED_PASTE_START = s" by (simp flip: take)
      then have "isCompleteSequence s = Incomplete"
        using whole_parts(3) [OF start_whole, of "length s"] 1 j by (cases s) auto
      then show False using whole_parts(2) [OF s] by simp
    next
      case 2
      then show False using take other by simp
    next
      case 3
      then show False using take whole_parts(3) [OF s, of 6] complete by simp
    qed
  qed
qed

lemma part_no_start:
  assumes s: "whole_sequence s" and r: "strict_prefix r s"
  shows "\<not> starts_with BRACKETED_PASTE_START (drop j r)"
proof
  assume at: "starts_with BRACKETED_PASTE_START (drop j r)"
  obtain y where y: "s = r @ y" "y \<noteq> []" using r by (auto elim: strict_prefixE')
  show False
  proof (cases "j = 0")
    case False
    have "s ! j = ESC" "s ! (j + 1) = 91" "j < length s" using start_at [OF at] y(1) by (simp_all add: nth_append)
    then show False using whole_parts(4) [OF s, of j] False by auto
  next
    case True
    have "take 6 s = BRACKETED_PASTE_START" "6 < length s" using start_at(1,4) [OF at] True y by (cases y; simp)+
    then show False using whole_parts(3) [OF s, of 6] whole_parts(2) [OF start_whole] by simp
  qed
qed

lemma tokens_no_start:
  "list_all token_ok ps \<Longrightarrow> list_all (Not \<circ> is_paste) ps \<Longrightarrow> j < length (token_texts ps) \<Longrightarrow>
   \<not> starts_with BRACKETED_PASTE_START (drop j (token_texts ps @ z))"
proof (induction ps arbitrary: j)
  case (Cons p ps)
  show ?case
  proof (cases "j < length (token_text p)")
    case False
    then show ?thesis using Cons.IH [of "j - length (token_text p)"] Cons.prems by simp
  next
    case True
    show ?thesis
    proof (cases p)
      case (Plain c)
      then show ?thesis using True Cons.prems(1) start_at(2) [of j "c # token_texts ps @ z"] by auto
    next
      case (Sequence s)
      then show ?thesis using True Cons.prems(1) whole_no_start [of s j "token_texts ps @ z"] by simp
    qed (use Cons.prems(2) in simp)
  qed
qed simp

text \<open>What a token begins with until it is recognised.\<close>

fun lead_text :: "input_token \<Rightarrow> ustring" where
  "lead_text (Paste c) = BRACKETED_PASTE_START"
| "lead_text t = token_text t"

definition part_of_head :: "ustring \<Rightarrow> input_token list \<Rightarrow> bool" where
  "part_of_head r ts = (r = [] \<or> (\<exists>t ts'. ts = t # ts' \<and> strict_prefix r (lead_text t)))"

lemma part_whole: "token_ok t \<Longrightarrow> strict_prefix r (lead_text t) \<Longrightarrow> r = [] \<or> whole_sequence (lead_text t)"
  using start_whole by (cases t) (auto simp: strict_prefix_def prefix_Cons)

lemma part_facts:
  assumes "list_all token_ok ts" and "part_of_head r ts"
  shows "r = [] \<or> sequence_length r = None" and "\<not> starts_with BRACKETED_PASTE_START (drop j r)"
proof -
  consider "r = []" | t where "whole_sequence (lead_text t)" "strict_prefix r (lead_text t)"
    using assms part_whole by (fastforce simp: part_of_head_def)
  note cases = this
  show "r = [] \<or> sequence_length r = None"
  proof (rule cases)
    fix t assume "whole_sequence (lead_text t)" "strict_prefix r (lead_text t)"
    then show ?thesis by (rule sequence_length_part)
  qed simp
  show "\<not> starts_with BRACKETED_PASTE_START (drop j r)"
  proof (rule cases)
    assume "r = []"
    then show ?thesis by (simp add: starts_with_def BRACKETED_PASTE_START_def)
  next
    fix t assume "whole_sequence (lead_text t)" "strict_prefix r (lead_text t)"
    then show ?thesis by (rule part_no_start)
  qed
qed

lemma start_index:
  assumes "list_all token_ok ps" and "list_all (Not \<circ> is_paste) ps"
  shows "index_of BRACKETED_PASTE_START (token_texts ps @ BRACKETED_PASTE_START @ y) = Some (length (token_texts ps))"
proof (rule index_of_SomeI)
  show "\<not> starts_with BRACKETED_PASTE_START (drop j (token_texts ps @ BRACKETED_PASTE_START @ y))"
    if "j < length (token_texts ps)" for j by (rule tokens_no_start [OF assms that])
qed (simp_all add: starts_with_iff)

lemma no_start_index:
  assumes "list_all token_ok ps" and "list_all (Not \<circ> is_paste) ps" and "list_all token_ok ts" and "part_of_head r ts"
  shows "index_of BRACKETED_PASTE_START (token_texts ps @ r) = None"
proof -
  have "\<not> starts_with BRACKETED_PASTE_START (drop j (token_texts ps @ r))" for j
    using tokens_no_start [OF assms(1,2), of j r] part_facts(2) [OF assms(3,4)] by (cases "j < length (token_texts ps)") auto
  then show ?thesis by (simp add: index_of_None_iff)
qed

lemma token_prefix:
  "prefix x (token_texts ts) \<Longrightarrow>
   (\<exists>ps rest r. ts = ps @ rest \<and> list_all (Not \<circ> is_paste) ps \<and> x = token_texts ps @ r \<and> part_of_head r rest) \<or>
   (\<exists>ps c rest y. ts = ps @ Paste c # rest \<and> list_all (Not \<circ> is_paste) ps \<and> x = token_texts ps @ BRACKETED_PASTE_START @ y)"
proof (induction ts arbitrary: x)
  case Nil
  then show ?case by (auto simp: part_of_head_def)
next
  case (Cons t ts)
  show ?case
  proof (cases "strict_prefix x (lead_text t)")
    case True
    then show ?thesis by (intro disjI1 exI [of _ "[]"] exI [of _ "t # ts"] exI [of _ x]) (auto simp: part_of_head_def)
  next
    case False
    have "prefix (lead_text t) (token_texts (t # ts))" by (cases t) auto
    then have "prefix (lead_text t) x" using Cons.prems False by (metis prefix_same_cases prefix_order.le_less)
    then obtain y where x: "x = lead_text t @ y" by (auto simp: prefix_def)
    show ?thesis
    proof (cases "is_paste t")
      case True
      then obtain c where "t = Paste c" by (cases t) auto
      then show ?thesis using x by (intro disjI2 exI [of _ "[]"] exI [of _ c] exI [of _ ts] exI [of _ y]) simp
    next
      case other: False
      then have lead: "lead_text t = token_text t" by (cases t) auto
      then have "prefix y (token_texts ts)" using Cons.prems x by simp
      from Cons.IH [OF this] show ?thesis
      proof (elim disjE exE conjE)
        fix ps rest r assume "ts = ps @ rest" "list_all (Not \<circ> is_paste) ps" "y = token_texts ps @ r" "part_of_head r rest"
        then have "t # ts = (t # ps) @ rest" "list_all (Not \<circ> is_paste) (t # ps)" "x = token_texts (t # ps) @ r" "part_of_head r rest"
          using x lead other by simp_all
        then show ?thesis by blast
      next
        fix ps c rest z assume "ts = ps @ Paste c # rest" "list_all (Not \<circ> is_paste) ps" "y = token_texts ps @ BRACKETED_PASTE_START @ z"
        then have "t # ts = (t # ps) @ Paste c # rest" "list_all (Not \<circ> is_paste) (t # ps)"
            "x = token_texts (t # ps) @ BRACKETED_PASTE_START @ z"
          using x lead other by simp_all
        then show ?thesis by blast
      qed
    qed
  qed
qed


section \<open>Input in pieces\<close>

text \<open>
  What the buffer holds of the tokens still to come: the beginning of the first one, or, in paste
  mode, the beginning of the pasted text.
\<close>

definition holds_input :: "stdin_buffer \<Rightarrow> input_token list \<Rightarrow> ustring \<Rightarrow> bool" where
  "holds_input s ts future =
     (if sb_pasteMode s then
        sb_buffer s = [] \<and> \<not> sb_timeout s \<and>
        (\<exists>c ts'. ts = Paste c # ts' \<and> strict_prefix (sb_pasteBuffer s) (c @ BRACKETED_PASTE_END) \<and>
           sb_pasteBuffer s @ future = c @ BRACKETED_PASTE_END @ token_texts ts')
      else
        sb_pasteBuffer s = [] \<and> sb_timeout s = (sb_buffer s \<noteq> []) \<and> part_of_head (sb_buffer s) ts \<and>
        sb_buffer s @ future = token_texts ts)"

lemma paste_end:
  assumes "token_ok (Paste c)" and "y @ future = c @ BRACKETED_PASTE_END @ behind"
  shows "strict_prefix y (c @ BRACKETED_PASTE_END) \<and> index_of BRACKETED_PASTE_END y = None \<or>
    (\<exists>z. y = c @ BRACKETED_PASTE_END @ z \<and> z @ future = behind \<and> index_of BRACKETED_PASTE_END y = Some (length c))"
proof (cases "strict_prefix y (c @ BRACKETED_PASTE_END)")
  case True
  have "index_of BRACKETED_PASTE_END y = None"
  proof (rule ccontr)
    assume "index_of BRACKETED_PASTE_END y \<noteq> None"
    then obtain i where i: "index_of BRACKETED_PASTE_END y = Some i" by auto
    obtain z where z: "c @ BRACKETED_PASTE_END = y @ z" "z \<noteq> []" using True by (auto elim: strict_prefixE')
    have "index_of BRACKETED_PASTE_END (c @ BRACKETED_PASTE_END) = Some i"
      unfolding z(1) by (rule index_of_append [OF i])
    then have "i = length c" using assms(1) by simp
    moreover have "length y < length c + 6" using arg_cong [OF z(1), of length] z(2) by (cases z) auto
    ultimately show False using index_of_split [OF i] by simp
  qed
  then show ?thesis using True by simp
next
  case False
  have "prefix y (c @ BRACKETED_PASTE_END @ behind)" "prefix (c @ BRACKETED_PASTE_END) (c @ BRACKETED_PASTE_END @ behind)"
    using prefixI [OF assms(2) [symmetric]] by (simp_all add: prefix_def)
  then have "prefix (c @ BRACKETED_PASTE_END) y" using False by (metis prefix_same_cases prefix_order.le_less)
  then obtain z where y: "y = c @ BRACKETED_PASTE_END @ z" by (auto simp: prefix_def)
  moreover have "index_of BRACKETED_PASTE_END ((c @ BRACKETED_PASTE_END) @ z) = Some (length c)"
    using assms(1) by (rule index_of_append [OF token_ok.simps(3) [THEN iffD1]])
  ultimately show ?thesis using assms(2) by simp
qed

lemma end_paste_step:
  assumes ok: "list_all token_ok (Paste c # ts)" and mode: "sb_pasteMode s" "sb_buffer s = []" "\<not> sb_timeout s"
    and whole: "sb_pasteBuffer s @ future = c @ BRACKETED_PASTE_END @ token_texts ts"
    and run: "end_paste es s = ((fs, rest), s')"
  shows "\<exists>ts'. es @ token_events (Paste c # ts) p = fs @ token_events ts' (sb_pendingKitty s') \<and>
    holds_input s' ts' (rest @ future) \<and> list_all token_ok ts'"
proof -
  have "token_ok (Paste c)" using ok by simp
  from paste_end [OF this whole] show ?thesis
  proof (elim disjE exE conjE)
    assume part: "strict_prefix (sb_pasteBuffer s) (c @ BRACKETED_PASTE_END)"
      "index_of BRACKETED_PASTE_END (sb_pasteBuffer s) = None"
    then have "fs = es" "rest = []" "s' = s" using run by (simp_all add: end_paste_def)
    then show ?thesis using part ok mode whole by (intro exI [of _ "Paste c # ts"]) (simp add: holds_input_def)
  next
    fix z assume z: "sb_pasteBuffer s = c @ BRACKETED_PASTE_END @ z" "z @ future = token_texts ts"
      "index_of BRACKETED_PASTE_END (sb_pasteBuffer s) = Some (length c)"
    then have "fs = es @ [PasteEvent c]" "rest = z"
        "s' = s\<lparr>sb_pasteMode := False, sb_pasteBuffer := [], sb_pendingKitty := None\<rparr>"
      using run by (simp_all add: end_paste_def)
    then show ?thesis using z ok mode by (intro exI [of _ ts]) (simp add: holds_input_def part_of_head_def)
  qed
qed

lemma receive_step:
  assumes ok: "list_all token_ok ts" and holds: "holds_input s ts (str @ future)" and str: "str \<noteq> []"
    and run: "receive str s = ((es, rest), s')"
  shows "\<exists>ts'. token_events ts (sb_pendingKitty s) = es @ token_events ts' (sb_pendingKitty s') \<and>
    holds_input s' ts' (rest @ future) \<and> list_all token_ok ts'"
proof (cases "sb_pasteMode s")
  case True
  then obtain c ts' where ts: "ts = Paste c # ts'" "sb_pasteBuffer s @ str @ future = c @ BRACKETED_PASTE_END @ token_texts ts'"
      "sb_buffer s = []"
    using holds by (auto simp: holds_input_def)
  let ?s = "s\<lparr>sb_timeout := False, sb_pasteBuffer := sb_pasteBuffer s @ str, sb_buffer := []\<rparr>"
  have run': "end_paste [] ?s = ((es, rest), s')" using run True ts(3) str by (simp add: receive_def Let_def)
  have "\<exists>ts''. [] @ token_events (Paste c # ts') (sb_pendingKitty s) = es @ token_events ts'' (sb_pendingKitty s') \<and>
      holds_input s' ts'' (rest @ future) \<and> list_all token_ok ts''"
    by (rule end_paste_step [OF _ _ _ _ _ run']) (use True ts ok in simp_all)
  then show ?thesis using ts(1) by simp
next
  case False
  let ?x = "sb_buffer s @ str" and ?s = "s\<lparr>sb_timeout := False, sb_buffer := sb_buffer s @ str\<rparr>"
  have whole: "?x @ future = token_texts ts" and idle: "sb_pasteBuffer s = []" using holds False by (auto simp: holds_input_def)
  then have "prefix ?x (token_texts ts)" by (metis prefixI)
  from token_prefix [OF this] show ?thesis
  proof (elim disjE exE conjE)
    fix ps ts' r assume ts: "ts = ps @ ts'" "list_all (Not \<circ> is_paste) ps" "?x = token_texts ps @ r" "part_of_head r ts'"
    obtain fs q where emit: "emit_sequences (map token_text ps) (sb_pendingKitty s) = (fs, q)" by fastforce
    have ok': "list_all token_ok ps" "list_all token_ok ts'" using ok ts(1) by simp_all
    have "index_of BRACKETED_PASTE_START ?x = None" unfolding ts(3) by (rule no_start_index [OF ok'(1) ts(2) ok'(2) ts(4)])
    moreover have "extractCompleteSequences ?x = (map token_text ps, r)"
      unfolding ts(3) by (rule extract_tokens [OF ok'(1) ts(2) part_facts(1) [OF ok'(2) ts(4)]])
    ultimately have "es = fs \<and> rest = [] \<and> s' = ?s\<lparr>sb_buffer := r, sb_pendingKitty := q, sb_timeout := (r \<noteq> [])\<rparr>"
      using run False str emit by (auto simp: receive_def process_sequences_def Let_def)
    moreover have "r @ future = token_texts ts'" using whole ts(1,3) by simp
    ultimately show ?thesis
      using ts emit False idle ok'(2) by (intro exI [of _ ts']) (simp add: holds_input_def token_events_append)
  next
    fix ps c ts' y assume ts: "ts = ps @ Paste c # ts'" "list_all (Not \<circ> is_paste) ps" "?x = token_texts ps @ BRACKETED_PASTE_START @ y"
    obtain fs q where emit: "emit_sequences (map token_text ps) (sb_pendingKitty s) = (fs, q)" by fastforce
    have ok': "list_all token_ok ps" "list_all token_ok (Paste c # ts')" using ok ts(1) by simp_all
    have index: "index_of BRACKETED_PASTE_START ?x = Some (length (token_texts ps))"
      unfolding ts(3) by (rule start_index [OF ok'(1) ts(2)])
    have split_off: "extractCompleteSequences (token_texts ps) = (map token_text ps, [])"
      using extract_tokens [OF ok'(1) ts(2), of "[]"] by simp
    let ?p = "s\<lparr>sb_timeout := False, sb_pendingKitty := None, sb_buffer := [], sb_pasteMode := True, sb_pasteBuffer := y\<rparr>"
    have "ps = []" if "token_texts ps = []"
      using that ok'(1) whole_not_Nil by (cases ps; cases "hd ps") (auto simp: BRACKETED_PASTE_START_def)
    then have "start_paste (length (token_texts ps)) ?s = (fs, ?p)"
      using emit split_off ts(3) by (auto simp: start_paste_def)
    then have run': "end_paste fs ?p = ((es, rest), s')"
      using run False str index by (auto simp: receive_def Let_def)
    have "y @ future = c @ BRACKETED_PASTE_END @ token_texts ts'" using whole ts(1,3) by simp
    then have "\<exists>ts''. fs @ token_events (Paste c # ts') q = es @ token_events ts'' (sb_pendingKitty s') \<and>
        holds_input s' ts'' (rest @ future) \<and> list_all token_ok ts''"
      by (intro end_paste_step [OF ok'(2) _ _ _ _ run']) simp_all
    then show ?thesis using ts(1,2) emit by (simp add: token_events_append)
  qed
qed


lemma process_step:
  "list_all token_ok ts \<Longrightarrow> holds_input s ts (str @ future) \<Longrightarrow> str \<noteq> [] \<Longrightarrow> process_text str s = (es, s') \<Longrightarrow>
   \<exists>ts'. token_events ts (sb_pendingKitty s) = es @ token_events ts' (sb_pendingKitty s') \<and>
    holds_input s' ts' future \<and> list_all token_ok ts'"
proof (induction str s arbitrary: ts es s' rule: process_text.induct)
  case (1 str s)
  obtain fs rest s1 where run: "receive str s = ((fs, rest), s1)" by (metis prod.exhaust)
  obtain ts1 where ts1: "token_events ts (sb_pendingKitty s) = fs @ token_events ts1 (sb_pendingKitty s1)"
      "holds_input s1 ts1 (rest @ future)" "list_all token_ok ts1"
    using receive_step [OF "1.prems"(1-3) run] by blast
  show ?case
  proof (cases "rest = []")
    case True
    then have "es = fs" "s' = s1" using "1.prems"(4) run by (simp_all add: process_text.simps [of str s])
    then show ?thesis using ts1 True by auto
  next
    case False
    obtain gs s2 where rec: "process_text rest s1 = (gs, s2)" by fastforce
    then have "es = fs @ gs" "s' = s2" using "1.prems"(4) run False by (simp_all add: process_text.simps [of str s])
    moreover obtain ts2 where "token_events ts1 (sb_pendingKitty s1) = gs @ token_events ts2 (sb_pendingKitty s2)"
        "holds_input s2 ts2 future" "list_all token_ok ts2"
      using "1.IH" [OF run [symmetric] refl _ ts1(3,2) False rec] False by blast
    ultimately show ?thesis using ts1(1) by auto
  qed
qed

lemma chunks_step:
  "list_all token_ok ts \<Longrightarrow> holds_input s ts (concat chunks) \<Longrightarrow> [] \<notin> set chunks \<Longrightarrow> process_chunks chunks s = (es, s') \<Longrightarrow>
   \<exists>ts'. token_events ts (sb_pendingKitty s) = es @ token_events ts' (sb_pendingKitty s') \<and> holds_input s' ts' [] \<and>
    list_all token_ok ts'"
proof (induction chunks arbitrary: ts s es s')
  case (Cons c cs)
  obtain fs s1 where run: "process_text c s = (fs, s1)" by fastforce
  obtain gs s2 where rec: "process_chunks cs s1 = (gs, s2)" by fastforce
  obtain ts1 where ts1: "token_events ts (sb_pendingKitty s) = fs @ token_events ts1 (sb_pendingKitty s1)"
      "holds_input s1 ts1 (concat cs)" "list_all token_ok ts1"
    using process_step [OF Cons.prems(1) _ _ run] Cons.prems(2,3) by auto
  from Cons.IH [OF ts1(3,2) _ rec] show ?case using Cons.prems(3,4) ts1(1) run rec by auto
qed auto

lemma nothing_held:
  assumes "holds_input s ts []" and ok: "list_all token_ok ts"
  shows "ts = [] \<and> sb_buffer s = [] \<and> sb_pasteBuffer s = [] \<and> \<not> sb_pasteMode s \<and> \<not> sb_timeout s"
proof (cases "sb_pasteMode s")
  case True
  then show ?thesis using assms by (auto simp: holds_input_def dest: prefix_length_less)
next
  case False
  then have s: "part_of_head (sb_buffer s) ts" "sb_buffer s = token_texts ts" using assms by (auto simp: holds_input_def)
  have "ts = []"
  proof (cases ts)
    case (Cons t ts')
    have "token_text t \<noteq> []" using ok Cons whole_not_Nil by (cases t) (auto simp: BRACKETED_PASTE_START_def)
    then have "strict_prefix (sb_buffer s) (lead_text t)" using s Cons by (auto simp: part_of_head_def)
    then have "length (sb_buffer s) < length (lead_text t)" by (rule prefix_length_less)
    moreover have "length (lead_text t) \<le> length (token_text t)" by (cases t) simp_all
    ultimately show ?thesis using s(2) Cons by simp
  qed simp
  then show ?thesis using s assms False by (auto simp: holds_input_def)
qed



section \<open>Examples\<close>

text \<open>A character, the mouse sequence \<open>ESC[<35;20;5m\<close>, an arrow key and a paste, in four pieces.\<close>

definition typed :: "input_token list" where
  "typed = [Plain 97, Sequence (ESC # ucs ''[<35;20;5m''), Sequence (ESC # ucs ''[A''), Paste (ucs ''x'')]"

definition typed_pieces :: "ustring list" where
  "typed_pieces = [ucs ''a'' @ [ESC], ucs ''[<35'', ucs '';20;5m'' @ [ESC] @ ucs ''[A'' @ [ESC] @ ucs ''[20'',
     ucs ''0~x'' @ [ESC] @ ucs ''[201~'']"

lemma typed_simps:
  "list_all token_ok typed" "concat typed_pieces = token_texts typed" "list_all (\<lambda>c. c \<noteq> []) typed_pieces"
  "token_events typed None =
     [DataEvent (ucs ''a''), DataEvent (ESC # ucs ''[<35;20;5m''), DataEvent (ESC # ucs ''[A''), PasteEvent (ucs ''x'')]"
  by code_simp+


text \<open>
  An incomplete sequence right before a paste is lost: of an escape key and a paste that arrive
  together, only the paste comes out.
\<close>

lemma escape_before_paste_lost:
  "fst (process_text ([ESC] @ BRACKETED_PASTE_START @ [120] @ BRACKETED_PASTE_END) new_stdin_buffer) = [PasteEvent [120]]"
  by code_simp

text \<open>
  Two escapes are told apart from an escape and the start of a sequence by the next character only when
  it has arrived already.
\<close>

lemma double_escape_depends_on_pieces:
  "fst (process_chunks [[ESC, ESC], ucs ''[A''] new_stdin_buffer) = [DataEvent [ESC, ESC], DataEvent (ucs ''[''), DataEvent (ucs ''A'')]"
  "fst (process_chunks [[ESC, ESC] @ ucs ''[A''] new_stdin_buffer) = [DataEvent [ESC], DataEvent (ESC # ucs ''[A'')]"
  by code_simp+

end
