(* ===== verification/EventStream.thy ===== *)
theory EventStream
  imports AgentLoopProps
begin

text \<open>
  The event stream between the agent loop and who consumes it (\<open>packages/ai/src/utils/event-stream.ts\<close>
  and the wrappers of \<open>packages/agent/src/agent-loop.ts\<close>): a queue of events, the consumers that
  wait for one, and a promise for the result. A consumer is asynchronous: an event handed to a waiting
  one is taken when its promise is resumed, and the producer may go on in between. The interleavings
  are a step relation on the script of the producer, the stream and the consumer.
\<close>

section \<open>The stream\<close>

datatype 'e delivery = Value 'e | Stop

record ('e, 'r) event_stream =
  es_queue :: "'e list"
  es_waiting :: "nat list"
  es_done :: bool
  es_result :: "'r option"

definition new_stream :: "('e, 'r) event_stream" where
  "new_stream = \<lparr>es_queue = [], es_waiting = [], es_done = False, es_result = None\<rparr>"

text \<open>Only the first resolution of the promise counts.\<close>

definition resolve_result :: "'r \<Rightarrow> ('e, 'r) event_stream \<Rightarrow> ('e, 'r) event_stream" where
  "resolve_result r s = s\<lparr>es_result := (case es_result s of None \<Rightarrow> Some r | Some r' \<Rightarrow> Some r')\<rparr>"

text \<open>The operations return the waiting consumers they resume, each with what it is given.\<close>

definition stream_push ::
  "('e \<Rightarrow> bool) \<Rightarrow> ('e \<Rightarrow> 'r) \<Rightarrow> 'e \<Rightarrow> ('e, 'r) event_stream \<Rightarrow> (nat \<times> 'e delivery) list \<times> ('e, 'r) event_stream" where
  "stream_push isComplete extractResult event s =
     (if es_done s then ([], s)
      else
        let s = (if isComplete event then resolve_result (extractResult event) (s\<lparr>es_done := True\<rparr>) else s)
        in case es_waiting s of
             [] \<Rightarrow> ([], s\<lparr>es_queue := es_queue s @ [event]\<rparr>)
           | waiter # ws \<Rightarrow> ([(waiter, Value event)], s\<lparr>es_waiting := ws\<rparr>))"

definition stream_end :: "'r option \<Rightarrow> ('e, 'r) event_stream \<Rightarrow> (nat \<times> 'e delivery) list \<times> ('e, 'r) event_stream" where
  "stream_end result s =
     (let s = s\<lparr>es_done := True\<rparr>;
          s = (case result of None \<Rightarrow> s | Some r \<Rightarrow> resolve_result r s)
      in (map (\<lambda>waiter. (waiter, Stop)) (es_waiting s), s\<lparr>es_waiting := []\<rparr>))"

text \<open>A turn of the iterator: an event, the end, or waiting.\<close>

definition stream_next :: "nat \<Rightarrow> ('e, 'r) event_stream \<Rightarrow> 'e delivery option \<times> ('e, 'r) event_stream" where
  "stream_next consumer s =
     (case es_queue s of
        event # events \<Rightarrow> (Some (Value event), s\<lparr>es_queue := events\<rparr>)
      | [] \<Rightarrow>
          if es_done s then (Some Stop, s)
          else (None, s\<lparr>es_waiting := es_waiting s @ [consumer]\<rparr>))"

section \<open>A producer and a consumer\<close>

datatype ('e, 'r) producer_action = Push 'e | End "'r option"

datatype 'e consumer_phase = Ready | Blocked | Resumed "'e delivery" | Finished

record ('e, 'r) stream_run =
  sr_todo :: "('e, 'r) producer_action list"
  sr_stream :: "('e, 'r) event_stream"
  sr_phase :: "'e consumer_phase"
  sr_received :: "'e list"

definition produce ::
  "('e \<Rightarrow> bool) \<Rightarrow> ('e \<Rightarrow> 'r) \<Rightarrow> ('e, 'r) producer_action \<Rightarrow> ('e, 'r) event_stream \<Rightarrow>
   (nat \<times> 'e delivery) list \<times> ('e, 'r) event_stream" where
  "produce isComplete extractResult action s =
     (case action of Push e \<Rightarrow> stream_push isComplete extractResult e s | End r \<Rightarrow> stream_end r s)"

definition consume :: "'e delivery \<Rightarrow> ('e, 'r) stream_run \<Rightarrow> ('e, 'r) stream_run" where
  "consume d r =
     (case d of Value e \<Rightarrow> r\<lparr>sr_phase := Ready, sr_received := sr_received r @ [e]\<rparr> | Stop \<Rightarrow> r\<lparr>sr_phase := Finished\<rparr>)"

text \<open>The only consumer has the number 0.\<close>

inductive stream_step :: "('e \<Rightarrow> bool) \<Rightarrow> ('e \<Rightarrow> 'r) \<Rightarrow> ('e, 'r) stream_run \<Rightarrow> ('e, 'r) stream_run \<Rightarrow> bool"
  for isComplete extractResult where
  produced: "stream_step isComplete extractResult r
      (r\<lparr>sr_todo := todo, sr_stream := s,
         sr_phase := (case resumed of [] \<Rightarrow> sr_phase r | (_, d) # _ \<Rightarrow> Resumed d)\<rparr>)"
  if "sr_todo r = action # todo" and "produce isComplete extractResult action (sr_stream r) = (resumed, s)"
| asked: "stream_step isComplete extractResult r (consume d (r\<lparr>sr_stream := s\<rparr>))"
  if "sr_phase r = Ready" and "stream_next 0 (sr_stream r) = (Some d, s)"
| blocked: "stream_step isComplete extractResult r (r\<lparr>sr_stream := s, sr_phase := Blocked\<rparr>)"
  if "sr_phase r = Ready" and "stream_next 0 (sr_stream r) = (None, s)"
| taken: "stream_step isComplete extractResult r (consume d r)"
  if "sr_phase r = Resumed d"

inductive stream_steps ::
  "('e \<Rightarrow> bool) \<Rightarrow> ('e \<Rightarrow> 'r) \<Rightarrow> nat \<Rightarrow> ('e, 'r) stream_run \<Rightarrow> ('e, 'r) stream_run \<Rightarrow> bool"
  for isComplete extractResult where
  no_step: "stream_steps isComplete extractResult 0 r r"
| more_steps: "stream_steps isComplete extractResult (Suc n) r r''"
  if "stream_steps isComplete extractResult n r r'" and "stream_step isComplete extractResult r' r''"

inductive_cases stream_stepE: "stream_step isComplete extractResult r r'"

definition start_stream :: "('e, 'r) producer_action list \<Rightarrow> ('e, 'r) stream_run" where
  "start_stream script = \<lparr>sr_todo = script, sr_stream = new_stream, sr_phase = Ready, sr_received = []\<rparr>"


section \<open>What the consumer sees\<close>

definition in_flight :: "'e consumer_phase \<Rightarrow> 'e list" where
  "in_flight p = (case p of Resumed (Value e) \<Rightarrow> [e] | _ \<Rightarrow> [])"

lemma in_flight_simps [simp]:
  "in_flight Ready = []" "in_flight Blocked = []" "in_flight Finished = []" "in_flight (Resumed Stop) = []"
  "in_flight (Resumed (Value e)) = [e]"
  by (simp_all add: in_flight_def)

text \<open>
  After \<open>k\<close> events the events received, in flight and queued are these, in order; the stream is done
  once the completing event has come or the producer has ended it, and a consumer waits only on a
  stream that is not done.
\<close>

definition flow_ok :: "'e list \<Rightarrow> ('e, 'r) stream_run \<Rightarrow> bool" where
  "flow_ok pushed r =
     (let s = sr_stream r; p = sr_phase r in
      pushed = sr_received r @ in_flight p @ es_queue s \<and>
      es_waiting s = (if p = Blocked then [0] else []) \<and>
      (p = Blocked \<longrightarrow> es_queue s = [] \<and> \<not> es_done s) \<and>
      (p = Finished \<or> p = Resumed Stop \<longrightarrow> es_queue s = [] \<and> es_done s))"

lemma flow_push:
  assumes "flow_ok pushed r" and "\<not> es_done (sr_stream r)"
    and "stream_push isC ext e (sr_stream r) = (resumed, s)"
  shows "flow_ok (pushed @ [e])
      (r\<lparr>sr_todo := todo, sr_stream := s, sr_phase := (case resumed of [] \<Rightarrow> sr_phase r | (_, d) # _ \<Rightarrow> Resumed d)\<rparr>) \<and>
    es_done s = isC e \<and> es_result s = (if isC e then es_result (resolve_result (ext e) (sr_stream r)) else es_result (sr_stream r))"
  using assms
  by (cases "sr_phase r = Blocked") (auto simp: flow_ok_def stream_push_def resolve_result_def Let_def split: if_splits)

lemma flow_end:
  assumes "flow_ok pushed r" and "stream_end res (sr_stream r) = (resumed, s)"
  shows "flow_ok pushed
      (r\<lparr>sr_todo := todo, sr_stream := s, sr_phase := (case resumed of [] \<Rightarrow> sr_phase r | (_, d) # _ \<Rightarrow> Resumed d)\<rparr>) \<and>
    es_done s \<and>
    es_result s = (case res of None \<Rightarrow> es_result (sr_stream r) | Some x \<Rightarrow> es_result (resolve_result x (sr_stream r)))"
  using assms
  by (cases "sr_phase r = Blocked")
    (auto simp: flow_ok_def stream_end_def resolve_result_def Let_def split: if_splits option.splits)

lemma flow_next:
  assumes "flow_ok pushed r" and "sr_phase r = Ready" and "stream_next 0 (sr_stream r) = (d, s)"
  shows "flow_ok pushed (case d of None \<Rightarrow> r\<lparr>sr_stream := s, sr_phase := Blocked\<rparr> | Some d \<Rightarrow> consume d (r\<lparr>sr_stream := s\<rparr>)) \<and>
    es_done s = es_done (sr_stream r) \<and> es_result s = es_result (sr_stream r)"
  using assms by (auto simp: flow_ok_def stream_next_def consume_def Let_def split: list.splits if_splits)

lemma flow_taken:
  assumes "flow_ok pushed r" and "sr_phase r = Resumed d"
  shows "flow_ok pushed (consume d r)"
  using assms by (cases d) (auto simp: flow_ok_def consume_def Let_def)

lemma consume_simps [simp]: "sr_todo (consume d r) = sr_todo r" "sr_stream (consume d r) = sr_stream r"
  by (simp_all add: consume_def split: delivery.splits)


section \<open>Whole scripts\<close>

text \<open>A script: the events, of which at most the last one completes the stream, and the end if it comes.\<close>

definition script_ok :: "('e \<Rightarrow> bool) \<Rightarrow> ('e \<Rightarrow> 'r) \<Rightarrow> 'e list \<Rightarrow> ('e, 'r) producer_action list \<Rightarrow> 'r \<Rightarrow> bool" where
  "script_ok isC ext evs tail res =
     (list_all (\<lambda>e. \<not> isC e) (butlast evs) \<and> list_all (\<lambda>e. isC e \<longrightarrow> ext e = res) evs \<and>
      (tail = [] \<or> tail = [End (Some res)]))"

definition script_inv ::
  "('e \<Rightarrow> bool) \<Rightarrow> ('e \<Rightarrow> 'r) \<Rightarrow> 'e list \<Rightarrow> ('e, 'r) producer_action list \<Rightarrow> 'r \<Rightarrow> ('e, 'r) stream_run \<Rightarrow> bool" where
  "script_inv isC ext evs tail res r =
     (\<exists>pushed rest. evs = pushed @ rest \<and> flow_ok pushed r \<and>
        (sr_todo r = map Push rest @ tail \<and> es_done (sr_stream r) = list_ex isC pushed \<or>
         rest = [] \<and> sr_todo r = [] \<and> tail \<noteq> [] \<and> es_done (sr_stream r)) \<and>
        es_result (sr_stream r) = (if es_done (sr_stream r) then Some res else None))"

lemma flow_cong:
  "flow_ok pushed r \<Longrightarrow> sr_stream r' = sr_stream r \<Longrightarrow> sr_phase r' = sr_phase r \<Longrightarrow> sr_received r' = sr_received r \<Longrightarrow>
   flow_ok pushed r'"
  by (simp add: flow_ok_def)

lemma produced_inv:
  assumes ok: "script_ok isC ext evs tail res" and inv: "script_inv isC ext evs tail res r"
    and todo: "sr_todo r = action # todo" and run: "produce isC ext action (sr_stream r) = (resumed, s)"
  shows "script_inv isC ext evs tail res
      (r\<lparr>sr_todo := todo, sr_stream := s, sr_phase := (case resumed of [] \<Rightarrow> sr_phase r | (_, d) # _ \<Rightarrow> Resumed d)\<rparr>)"
proof -
  obtain pushed rest where parts: "evs = pushed @ rest" "flow_ok pushed r" "sr_todo r = map Push rest @ tail"
      "es_done (sr_stream r) = list_ex isC pushed"
      "es_result (sr_stream r) = (if es_done (sr_stream r) then Some res else None)"
    using inv todo by (auto simp: script_inv_def)
  show ?thesis
  proof (cases rest)
    case (Cons e rest')
    then have action: "action = Push e" "todo = map Push rest' @ tail" using parts(3) todo by simp_all
    have "list_all (\<lambda>e. \<not> isC e) pushed" "isC e \<longrightarrow> ext e = res"
      using ok parts(1) Cons by (simp_all add: script_ok_def butlast_append split: if_splits)
    then have fresh: "\<not> es_done (sr_stream r)" "\<not> list_ex isC pushed" using parts(4) by (auto simp: list_all_iff list_ex_iff)
    have push: "stream_push isC ext e (sr_stream r) = (resumed, s)" using run action by (simp add: produce_def)
    from flow_push [OF parts(2) fresh(1) push, of todo] show ?thesis
      unfolding script_inv_def using parts(1,5) Cons action fresh \<open>isC e \<longrightarrow> ext e = res\<close>
      by (intro exI [of _ "pushed @ [e]"] exI [of _ rest']) (auto simp: resolve_result_def)
  next
    case Nil
    then have action: "action = End (Some res)" "todo = []" "tail \<noteq> []"
      using parts(3) todo ok by (auto simp: script_ok_def)
    have "stream_end (Some res) (sr_stream r) = (resumed, s)" using run action by (simp add: produce_def)
    from flow_end [OF parts(2) this, of todo] show ?thesis
      unfolding script_inv_def using parts(1,5) Nil action
      by (intro exI [of _ pushed] exI [of _ "[]"]) (auto simp: resolve_result_def)
  qed
qed

lemma script_inv_keep:
  assumes "script_inv isC ext evs tail res r" and "\<And>pushed. flow_ok pushed r \<Longrightarrow> flow_ok pushed r'" and "sr_todo r' = sr_todo r"
    and "es_done (sr_stream r') = es_done (sr_stream r)" and "es_result (sr_stream r') = es_result (sr_stream r)"
  shows "script_inv isC ext evs tail res r'"
proof -
  obtain pushed rest where "evs = pushed @ rest" "flow_ok pushed r"
      "sr_todo r = map Push rest @ tail \<and> es_done (sr_stream r) = list_ex isC pushed \<or>
         rest = [] \<and> sr_todo r = [] \<and> tail \<noteq> [] \<and> es_done (sr_stream r)"
      "es_result (sr_stream r) = (if es_done (sr_stream r) then Some res else None)"
    using assms(1) unfolding script_inv_def by blast
  then show ?thesis
    unfolding script_inv_def assms(3-5) using assms(2) by (intro exI [of _ pushed] exI [of _ rest]) simp
qed

lemma step_inv:
  assumes "script_ok isC ext evs tail res" and "script_inv isC ext evs tail res r" and "stream_step isC ext r r'"
  shows "script_inv isC ext evs tail res r'"
  using assms(3)
proof cases
  case (produced action todo resumed s)
  then show ?thesis using produced_inv [OF assms(1,2)] by simp
next
  case (asked d s)
  have "es_done s = es_done (sr_stream r) \<and> es_result s = es_result (sr_stream r)"
    using asked(3) by (auto simp: stream_next_def split: list.splits if_splits)
  then show ?thesis
    unfolding asked(1) using flow_next [OF _ asked(2,3)] by (intro script_inv_keep [OF assms(2)]) auto
next
  case (blocked s)
  have "es_done s = es_done (sr_stream r) \<and> es_result s = es_result (sr_stream r)"
    using blocked(3) by (auto simp: stream_next_def split: list.splits if_splits)
  then show ?thesis
    unfolding blocked(1) using flow_next [OF _ blocked(2,3)] by (intro script_inv_keep [OF assms(2)]) auto
next
  case (taken d)
  then show ?thesis
    unfolding taken(1) using flow_taken [OF _ taken(2)] by (intro script_inv_keep [OF assms(2)]) auto
qed

definition phase_weight :: "'e consumer_phase \<Rightarrow> nat" where
  "phase_weight p = (case p of Ready \<Rightarrow> 1 | Blocked \<Rightarrow> 0 | Resumed _ \<Rightarrow> 2 | Finished \<Rightarrow> 0)"

definition work_left :: "('e, 'r) stream_run \<Rightarrow> nat" where
  "work_left r = 4 * length (sr_todo r) + 2 * length (es_queue (sr_stream r)) + phase_weight (sr_phase r)"

lemma step_less:
  assumes "stream_step isC ext r r'"
  shows "work_left r' < work_left r"
  using assms
proof cases
  case (produced action todo resumed s)
  have "length (es_queue s) \<le> Suc (length (es_queue (sr_stream r)))"
    using produced(3) by (auto simp: produce_def stream_push_def stream_end_def resolve_result_def Let_def
        split: producer_action.splits if_splits list.splits option.splits)
  moreover have "resumed = [] \<or> length (es_queue s) = length (es_queue (sr_stream r))"
    using produced(3) by (auto simp: produce_def stream_push_def stream_end_def resolve_result_def Let_def
        split: producer_action.splits if_splits list.splits option.splits)
  ultimately show ?thesis using produced(1,2) by (auto simp: work_left_def phase_weight_def split: list.splits)
qed (auto simp: work_left_def phase_weight_def consume_def stream_next_def split: delivery.splits list.splits if_splits)

lemma steps_inv:
  assumes "script_ok isC ext evs tail res" and "stream_steps isC ext n (start_stream (map Push evs @ tail)) r"
  shows "script_inv isC ext evs tail res r \<and> n + work_left r \<le> 4 * (length evs + length tail) + 1"
  using assms(2)
proof (induction n "start_stream (map Push evs @ tail)" r rule: stream_steps.induct)
  case no_step
  show ?case
    by (auto simp: script_inv_def start_stream_def flow_ok_def new_stream_def work_left_def phase_weight_def)
next
  case (more_steps n r' r'')
  then show ?case using step_inv [OF assms(1)] step_less by fastforce
qed

lemma stuck_phase:
  assumes "\<nexists>r'. stream_step isC ext r r'"
  shows "sr_todo r = [] \<and> (sr_phase r = Blocked \<or> sr_phase r = Finished)"
proof
  show "sr_todo r = []"
  proof (rule ccontr)
    assume "sr_todo r \<noteq> []"
    then obtain action todo where "sr_todo r = action # todo" by (cases "sr_todo r") auto
    moreover obtain resumed s where "produce isC ext action (sr_stream r) = (resumed, s)" by fastforce
    ultimately show False using assms produced by metis
  qed
  have "sr_phase r \<noteq> Ready"
  proof
    assume ready: "sr_phase r = Ready"
    show False
    proof (cases "stream_next 0 (sr_stream r)")
      case (Pair d s)
      then show False using assms asked [OF ready] blocked [OF ready] by (cases d) blast+
    qed
  qed
  moreover have "sr_phase r \<noteq> Resumed d" for d using assms taken by metis
  ultimately show "sr_phase r = Blocked \<or> sr_phase r = Finished" by (cases "sr_phase r") auto
qed


text \<open>Every run can be run to its end.\<close>

lemma runs_stop: "\<exists>n r'. stream_steps isC ext n r r' \<and> (\<nexists>r''. stream_step isC ext r' r'')"
proof -
  have "\<exists>m r''. stream_steps isC ext m r r'' \<and> (\<nexists>r'''. stream_step isC ext r'' r''')"
    if "stream_steps isC ext n r r'" for n r'
    using that
  proof (induction "work_left r'" arbitrary: n r' rule: less_induct)
    case less
    show ?case
    proof (cases "\<exists>r''. stream_step isC ext r' r''")
      case True
      then obtain r'' where step: "stream_step isC ext r' r''" by blast
      show ?thesis using less.hyps [OF step_less [OF step] more_steps [OF less.prems step]] .
    qed (use less.prems in blast)
  qed
  from this [OF no_step] show ?thesis .
qed

lemma stopped_run:
  assumes "script_ok isC ext evs tail res" and "stream_steps isC ext n (start_stream (map Push evs @ tail)) r"
    and "\<nexists>r'. stream_step isC ext r r'"
  shows "sr_received r = evs" and "es_done (sr_stream r) \<longleftrightarrow> sr_phase r = Finished"
    and "es_done (sr_stream r) \<longleftrightarrow> tail \<noteq> [] \<or> list_ex isC evs"
    and "es_result (sr_stream r) = (if es_done (sr_stream r) then Some res else None)"
proof -
  obtain pushed rest where parts: "evs = pushed @ rest" "flow_ok pushed r"
      "sr_todo r = map Push rest @ tail \<and> es_done (sr_stream r) = list_ex isC pushed \<or>
         rest = [] \<and> sr_todo r = [] \<and> tail \<noteq> [] \<and> es_done (sr_stream r)"
      "es_result (sr_stream r) = (if es_done (sr_stream r) then Some res else None)"
    using steps_inv [OF assms(1,2)] unfolding script_inv_def by blast
  have phase: "sr_todo r = []" "sr_phase r = Blocked \<or> sr_phase r = Finished" using stuck_phase [OF assms(3)] by auto
  then have "rest = []" using parts(3) by auto
  then show "sr_received r = evs" "es_done (sr_stream r) \<longleftrightarrow> sr_phase r = Finished"
    "es_done (sr_stream r) \<longleftrightarrow> tail \<noteq> [] \<or> list_ex isC evs"
    "es_result (sr_stream r) = (if es_done (sr_stream r) then Some res else None)"
    using parts phase by (auto simp: flow_ok_def Let_def)
qed

section \<open>The stream of an agent run\<close>

fun is_agent_end :: "agent_event \<Rightarrow> bool" where
  "is_agent_end (AgentEnd ms) = True" | "is_agent_end _ = False"

fun agent_end_messages :: "agent_event \<Rightarrow> agent_message list" where
  "agent_end_messages (AgentEnd ms) = ms" | "agent_end_messages _ = []"

text \<open>
  What the wrappers do to the stream: every event of the run is pushed, and the stream is ended with
  the messages when the run returns. When it throws, the stream is left as it is.
\<close>

definition loop_script ::
  "((string + agent_message list) \<times> 'w st) option \<Rightarrow> (agent_event, agent_message list) producer_action list option" where
  "loop_script run =
     (case run of
        None \<Rightarrow> None
      | Some (Inr messages, (w, evs)) \<Rightarrow> Some (map Push evs @ [End (Some messages)])
      | Some (Inl e, (w, evs)) \<Rightarrow> Some (map Push evs))"

definition agentLoop ::
  "'w loop_env \<Rightarrow> agent_message list \<Rightarrow> 'w agent_context \<Rightarrow> 'w agent_loop_config \<Rightarrow> 'w \<Rightarrow>
   (agent_event, agent_message list) producer_action list option" where
  "agentLoop env prompts ctx cfg w = loop_script (runAgentLoop env prompts ctx cfg (w, []))"

definition agentLoopContinue ::
  "'w loop_env \<Rightarrow> 'w agent_context \<Rightarrow> 'w agent_loop_config \<Rightarrow> 'w \<Rightarrow>
   string + (agent_event, agent_message list) producer_action list option" where
  "agentLoopContinue env ctx cfg w =
     (if length (ac_messages ctx) = 0 then Inl no_messages_error
      else if is_assistant (last (ac_messages ctx)) then Inl last_assistant_error
      else Inr (loop_script (runAgentLoopContinue env ctx cfg (w, []))))"

lemma log_outside_turn: "read_log evs = Some l \<Longrightarrow> el_phase l \<noteq> InTurn \<Longrightarrow> \<not> el_open l \<and> el_running l = {#}"
proof (induction evs arbitrary: l rule: rev_induct)
  case Nil
  then show ?case by (auto simp: read_log_def empty_log_def)
next
  case (snoc ev evs)
  then obtain l' where l': "read_log evs = Some l'" "log_step l' ev = Some l" by (auto simp: read_log_snoc bind_eq_Some_conv)
  then show ?case
    using snoc.IH [OF l'(1)] snoc.prems(2)
    by (cases ev) (auto simp: log_step_def quiet_def split: if_splits)
qed

lemma nothing_after_agent_end:
  assumes "read_log (evs @ AgentEnd ms # later) \<noteq> None"
  shows "later = []"
proof (cases later)
  case (Cons ev later')
  have none: "foldl (\<lambda>l ev. Option.bind l (\<lambda>l. log_step l ev)) None es = None" for es by (induction es) simp_all
  obtain l where l: "read_log (evs @ [AgentEnd ms]) = Some l"
    using assms none by (cases "read_log (evs @ [AgentEnd ms])") (auto simp: read_log_def)
  then have "el_phase l = AfterRun"
    by (auto simp: read_log_snoc bind_eq_Some_conv log_step_def split: if_splits)
  then have "log_step l ev = None"
    using log_outside_turn [OF l] by (cases ev) (auto simp: log_step_def quiet_def)
  then have "read_log ((evs @ [AgentEnd ms]) @ ev # later') = None" using l none by (simp add: read_log_def)
  then show ?thesis using assms Cons by simp
qed simp

lemma run_script_ok:
  assumes "sound_stream env" and "runAgentLoop env prompts ctx cfg (w, []) = Some (Inr msgs, (w', evs))"
  shows "script_ok is_agent_end agent_end_messages evs [End (Some msgs)] msgs"
proof -
  have ended: "run_ended prompts msgs (w', evs)" by (rule wp_Inr [OF wp_runAgentLoop [OF assms(1)] assms(2)])
  then have log: "read_log evs \<noteq> None" "last evs = AgentEnd msgs" by (auto simp: run_ended_def log_at_def)
  have "evs \<noteq> []" using ended by (auto simp: run_ended_def log_at_def read_log_def empty_log_def)
  then have evs: "evs = butlast evs @ [AgentEnd msgs]" using log(2) by (metis append_butlast_last_id)
  have "\<not> is_agent_end e" if "e \<in> set (butlast evs)" for e
  proof
    assume "is_agent_end e"
    then obtain ms where "e = AgentEnd ms" by (cases e) auto
    then obtain xs ys where "butlast evs = xs @ AgentEnd ms # ys" using \<open>e \<in> set (butlast evs)\<close> by (metis split_list)
    then have "evs = xs @ AgentEnd ms # (ys @ [AgentEnd msgs])" using evs by simp
    then show False using nothing_after_agent_end [of xs ms "ys @ [AgentEnd msgs]"] log(1) by simp
  qed
  then have "list_all (\<lambda>e. \<not> is_agent_end e) (butlast evs)" by (simp add: list_all_iff)
  moreover from this have "list_all (\<lambda>e. is_agent_end e \<longrightarrow> agent_end_messages e = msgs) evs"
    by (subst evs) (auto simp: list_all_iff)
  ultimately show ?thesis by (simp add: script_ok_def)
qed

text \<open>
  C14: Who iterates over the stream of \<open>agentLoop\<close> receives the events of the run in order, at every
  moment a beginning of them. However the run and the consumer are interleaved, they come to an end
  after a bounded number of steps, and then the consumer has received every event and has finished,
  and the result of the stream is the messages the run returned.
\<close>

theorem agent_stream_delivers:
  assumes "sound_stream env" and "runAgentLoop env prompts ctx cfg (w, []) = Some (Inr msgs, (w', evs))"
    and "agentLoop env prompts ctx cfg w = Some script"
    and "stream_steps is_agent_end agent_end_messages n (start_stream script) r"
  shows "n \<le> 4 * length evs + 5 \<and> prefix (sr_received r) evs \<and>
    ((\<nexists>r'. stream_step is_agent_end agent_end_messages r r') \<longrightarrow>
      sr_phase r = Finished \<and> sr_received r = evs \<and> es_result (sr_stream r) = Some msgs)"
proof -
  have script: "script = map Push evs @ [End (Some msgs)]" using assms(2,3) by (simp add: agentLoop_def loop_script_def)
  note ok = run_script_ok [OF assms(1,2)]
  note steps = assms(4) [unfolded script]
  have "n + work_left r \<le> 4 * (length evs + 1) + 1" using steps_inv [OF ok steps] by simp
  moreover have "prefix (sr_received r) evs"
    using steps_inv [OF ok steps] by (auto simp: script_inv_def flow_ok_def Let_def)
  moreover have "sr_phase r = Finished \<and> sr_received r = evs \<and> es_result (sr_stream r) = Some msgs"
    if "\<nexists>r'. stream_step is_agent_end agent_end_messages r r'"
    using stopped_run [OF ok steps that] by simp
  ultimately show ?thesis by simp
qed

text \<open>
  When the run throws without having ended, nobody ends the stream: its consumer waits forever, and
  the result never comes.
\<close>

lemma stream_of_failed_run_hangs:
  assumes "runAgentLoop env prompts ctx cfg (w, []) = Some (Inl e, (w', evs))" and "list_all (Not \<circ> is_agent_end) evs"
    and "agentLoop env prompts ctx cfg w = Some script"
    and "stream_steps is_agent_end agent_end_messages n (start_stream script) r"
    and "\<nexists>r'. stream_step is_agent_end agent_end_messages r r'"
  shows "sr_phase r = Blocked \<and> sr_received r = evs \<and> es_result (sr_stream r) = None"
proof -
  have script: "script = map Push evs @ []" using assms(1,3) by (simp add: agentLoop_def loop_script_def)
  have "script_ok is_agent_end agent_end_messages evs [] []"
    using assms(2) by (auto simp: script_ok_def list_all_iff dest: in_set_butlastD)
  note stopped = stopped_run [OF this assms(4) [unfolded script] assms(5)]
  have "\<not> list_ex is_agent_end evs" using assms(2) by (auto simp: list_all_iff list_ex_iff)
  then show ?thesis using stopped stuck_phase [OF assms(5)] by auto
qed

theorem agent_stream_delivers_witness:
  "\<exists>n r. stream_steps is_agent_end agent_end_messages n
      (start_stream (the (agentLoop demo_loop_env [demo_prompt] (demo_context []) demo_loop_config 0))) r \<and>
    sr_phase r = Finished \<and> sr_received r = trace_of demo_run \<and> length (sr_received r) > 4"
proof -
  obtain msgs w evs where r: "demo_run = Some (Inr msgs, (w, evs))" "length msgs = 5" by (rule run_InrE [OF demo_run_ok])
  let ?script = "map Push evs @ [End (Some msgs)]"
  have script: "agentLoop demo_loop_env [demo_prompt] (demo_context []) demo_loop_config 0 = Some ?script"
    using r(1) by (simp add: agentLoop_def loop_script_def demo_run_def)
  obtain n s where s: "stream_steps is_agent_end agent_end_messages n (start_stream ?script) s"
      "\<nexists>s'. stream_step is_agent_end agent_end_messages s s'" using runs_stop by blast
  have done': "sr_phase s = Finished \<and> sr_received s = evs"
    using agent_stream_delivers [OF demo_sound_stream r(1) [unfolded demo_run_def] script s(1)] s(2) by blast
  have "length (trace_of demo_run) > 4" by code_simp
  moreover have "trace_of demo_run = evs" by (simp add: trace_of_def r(1))
  ultimately have "stream_steps is_agent_end agent_end_messages n (start_stream ?script) s \<and> sr_phase s = Finished \<and>
      sr_received s = trace_of demo_run \<and> length (sr_received s) > 4"
    using s(1) done' by simp
  then show ?thesis unfolding script option.sel by blast
qed

end
