(* ===== verification/Safety.thy ===== *)
theory Safety
  imports ProcessSchedule UStrings
begin

text \<open>
  The safety rules of \<open>core/safety/\<close>: the laws a tool call is checked against before it runs
  (\<open>laws.ts\<close>, \<open>safety-checker.ts\<close>), the decision of the operator mode (\<open>operator-mode.ts\<close>), the
  shape of a tool result (\<open>output-validation.ts\<close>) and the flags of a turn (\<open>anti-pattern.ts\<close>).
  Patterns with the flag \<open>i\<close> are tested on the text in lower case.
\<close>

section \<open>Patterns\<close>

definition spaces1 :: regex where
  "spaces1 = Seq space (Many is_js_space)"

definition word_chars :: regex where
  "word_chars = Many is_word_char"

definition nonspaces :: regex where
  "nonspaces = Many (\<lambda>c. \<not> is_js_space c)"

definition same_line :: regex where
  "same_line = Many (\<lambda>c. c \<noteq> CHR 10)"

definition test_lower :: "regex \<Rightarrow> string \<Rightarrow> bool" where
  "test_lower r s = regex_test r (js_lower s)"

definition HARMFUL_PATTERN :: regex where
  "HARMFUL_PATTERN = seqs
     [Boundary,
      alts (map lit [''malware'', ''ransomware'', ''keylogger'', ''spyware'', ''rootkit'', ''botnet''] @
        [Seq (lit ''exfiltrat'') word_chars,
         seqs [lit ''steal'', spaces1, alts (map lit [''credentials'', ''passwords'', ''secrets''])],
         seqs [lit ''weaponiz'', word_chars, spaces1, lit ''exploit''],
         seqs [lit ''mass'', spaces1, lit ''surveillance'']]),
      Boundary]"

text \<open>The alternatives of \<open>DESTRUCTIVE_BASH\<close>, one by one.\<close>

definition DESTRUCTIVE_ALTERNATIVES :: "regex list" where
  "DESTRUCTIVE_ALTERNATIVES =
     [seqs [Boundary, lit ''rm'', spaces1, lit ''-rf'', Boundary],
      seqs [Boundary, lit ''rm'', spaces1, lit ''-fr'', Boundary],
      seqs [Boundary, lit ''rm'', spaces1,
        Alt (seqs [lit ''-'', nonspaces, lit ''r'', nonspaces, lit ''f''])
            (seqs [lit ''-'', nonspaces, lit ''f'', nonspaces, lit ''r'']), Boundary],
      seqs [lit ''drop'', spaces1, lit ''database'', Boundary],
      seqs [Boundary, lit ''mkfs'', Boundary],
      seqs [Boundary, lit '':()'', Many is_js_space, lit ''{''],
      seqs [Boundary, lit ''git'', spaces1, lit ''push'', Boundary, same_line, lit ''--force'', Boundary],
      seqs [Boundary, lit ''git'', spaces1, lit ''push'', Boundary, same_line, space, lit ''-f'', Boundary]]"

definition DESTRUCTIVE_BASH :: regex where
  "DESTRUCTIVE_BASH = alts DESTRUCTIVE_ALTERNATIVES"

section \<open>Laws\<close>

datatype reversibility_tier = Free | Cheap | Gated | Forbidden

definition resolveReversibilityTier :: "reversibility_tier option \<Rightarrow> reversibility_tier" where
  "resolveReversibilityTier tier = (case tier of None \<Rightarrow> Gated | Some t \<Rightarrow> t)"

record safety_verdict =
  sv_allowed :: bool
  sv_law :: "nat option"
  sv_reason :: "string option"

record tool_call_descriptor =
  td_toolName :: string
  td_args :: "(string \<times> json) list"
  td_tier :: reversibility_tier

text \<open>\<open>resolvePath\<close> throws on a malformed file URL.\<close>

record safety_env =
  se_halted :: bool
  se_requireDestructiveConfirm :: bool
  se_enforceReadBeforeWrite :: "bool option"
  se_hasReadFile :: "string \<Rightarrow> bool"
  se_fileExists :: "string \<Rightarrow> bool"
  se_resolvePath :: "string \<Rightarrow> string + string"

definition allow_call :: safety_verdict where
  "allow_call = \<lparr>sv_allowed = True, sv_law = None, sv_reason = None\<rparr>"

definition block_call :: "nat \<Rightarrow> string \<Rightarrow> safety_verdict" where
  "block_call law reason = \<lparr>sv_allowed = False, sv_law = Some law, sv_reason = Some reason\<rparr>"

definition getString :: "(string \<times> json) list \<Rightarrow> string \<Rightarrow> string option" where
  "getString args key = (case js_prop args key of JStr s \<Rightarrow> Some s | _ \<Rightarrow> None)"

definition getCommand :: "tool_call_descriptor \<Rightarrow> string option" where
  "getCommand d = (if td_toolName d \<noteq> ''bash'' then None else getString (td_args d) ''command'')"

definition getFilePath :: "tool_call_descriptor \<Rightarrow> string option" where
  "getFilePath d =
     (if td_toolName d \<noteq> ''write'' \<and> td_toolName d \<noteq> ''edit'' then None
      else case getString (td_args d) ''path'' of Some p \<Rightarrow> Some p | None \<Rightarrow> getString (td_args d) ''file_path'')"

definition law0_reason :: string where
  "law0_reason = ''Action appears to facilitate broadly harmful work (Law 0) and was blocked.''"

definition checkLaw0 :: "tool_call_descriptor \<Rightarrow> string option" where
  "checkLaw0 d =
     (let haystacks = List.map_filter id [getCommand d, getString (td_args d) ''content'']
      in if list_ex (test_lower HARMFUL_PATTERN) haystacks then Some law0_reason else None)"

definition destructive_reason :: string where
  "destructive_reason =
     ''Destructive shell command blocked without explicit confirmation (Law 1): e.g. rm -rf, force-push, drop database.''"

definition forbidden_reason :: "string \<Rightarrow> string" where
  "forbidden_reason toolName =
     ''Tool '' @ [CHR 34] @ toolName @ [CHR 34] @ '' is forbidden by default (Law 1) and requires operator co-sign.''"

definition unread_reason :: "string \<Rightarrow> string" where
  "unread_reason filePath =
     ''Refusing to modify '' @ [CHR 34] @ filePath @ [CHR 34] @
     '' before reading it this session (Law 1: read-before-write). Read the file first.''"

text \<open>An empty command or path is falsy.\<close>

definition checkLaw1 :: "tool_call_descriptor \<Rightarrow> safety_env \<Rightarrow> string + string option" where
  "checkLaw1 d env =
     (if (case getCommand d of Some c \<Rightarrow> c \<noteq> '''' \<and> test_lower DESTRUCTIVE_BASH c | None \<Rightarrow> False) \<and>
         \<not> se_requireDestructiveConfirm env
      then Inr (Some destructive_reason)
      else if td_tier d = Forbidden then Inr (Some (forbidden_reason (td_toolName d)))
      else if se_enforceReadBeforeWrite env = Some False then Inr None
      else case getFilePath d of
             None \<Rightarrow> Inr None
           | Some filePath \<Rightarrow>
               if filePath = '''' then Inr None
               else (case se_resolvePath env filePath of
                       Inl e \<Rightarrow> Inl e
                     | Inr absPath \<Rightarrow>
                         if se_fileExists env absPath \<and> \<not> se_hasReadFile env absPath
                         then Inr (Some (unread_reason filePath)) else Inr None))"

definition evaluateLaws :: "tool_call_descriptor \<Rightarrow> safety_env \<Rightarrow> string + safety_verdict" where
  "evaluateLaws d env =
     (case checkLaw0 d of
        Some r \<Rightarrow> Inr (block_call 0 r)
      | None \<Rightarrow>
          (case checkLaw1 d env of
             Inl e \<Rightarrow> Inl e
           | Inr (Some r) \<Rightarrow> Inr (block_call 1 r)
           | Inr None \<Rightarrow> Inr allow_call))"

definition evaluateTaskLaws :: "string \<Rightarrow> bool \<Rightarrow> safety_verdict" where
  "evaluateTaskLaws task requireDestructiveConfirm =
     (let normalized = js_trim task in
      if normalized = '''' then block_call 2 ''Empty task rejected (Law 2: nothing to obey).''
      else if test_lower HARMFUL_PATTERN normalized then
        block_call 0 ''Task appears to facilitate broadly harmful work (Law 0) and was blocked.''
      else if test_lower DESTRUCTIVE_BASH normalized \<and> \<not> requireDestructiveConfirm then
        block_call 1 ''Destructive shell pattern in task blocked without explicit confirmation (Law 1).''
      else allow_call)"

definition checkLaw0PostFlight :: "tool_call_descriptor \<Rightarrow> string \<Rightarrow> string option" where
  "checkLaw0PostFlight d resultText =
     (if td_tier d = Free then None
      else if test_lower HARMFUL_PATTERN resultText then
        Some (''Post-flight check: output of '' @ [CHR 34] @ td_toolName d @ [CHR 34] @
          '' matches broadly harmful patterns (Law 0). Review and revert if needed.'')
      else None)"

definition halted_reason :: string where
  "halted_reason = ''Halted by operator (HALT): no further tool calls until resumed.''"

definition checkToolCall :: "tool_call_descriptor \<Rightarrow> safety_env \<Rightarrow> string + safety_verdict" where
  "checkToolCall d env = (if se_halted env then Inr (block_call 3 halted_reason) else evaluateLaws d env)"

definition checkToolResult :: "tool_call_descriptor \<Rightarrow> string \<Rightarrow> safety_verdict" where
  "checkToolResult d resultText =
     (case checkLaw0PostFlight d resultText of Some r \<Rightarrow> block_call 0 r | None \<Rightarrow> allow_call)"

section \<open>Operator modes\<close>

datatype operator_mode = Supervised | Delegated | Checkpoint | Diagnostic | Ask

datatype operator_decision = Run | Confirm | Block

datatype reflective_phase = Observe | Intend | Act | Reflect

definition OPERATOR_MODES :: "operator_mode list" where
  "OPERATOR_MODES = [Supervised, Delegated, Checkpoint, Diagnostic, Ask]"

fun mode_name :: "operator_mode \<Rightarrow> string" where
  "mode_name Supervised = ''supervised''"
| "mode_name Delegated = ''delegated''"
| "mode_name Checkpoint = ''checkpoint''"
| "mode_name Diagnostic = ''diagnostic''"
| "mode_name Ask = ''ask''"

definition isOperatorMode :: "string \<Rightarrow> bool" where
  "isOperatorMode value = (value \<in> set (map mode_name OPERATOR_MODES))"

definition ASK_READ_TOOLS :: "string list" where
  "ASK_READ_TOOLS = [''read'', ''grep'', ''find'', ''ls'', ''recall'', ''webfetch'', ''web_fetch'', ''web-fetch'',
     ''websearch'', ''web_search'', ''web-search'']"

definition decideTool :: "operator_mode \<Rightarrow> reversibility_tier \<Rightarrow> string \<Rightarrow> string set \<Rightarrow> operator_decision" where
  "decideTool mode tier toolName grant =
     (if tier = Forbidden then Block
      else if mode = Diagnostic then (if tier = Free then Run else Block)
      else if mode = Ask then (if tier = Free \<or> toolName \<in> set ASK_READ_TOOLS then Run else Block)
      else if tier = Free \<or> tier = Cheap then Run
      else if mode = Delegated \<and> toolName \<in> grant then Run
      else Confirm)"

definition operatorBlockReason ::
  "operator_mode \<Rightarrow> string \<Rightarrow> reversibility_tier \<Rightarrow> operator_decision \<Rightarrow> string option" where
  "operatorBlockReason mode toolName tier decision =
     (if decision = Run then None
      else if mode = Ask then
        Some (''Ask mode: '' @ toolName @ '' is blocked. This mode reads files and the web, and does not write.'')
      else if mode = Diagnostic then
        Some (''Diagnostic mode: '' @ toolName @ '' is blocked (mutating tools are not allowed).'')
      else if tier = Forbidden then Some (mode_name mode @ '' mode: '' @ toolName @ '' is forbidden.'')
      else if mode = Delegated then Some (''Delegated mode: '' @ toolName @ '' is gated and is not in the grant.'')
      else Some (''Supervised mode: '' @ toolName @ '' is gated and waits for confirmation.''))"

definition phaseIsOpen :: "operator_mode option \<Rightarrow> reflective_phase \<Rightarrow> reflective_phase set \<Rightarrow> bool" where
  "phaseIsOpen mode phase openPhases =
     (if mode \<noteq> Some Checkpoint then True
      else if phase = Observe then True
      else if phase \<noteq> Act then True
      else phase \<in> openPhases)"

section \<open>The shape of a tool result\<close>

record output_issue =
  oi_path :: string
  oi_message :: string

abbreviation issue :: "string \<Rightarrow> string \<Rightarrow> output_issue" where
  "issue p m \<equiv> \<lparr>oi_path = p, oi_message = m\<rparr>"

definition KNOWN_PART_TYPES :: "string list" where
  "KNOWN_PART_TYPES = [''text'', ''image'']"

definition is_string :: "json \<Rightarrow> bool" where
  "is_string v = (case v of JStr _ \<Rightarrow> True | _ \<Rightarrow> False)"

text \<open>The properties of an object; an array has none of the names asked for.\<close>

definition object_fields :: "json \<Rightarrow> (string \<times> json) list option" where
  "object_fields v = (case v of JObj fs \<Rightarrow> Some fs | JArr _ \<Rightarrow> Some [] | _ \<Rightarrow> None)"

definition got :: "json \<Rightarrow> string" where
  "got v = (if v = JNull then ''null'' else js_typeof v)"

definition known_part_issues :: "string \<Rightarrow> string \<Rightarrow> (string \<times> json) list \<Rightarrow> output_issue list" where
  "known_part_issues loc type fs =
     (if type = ''text'' \<and> \<not> is_string (js_prop fs ''text'')
      then [issue (loc @ ''.text'') ''expected string text on a text part''] else []) @
     (if type = ''image'' then
        (if \<not> is_string (js_prop fs ''data'')
         then [issue (loc @ ''.data'') ''expected base64 string data on an image part''] else []) @
        (if \<not> is_string (js_prop fs ''mimeType'')
         then [issue (loc @ ''.mimeType'') ''expected string mimeType on an image part''] else [])
      else [])"

definition part_issues :: "nat \<Rightarrow> json \<Rightarrow> output_issue list" where
  "part_issues index p =
     (let loc = ''content['' @ show_nat index @ '']'' in
      case object_fields p of
        None \<Rightarrow> [issue loc (''expected a content part object, got '' @ got p)]
      | Some fs \<Rightarrow>
          (case js_prop fs ''type'' of
             JStr type \<Rightarrow> (if type \<notin> set KNOWN_PART_TYPES then [] else known_part_issues loc type fs)
           | _ \<Rightarrow> [issue (loc @ ''.type'') ''expected a string part type'']))"

definition validateToolResultShape :: "json \<Rightarrow> output_issue list" where
  "validateToolResultShape result =
     (case object_fields result of
        None \<Rightarrow> [issue '''' (''expected an object, got '' @ got result)]
      | Some fs \<Rightarrow>
          (case js_prop fs ''content'' of
             JArr parts \<Rightarrow> concat (map (\<lambda>(i, p). part_issues i p) (List.enumerate 0 parts))
           | content \<Rightarrow> [issue ''content'' (''expected an array of content parts, got '' @ js_typeof content)]))"

definition formatSchemaMismatchNote :: "string \<Rightarrow> output_issue list \<Rightarrow> string" where
  "formatSchemaMismatchNote toolName issues =
     (let detail = js_join ''; ''
        (map (\<lambda>i. if oi_path i \<noteq> '''' then oi_path i @ '': '' @ oi_message i else oi_message i) issues)
      in ''[schema-mismatch] Output of tool '' @ [CHR 34] @ toolName @ [CHR 34] @ '' failed schema validation ('' @ detail @
         ''). Treat this result as unreliable: re-run the tool or verify the state another way before relying on it.'')"

section \<open>Flags of a turn\<close>

datatype anti_pattern = GoalDrift | Sycophancy | LoopFlag | ScopeCreep | JailbreakFromToolOutput

datatype jailbreak_mode = JailbreakOff | JailbreakNarrow | JailbreakStrict

record anti_pattern_tool_result =
  jr_name :: "string option"
  jr_text :: string

record anti_pattern_input =
  ap_toolCalls :: "(string \<times> string) list"
  ap_assistantTexts :: "string list"
  ap_toolOutputs :: "string list"
  ap_toolResults :: "anti_pattern_tool_result list"
  ap_jailbreakFromToolOutput :: "jailbreak_mode option"

definition JAILBREAK_RE :: regex where
  "JAILBREAK_RE =
     Alt (seqs [lit ''ignore '', Opt (Alt (lit ''all '') (lit ''the '')), lit ''previous instructions'']) (lit ''you are now'')"

definition FILE_TOOLS :: "string list" where
  "FILE_TOOLS = [''read'', ''edit'', ''write'', ''ls'', ''grep'', ''find'']"

definition jailbreakHit :: "string \<Rightarrow> bool" where
  "jailbreakHit text = test_lower JAILBREAK_RE text"

definition COMMENT_LINE :: regex where
  "COMMENT_LINE = seqs [Bol, Many is_js_space, alts [lit ''//'', lit ''#'', lit ''*'', lit ''<!--'']]"

text \<open>The back reference to the opening quote is expanded to the three quotes.\<close>

definition dots :: regex where
  "dots = Many (\<lambda>c. c \<noteq> CHR 10 \<and> c \<noteq> CHR 13)"

definition quoted_attempt :: "char \<Rightarrow> regex" where
  "quoted_attempt q = seqs
     [Chr (\<lambda>c. c = q), dots, Boundary,
      Alt (seqs [lit ''ignore'', Opt (Seq spaces1 (Alt (lit ''all'') (lit ''the''))), spaces1, lit ''previous'', spaces1,
             lit ''instructions''])
          (lit ''you are now''),
      Boundary, dots, Chr (\<lambda>c. c = q)]"

definition looksQuotedOrComment :: "string \<Rightarrow> bool" where
  "looksQuotedOrComment line =
     (let trimmed = js_trim line in
      test_lower (lit ''lacan:skip'') trimmed \<or> regex_test COMMENT_LINE trimmed \<or>
      test_lower (alts (map quoted_attempt [CHR 39, CHR 34, CHR 96])) trimmed)"

definition matchingLinesQuotedOnly :: "string \<Rightarrow> bool" where
  "matchingLinesQuotedOnly text =
     (let matching = filter jailbreakHit (split_on (CHR 10) text)
      in length matching > 0 \<and> list_all looksQuotedOrComment matching)"

definition collectResults :: "anti_pattern_input \<Rightarrow> anti_pattern_tool_result list" where
  "collectResults i =
     (if length (ap_toolResults i) > 0 then ap_toolResults i
      else map (\<lambda>t. \<lparr>jr_name = None, jr_text = t\<rparr>) (ap_toolOutputs i))"

definition shouldFlagJailbreakFromToolOutput :: "anti_pattern_input \<Rightarrow> bool" where
  "shouldFlagJailbreakFromToolOutput i =
     (case ap_jailbreakFromToolOutput i of
        Some JailbreakOff \<Rightarrow> False
      | Some JailbreakStrict \<Rightarrow> list_ex (\<lambda>r. jailbreakHit (jr_text r)) (collectResults i)
      | _ \<Rightarrow>
          list_ex (\<lambda>r. jailbreakHit (jr_text r) \<and>
              js_lower (case jr_name r of None \<Rightarrow> '''' | Some n \<Rightarrow> n) \<notin> set FILE_TOOLS \<and>
              \<not> matchingLinesQuotedOnly (jr_text r)) (collectResults i))"

text \<open>The counts of equal calls, and whether one has reached three.\<close>

fun count_calls :: "(string \<times> string) list \<Rightarrow> (string \<times> nat) list \<Rightarrow> bool \<Rightarrow> bool" where
  "count_calls [] counts found = found"
| "count_calls ((name, args) # calls) counts found =
     (let key = name @ newline @ args;
          count = (case map_of counts key of None \<Rightarrow> 0 | Some n \<Rightarrow> n) + 1
      in count_calls calls (AList.update key count counts) (if count \<ge> 3 then True else found))"

definition SYCOPHANCY :: regex where
  "SYCOPHANCY = Alt
     (seqs [Boundary, lit ''you'', Alt (lit (CHR 39 # ''re'')) (lit '' are''), lit '' absolutely right'', Boundary])
     (seqs [Boundary, lit ''great question'', Boundary])"

definition GOAL_DRIFT :: regex where
  "GOAL_DRIFT = Alt (seqs [Boundary, lit ''new goal'', Boundary]) (seqs [Boundary, lit ''GOAL_DRIFT'', Boundary])"

definition detectAntiPatterns :: "anti_pattern_input \<Rightarrow> anti_pattern list" where
  "detectAntiPatterns i =
     (let assistant = js_join newline (ap_assistantTexts i)
      in (if count_calls (ap_toolCalls i) [] False then [LoopFlag] else []) @
         (if test_lower SYCOPHANCY assistant then [Sycophancy] else []) @
         (if regex_test GOAL_DRIFT assistant then [GoalDrift] else []) @
         (if test_lower (seqs [Boundary, lit ''also i will'', Boundary]) assistant then [ScopeCreep] else []) @
         (if shouldFlagJailbreakFromToolOutput i then [JailbreakFromToolOutput] else []))"

section \<open>Results of the declared type\<close>

text \<open>A result as its type \<open>AgentToolResult\<close> declares it; parts of other types may have any shape.\<close>

definition has_string :: "(string \<times> json) list \<Rightarrow> string \<Rightarrow> bool" where
  "has_string fs key = (\<exists>t. js_prop fs key = JStr t)"

definition well_typed_part :: "json \<Rightarrow> bool" where
  "well_typed_part p =
     (\<exists>fs type. object_fields p = Some fs \<and> js_prop fs ''type'' = JStr type \<and>
        (type = ''text'' \<longrightarrow> has_string fs ''text'') \<and>
        (type = ''image'' \<longrightarrow> has_string fs ''data'' \<and> has_string fs ''mimeType''))"

definition well_typed_result :: "json \<Rightarrow> bool" where
  "well_typed_result v =
     (\<exists>fs parts. v = JObj fs \<and> js_prop fs ''content'' = JArr parts \<and> list_all well_typed_part parts)"

lemma is_string_iff: "is_string v \<longleftrightarrow> (\<exists>t. v = JStr t)"
  by (cases v) (simp_all add: is_string_def)

lemma enumerate_all: "(\<forall>(i, x)\<in>set (List.enumerate n xs). Q x) \<longleftrightarrow> list_all Q xs"
proof -
  have "list_all (\<lambda>(i, x). Q x) (List.enumerate n xs) \<longleftrightarrow> list_all Q xs"
    by (induction xs arbitrary: n) simp_all
  then show ?thesis by (simp add: list_all_iff)
qed

lemma part_issues_iff: "part_issues i p = [] \<longleftrightarrow> well_typed_part p"
  by (auto simp: part_issues_def well_typed_part_def known_part_issues_def KNOWN_PART_TYPES_def has_string_def
      is_string_iff Let_def split: option.splits json.splits)

text \<open>The text of a typed result, as the session hands it to the check.\<close>

fun part_json :: "part \<Rightarrow> json" where
  "part_json (TextPart t sig) = JObj [(''type'', JStr ''text''), (''text'', JStr t)]"
| "part_json (ImagePart d m) = JObj [(''type'', JStr ''image''), (''data'', JStr d), (''mimeType'', JStr m)]"

definition result_json :: "agent_tool_result \<Rightarrow> json" where
  "result_json r = JObj [(''content'', JArr (map part_json (atr_content r))), (''details'', atr_details r)]"


section \<open>What the patterns find\<close>

lemma ends_litI: "s = xs @ w @ ys \<Longrightarrow> i = length xs \<Longrightarrow> j = i + length w \<Longrightarrow> j \<in> set (ends (lit w) s i)"
  by (auto simp: ends_lit)

lemma ends_SeqI: "k \<in> set (ends a s i) \<Longrightarrow> j \<in> set (ends b s k) \<Longrightarrow> j \<in> set (ends (Seq a b) s i)"
  by auto

lemma ends_ManyI: "s = xs @ w @ ys \<Longrightarrow> list_all P w \<Longrightarrow> i = length xs \<Longrightarrow> j = i + length w \<Longrightarrow> j \<in> set (ends (Many P) s i)"
proof -
  assume a: "s = xs @ w @ ys" "list_all P w" "i = length xs" "j = i + length w"
  then have "takeWhile P (drop i s) = w @ takeWhile P ys"
    by (simp add: list_all_iff takeWhile_append2)
  then show ?thesis using a by auto
qed

lemma ends_spaces1I:
  "s = xs @ w @ ys \<Longrightarrow> w \<noteq> [] \<Longrightarrow> list_all is_js_space w \<Longrightarrow> i = length xs \<Longrightarrow> j = i + length w \<Longrightarrow> j \<in> set (ends spaces1 s i)"
proof -
  assume a: "s = xs @ w @ ys" "w \<noteq> []" "list_all is_js_space w" "i = length xs" "j = i + length w"
  then obtain c cs where w: "w = c # cs" by (cases w) auto
  have "Suc i \<in> set (ends space s i)" using a w by (simp add: space_def)
  moreover have "j \<in> set (ends (Many is_js_space) s (Suc i))"
    by (rule ends_ManyI [of s "xs @ [c]" cs ys]) (use a w in auto)
  ultimately show ?thesis unfolding spaces1_def by (rule ends_SeqI)
qed

text \<open>A position is a boundary when a word begins or ends there.\<close>

definition starts_word :: "string \<Rightarrow> bool" where
  "starts_word s = (s \<noteq> [] \<and> is_word_char (hd s))"

definition ends_word :: "string \<Rightarrow> bool" where
  "ends_word s = (s \<noteq> [] \<and> is_word_char (last s))"

lemma ends_BoundaryI: "s = xs @ ys \<Longrightarrow> i = length xs \<Longrightarrow> ends_word xs \<noteq> starts_word ys \<Longrightarrow> i \<in> set (ends Boundary s i)"
proof -
  assume a: "s = xs @ ys" "i = length xs" "ends_word xs \<noteq> starts_word ys"
  have "word_at s i = starts_word ys" using a by (cases ys) (auto simp: word_at_def starts_word_def)
  moreover have "(0 < i \<and> word_at s (i - 1)) = ends_word xs"
    using a by (cases xs rule: rev_cases) (auto simp: word_at_def ends_word_def nth_append)
  ultimately show ?thesis using a by simp
qed

lemma regex_testI: "j \<in> set (ends r s i) \<Longrightarrow> i \<le> length s \<Longrightarrow> regex_test r s"
  unfolding regex_test_def list_ex_iff by (intro bexI [of _ i]) auto

lemma ends_alts_mono: "r \<in> set rs \<Longrightarrow> j \<in> set (ends r s i) \<Longrightarrow> j \<in> set (ends (alts rs) s i)"
  by (induction rs rule: alts.induct) auto

lemma word_letters [simp]:
  "is_word_char CHR ''g''" "is_word_char CHR ''p''" "is_word_char CHR ''h''" "is_word_char CHR ''r''"
  "is_word_char CHR ''m''" "is_word_char CHR ''e''" "is_word_char CHR ''f''"
  by code_simp+

lemma word_ends [simp]:
  "starts_word (c # cs) = is_word_char c" "ends_word (cs @ [c]) = is_word_char c"
  "cs \<noteq> [] \<Longrightarrow> starts_word (cs @ ds) = is_word_char (hd cs)" "ds \<noteq> [] \<Longrightarrow> ends_word (cs @ ds) = is_word_char (last ds)"
  "ends_word (c # d # ds) = ends_word (d # ds)" "ends_word [c] = is_word_char c"
  by (simp_all add: starts_word_def ends_word_def)

lemma matches_forced_push:
  assumes "s = xs @ ''git'' @ w @ ''push'' @ mid @ ''--force'' @ ys" and "\<not> ends_word xs"
    and "w \<noteq> []" and "list_all is_js_space w" and "mid \<noteq> []" and "\<not> is_word_char (hd mid)" and "CHR 10 \<notin> set mid"
    and "\<not> starts_word ys"
  shows "regex_test DESTRUCTIVE_BASH s"
proof -
  let ?r = "seqs [Boundary, lit ''git'', spaces1, lit ''push'', Boundary, same_line, lit ''--force'', Boundary]"
  let ?n = "length xs" and ?k = "length xs + 3 + length w + 4"
  have "?n \<in> set (ends Boundary s ?n)"
    by (rule ends_BoundaryI [OF assms(1)]) (use assms(2) in simp_all)
  moreover have "?n + 3 \<in> set (ends (lit ''git'') s ?n)"
    by (rule ends_litI [of _ xs]) (use assms in auto)
  moreover have "?n + 3 + length w \<in> set (ends spaces1 s (?n + 3))"
    by (rule ends_spaces1I [of _ "xs @ ''git''" w]) (use assms in auto)
  moreover have "?k \<in> set (ends (lit ''push'') s (?n + 3 + length w))"
    by (rule ends_litI [of _ "xs @ ''git'' @ w"]) (use assms in auto)
  moreover have "?k \<in> set (ends Boundary s ?k)"
    by (rule ends_BoundaryI [of _ "xs @ ''git'' @ w @ ''push''" "mid @ ''--force'' @ ys"])
      (use assms in simp_all)
  moreover have "?k + length mid \<in> set (ends same_line s ?k)"
    unfolding same_line_def
    by (rule ends_ManyI [of _ "xs @ ''git'' @ w @ ''push''" mid]) (use assms in \<open>auto simp: list_all_iff\<close>)
  moreover have "?k + length mid + 7 \<in> set (ends (lit ''--force'') s (?k + length mid))"
    by (rule ends_litI [of _ "xs @ ''git'' @ w @ ''push'' @ mid"]) (use assms in auto)
  moreover have "?k + length mid + 7 \<in> set (ends Boundary s (?k + length mid + 7))"
    by (rule ends_BoundaryI [of _ "xs @ ''git'' @ w @ ''push'' @ mid @ ''--force''"])
      (use assms in auto)
  ultimately have "?k + length mid + 7 \<in> set (ends ?r s ?n)" unfolding seqs.simps by (intro ends_SeqI)
  then have "?k + length mid + 7 \<in> set (ends DESTRUCTIVE_BASH s ?n)"
    unfolding DESTRUCTIVE_BASH_def by (rule ends_alts_mono [rotated]) (simp add: DESTRUCTIVE_ALTERNATIVES_def)
  then show ?thesis by (rule regex_testI) (use assms in simp)
qed

lemma matches_rm_rf:
  assumes "s = xs @ ''rm'' @ w @ ''-'' @ a @ x # b @ y # ys" and "\<not> ends_word xs"
    and "w \<noteq> []" and "list_all is_js_space w" and "list_all (\<lambda>c. \<not> is_js_space c) (a @ b)"
    and "(x, y) \<in> {(CHR ''r'', CHR ''f''), (CHR ''f'', CHR ''r'')}" and "\<not> starts_word ys"
  shows "regex_test DESTRUCTIVE_BASH s"
proof -
  let ?flags = "\<lambda>x y. seqs [lit ''-'', nonspaces, lit [x], nonspaces, lit [y]]"
  let ?both = "Alt (?flags (CHR ''r'') (CHR ''f'')) (?flags (CHR ''f'') (CHR ''r''))"
  let ?r = "seqs [Boundary, lit ''rm'', spaces1, ?both, Boundary]"
  let ?n = "length xs" and ?k = "length xs + 2 + length w"
  let ?e = "?k + 1 + length a + 1 + length b + 1"
  have "?n \<in> set (ends Boundary s ?n)"
    by (rule ends_BoundaryI [OF assms(1)]) (use assms(2) in simp_all)
  moreover have "?n + 2 \<in> set (ends (lit ''rm'') s ?n)"
    by (rule ends_litI [of _ xs]) (use assms(1) in auto)
  moreover have "?k \<in> set (ends spaces1 s (?n + 2))"
    by (rule ends_spaces1I [of _ "xs @ ''rm''" w]) (use assms(1,3,4) in auto)
  moreover have "?e \<in> set (ends ?both s ?k)"
  proof -
    have "?k + 1 \<in> set (ends (lit ''-'') s ?k)"
      by (rule ends_litI [of _ "xs @ ''rm'' @ w"]) (use assms(1) in auto)
    moreover have "?k + 1 + length a \<in> set (ends nonspaces s (?k + 1))"
      unfolding nonspaces_def by (rule ends_ManyI [of _ "xs @ ''rm'' @ w @ ''-''" a]) (use assms(1,5) in auto)
    moreover have "?k + 1 + length a + 1 \<in> set (ends (lit [x]) s (?k + 1 + length a))"
      by (rule ends_litI [of _ "xs @ ''rm'' @ w @ ''-'' @ a"]) (use assms(1) in auto)
    moreover have "?k + 1 + length a + 1 + length b \<in> set (ends nonspaces s (?k + 1 + length a + 1))"
      unfolding nonspaces_def by (rule ends_ManyI [of _ "xs @ ''rm'' @ w @ ''-'' @ a @ [x]" b]) (use assms(1,5) in auto)
    moreover have "?e \<in> set (ends (lit [y]) s (?k + 1 + length a + 1 + length b))"
      by (rule ends_litI [of _ "xs @ ''rm'' @ w @ ''-'' @ a @ x # b"]) (use assms(1) in auto)
    ultimately have "?e \<in> set (ends (?flags x y) s ?k)" unfolding seqs.simps by (intro ends_SeqI)
    then show ?thesis using assms(6) by auto
  qed
  moreover have "?e \<in> set (ends Boundary s ?e)"
    by (rule ends_BoundaryI [of _ "xs @ ''rm'' @ w @ ''-'' @ a @ x # b @ [y]"])
      (use assms(1,6,7) in auto)
  ultimately have "?e \<in> set (ends ?r s ?n)" unfolding seqs.simps by (intro ends_SeqI)
  then have "?e \<in> set (ends DESTRUCTIVE_BASH s ?n)"
    unfolding DESTRUCTIVE_BASH_def by (rule ends_alts_mono [rotated]) (simp add: DESTRUCTIVE_ALTERNATIVES_def)
  then show ?thesis by (rule regex_testI) (use assms(1) in simp)
qed

section \<open>What the laws block\<close>

text \<open>A forced push, and a recursive and forced removal, as the reason of law 1 names them.\<close>

definition forces_push :: "string \<Rightarrow> bool" where
  "forces_push s =
     (\<exists>xs w mid ys. s = xs @ ''git'' @ w @ ''push'' @ mid @ ''--force'' @ ys \<and> \<not> ends_word xs \<and>
        w \<noteq> [] \<and> list_all is_js_space w \<and> mid \<noteq> [] \<and> \<not> is_word_char (hd mid) \<and> CHR 10 \<notin> set mid \<and> \<not> starts_word ys)"

definition removes_tree :: "string \<Rightarrow> bool" where
  "removes_tree s =
     (\<exists>xs w a x b y ys. s = xs @ ''rm'' @ w @ ''-'' @ a @ x # b @ y # ys \<and> \<not> ends_word xs \<and>
        w \<noteq> [] \<and> list_all is_js_space w \<and> list_all (\<lambda>c. \<not> is_js_space c) (a @ b) \<and>
        (x, y) \<in> {(CHR ''r'', CHR ''f''), (CHR ''f'', CHR ''r'')} \<and> \<not> starts_word ys)"

lemma destructive_found: "forces_push s \<or> removes_tree s \<Longrightarrow> regex_test DESTRUCTIVE_BASH s"
  unfolding forces_push_def removes_tree_def by (elim disjE exE conjE) (rule matches_forced_push matches_rm_rf; assumption)+


text \<open>The flags are not found apart, or before another flag letter.\<close>

definition bash_call :: "string \<Rightarrow> tool_call_descriptor" where
  "bash_call c = \<lparr>td_toolName = ''bash'', td_args = [(''command'', JStr c)], td_tier = Gated\<rparr>"

definition demo_safety_env :: safety_env where
  "demo_safety_env = \<lparr>se_halted = False, se_requireDestructiveConfirm = False, se_enforceReadBeforeWrite = Some True,
     se_hasReadFile = (\<lambda>p. p = ''/w/a''), se_fileExists = (\<lambda>p. p = ''/w/a'' \<or> p = ''/w/b''),
     se_resolvePath = (\<lambda>p. Inr (''/w/'' @ p))\<rparr>"

lemma removal_not_recognised:
  "checkToolCall (bash_call ''rm -r -f x'') demo_safety_env = Inr allow_call"
  "checkToolCall (bash_call ''rm -rfv x'') demo_safety_env = Inr allow_call"
  "checkToolCall (bash_call '':(){'') demo_safety_env = Inr allow_call"
  by code_simp+

text \<open>The new text of an edit is not examined by law 0, which looks at the content of a write.\<close>

lemma edits_not_examined:
  assumes "td_toolName d = ''edit''" and "getString (td_args d) ''content'' = None"
  shows "checkLaw0 d = None"
  using assms by (simp add: checkLaw0_def getCommand_def map_filter_def)


end
