(* ===== verification/Effort.thy ===== *)
theory Effort
  imports Messages UStrings "HOL-Library.Multiset" "HOL-Library.List_Lexorder" "HOL-Library.Char_ord"
begin

text \<open>
  The effort regulator (\<open>core/reflective-loop/effort-regulator.ts\<close>): it counts, within one prompt,
  the calls that made no progress, the repetitions of one call and the cost spent, and gives a reason
  to stop when a limit is reached. Costs are integers: the comparison with the fraction 0.9 is
  multiplied out.
\<close>

section \<open>Limits\<close>

definition EFFORT_COST_BUDGET :: int where "EFFORT_COST_BUDGET = 48"
definition EFFORT_NO_PROGRESS_LIMIT :: nat where "EFFORT_NO_PROGRESS_LIMIT = 8"
definition EFFORT_REPEAT_LIMIT :: nat where "EFFORT_REPEAT_LIMIT = 4"
definition EFFORT_SAME_ERROR_LIMIT :: nat where "EFFORT_SAME_ERROR_LIMIT = 2"
definition EFFORT_NO_CHANGE_LIMIT :: nat where "EFFORT_NO_CHANGE_LIMIT = 2"
definition EFFORT_LOOSE_FACTOR :: nat where "EFFORT_LOOSE_FACTOR = 10"

datatype effort_mode = EffortOff | EffortNormal | EffortLoose

record effort_limits =
  el_costBudget :: int
  el_noProgressLimit :: nat
  el_repeatLimit :: nat
  el_sameErrorLimit :: nat
  el_noChangeLimit :: nat

definition parseEffortMode :: "json \<Rightarrow> effort_mode option" where
  "parseEffortMode value =
     (if value = JStr ''off'' then Some EffortOff
      else if value = JStr ''normal'' then Some EffortNormal
      else if value = JStr ''loose'' then Some EffortLoose
      else None)"

definition effortLimitsFor :: "effort_mode \<Rightarrow> effort_limits option" where
  "effortLimitsFor mode =
     (if mode = EffortOff then None
      else
        let factor = (if mode = EffortLoose then EFFORT_LOOSE_FACTOR else 1)
        in Some \<lparr>el_costBudget = EFFORT_COST_BUDGET * int factor, el_noProgressLimit = EFFORT_NO_PROGRESS_LIMIT * factor,
                 el_repeatLimit = EFFORT_REPEAT_LIMIT * factor, el_sameErrorLimit = EFFORT_SAME_ERROR_LIMIT * factor,
                 el_noChangeLimit = EFFORT_NO_CHANGE_LIMIT * factor\<rparr>)"

text \<open>The reason is added to the last text part, once.\<close>

definition appendEffortReason :: "part list \<Rightarrow> string \<Rightarrow> part list" where
  "appendEffortReason content reason =
     (case js_last content of
        Some (TextPart t sig) \<Rightarrow>
          (if contains_text t reason then content
           else butlast content @ [TextPart (t @ newline @ reason) sig])
      | _ \<Rightarrow> content @ [TextPart reason None])"

text \<open>The text of a value with the keys of its objects in order.\<close>

fun canonical :: "json \<Rightarrow> string" where
  "canonical (JArr vs) = ''['' @ js_join '','' (map canonical vs) @ '']''"
| "canonical (JObj kvs) =
     ''{'' @ js_join '',''
       (map (\<lambda>(k, t). json_quote k @ '':'' @ t) (sort_key fst (map (\<lambda>(k, v). (k, canonical v)) kvs))) @ ''}''"
| "canonical JUndefined = ''null''"
| "canonical v = json_stringify v"

definition effortActionKey :: "string \<Rightarrow> json \<Rightarrow> string" where
  "effortActionKey name args = name @ '':'' @ canonical args"

section \<open>The regulator\<close>

record effort =
  ef_consecutiveNoProgress :: nat
  ef_identicalActionCount :: nat
  ef_lastActionKey :: "string option"
  ef_observationSkipped :: bool
  ef_costUsed :: int
  ef_costBudget :: "int option"
  ef_noProgressLimit :: nat
  ef_repeatLimit :: nat
  ef_enabled :: bool

definition new_effort :: effort where
  "new_effort = \<lparr>ef_consecutiveNoProgress = 0, ef_identicalActionCount = 0, ef_lastActionKey = None,
     ef_observationSkipped = False, ef_costUsed = 0, ef_costBudget = None,
     ef_noProgressLimit = EFFORT_NO_PROGRESS_LIMIT, ef_repeatLimit = EFFORT_REPEAT_LIMIT, ef_enabled = True\<rparr>"

definition setEnabled :: "bool \<Rightarrow> effort \<Rightarrow> effort" where
  "setEnabled enabled e = e\<lparr>ef_enabled := enabled\<rparr>"

definition applyLimits :: "effort_limits \<Rightarrow> effort \<Rightarrow> effort" where
  "applyLimits l e = e\<lparr>ef_noProgressLimit := el_noProgressLimit l, ef_repeatLimit := el_repeatLimit l, ef_enabled := True\<rparr>"

definition markObservationSkipped :: "effort \<Rightarrow> effort" where
  "markObservationSkipped e = e\<lparr>ef_observationSkipped := True\<rparr>"

definition recordObservation :: "bool \<Rightarrow> effort \<Rightarrow> effort" where
  "recordObservation observed e = e\<lparr>ef_observationSkipped := \<not> observed\<rparr>"

definition setCostBudget :: "int \<Rightarrow> effort \<Rightarrow> effort" where
  "setCostBudget budget e = e\<lparr>ef_costUsed := 0, ef_costBudget := Some budget\<rparr>"

definition beginPrompt :: "int \<Rightarrow> effort \<Rightarrow> effort" where
  "beginPrompt budget e =
     setCostBudget budget
       (e\<lparr>ef_consecutiveNoProgress := 0, ef_identicalActionCount := 0, ef_lastActionKey := None,
          ef_observationSkipped := False\<rparr>)"

definition recordCost :: "int \<Rightarrow> effort \<Rightarrow> effort" where
  "recordCost amount e = (if amount > 0 then e\<lparr>ef_costUsed := ef_costUsed e + amount\<rparr> else e)"

definition no_progress_stop :: string where
  "no_progress_stop = ''EffortRegulator stopped: no progress.''"

definition repeated_stop :: string where
  "repeated_stop = ''EffortRegulator stopped: repeated action.''"

definition budget_stop :: string where
  "budget_stop = ''EffortRegulator stopped: spent budget.''"

definition skipped_stop :: string where
  "skipped_stop = ''EffortRegulator stopped: observation skipped.''"

definition stopReason :: "effort \<Rightarrow> string option" where
  "stopReason e =
     (if \<not> ef_enabled e then None
      else if ef_consecutiveNoProgress e \<ge> ef_noProgressLimit e then Some no_progress_stop
      else if ef_identicalActionCount e \<ge> ef_repeatLimit e then Some repeated_stop
      else if (case ef_costBudget e of None \<Rightarrow> False | Some b \<Rightarrow> b > 0 \<and> 10 * ef_costUsed e > 9 * b) then Some budget_stop
      else if ef_observationSkipped e then Some skipped_stop
      else None)"

definition shouldContinue :: "effort \<Rightarrow> bool" where
  "shouldContinue e = (stopReason e = None)"

definition updateProgress :: "string \<Rightarrow> bool \<Rightarrow> effort \<Rightarrow> effort" where
  "updateProgress actionKey madeProgress e =
     (let e = (if ef_lastActionKey e = Some actionKey
               then e\<lparr>ef_identicalActionCount := ef_identicalActionCount e + 1\<rparr>
               else e\<lparr>ef_identicalActionCount := 1, ef_lastActionKey := Some actionKey\<rparr>)
      in if madeProgress then e\<lparr>ef_consecutiveNoProgress := 0\<rparr>
         else e\<lparr>ef_consecutiveNoProgress := ef_consecutiveNoProgress e + 1\<rparr>)"

section \<open>What the counters mean\<close>

text \<open>
  The abstraction: the calls of a prompt so far, each with its key and whether it made progress. A
  run of calls costs one each, as the session charges them.
\<close>

type_synonym call_history = "(string \<times> bool) list"

definition note_call :: "string \<times> bool \<Rightarrow> effort \<Rightarrow> effort" where
  "note_call c e = updateProgress (fst c) (snd c) (recordCost 1 e)"

definition note_calls :: "call_history \<Rightarrow> effort \<Rightarrow> effort" where
  "note_calls h e = fold note_call h e"

definition failing_tail :: "call_history \<Rightarrow> nat" where
  "failing_tail h = length (takeWhile (\<lambda>c. \<not> snd c) (rev h))"

definition repeated_tail :: "call_history \<Rightarrow> nat" where
  "repeated_tail h = (case rev h of [] \<Rightarrow> 0 | c # _ \<Rightarrow> length (takeWhile (\<lambda>d. fst d = fst c) (rev h)))"

lemma note_calls_simps [simp]: "note_calls [] e = e" "note_calls (h @ [c]) e = note_call c (note_calls h e)"
  by (simp_all add: note_calls_def)

lemma counters_of_history:
  assumes "e = beginPrompt budget e0"
  shows "note_calls h e = e\<lparr>ef_consecutiveNoProgress := failing_tail h, ef_identicalActionCount := repeated_tail h,
     ef_lastActionKey := (if h = [] then None else Some (fst (last h))), ef_costUsed := int (length h)\<rparr>"
proof (induction h rule: rev_induct)
  case Nil
  then show ?case using assms by (simp add: beginPrompt_def setCostBudget_def failing_tail_def repeated_tail_def)
next
  case (snoc c h)
  have "repeated_tail (h @ [c]) = (if h \<noteq> [] \<and> fst (last h) = fst c then repeated_tail h + 1 else 1)"
    by (cases h rule: rev_cases) (auto simp: repeated_tail_def)
  then show ?case using snoc
    by (cases e) (auto simp: note_call_def updateProgress_def recordCost_def failing_tail_def Let_def)
qed


text \<open>A prompt of the normal mode is stopped after at most 44 calls.\<close>

lemma normal_mode_stops:
  assumes "effortLimitsFor EffortNormal = Some l" and "length h \<ge> 44"
  shows "stopReason (note_calls h (beginPrompt (el_costBudget l) (applyLimits l e))) \<noteq> None"
proof -
  have "el_costBudget l = 48" using assms(1) by (auto simp: effortLimitsFor_def EFFORT_COST_BUDGET_def)
  then show ?thesis unfolding counters_of_history [OF refl] using assms(2)
    by (simp add: stopReason_def beginPrompt_def setCostBudget_def applyLimits_def)
qed

text \<open>Adding the reason twice is adding it once.\<close>

lemma contains_appended: "contains_text (xs @ w) w"
proof -
  have "starts_with w (drop (length xs) (xs @ w))" by (simp add: starts_with_iff)
  then show ?thesis unfolding contains_text_def index_of_None_iff by (metis le_add1 length_append)
qed

lemma append_reason_once: "appendEffortReason (appendEffortReason content r) r = appendEffortReason content r"
proof -
  have "contains_text r r" using contains_appended [of "[]" r] by simp
  moreover have "contains_text (t @ newline @ r) r" for t using contains_appended [of "t @ newline" r] by simp
  ultimately show ?thesis by (auto simp: appendEffortReason_def split: option.splits part.splits)
qed

text \<open>The key of a call does not depend on the order of the arguments.\<close>

lemma sorted_by_key:
  assumes "distinct (map fst xs)" and "mset xs = mset ys"
  shows "sort_key fst xs = sort_key fst (ys :: (string \<times> 'a) list)"
proof (rule properties_for_sort_key)
  show "mset (sort_key fst ys) = mset xs" using assms(2) by simp
  show "sorted (map fst (sort_key fst ys))" by simp
  fix k assume k': "k \<in> set (sort_key fst ys)"
  then have k: "k \<in> set xs" using mset_eq_setD [OF assms(2)] by simp
  have eq: "filter (\<lambda>x. fst k = fst x) zs = [k]" if "distinct (map fst zs)" "k \<in> set zs" for zs :: "(string \<times> 'a) list"
    using that by (induction zs) (force simp: filter_empty_conv)+
  have "mset (map fst (sort_key fst ys)) = mset (map fst xs)" using assms(2) by (simp add: mset_map)
  then have "distinct (map fst (sort_key fst ys))" using assms(1) mset_eq_imp_distinct_iff by blast
  then show "filter (\<lambda>x. fst k = fst x) (sort_key fst ys) = filter (\<lambda>x. fst k = fst x) xs"
    using eq [OF assms(1) k] eq [OF _ k'] by simp
qed

lemma canonical_key_order:
  assumes "distinct (map fst kvs)" and "mset kvs = mset kvs'"
  shows "canonical (JObj kvs) = canonical (JObj kvs')"
proof -
  have keys: "map fst (map (\<lambda>(k, v). (k, canonical v)) kvs) = map fst kvs" by (induction kvs) auto
  have "sort_key fst (map (\<lambda>(k, v). (k, canonical v)) kvs) = sort_key fst (map (\<lambda>(k, v). (k, canonical v)) kvs')"
    by (rule sorted_by_key) (simp only: keys assms(1), simp add: assms(2))
  then show ?thesis by simp
qed

end
