(* ===== verification/ToolGate.thy ===== *)
theory ToolGate
  imports AgentLoop Safety Effort Checkpoints
begin

text \<open>
  The gate of the session around tool calls: the hooks \<open>beforeToolCall\<close> and \<open>afterToolCall\<close> that
  \<open>core/agent-session.ts\<close> installs in the agent loop. Before a call the gate reserves the file it
  mutates, asks the safety rules and the operator, refuses a mutation that already ran, captures what
  an undo needs, and asks the extensions; after it, it releases the file and keeps the books.

  The state is the record \<open>tool_gate\<close> of the fields of \<open>AgentSession\<close> the hooks use; everything
  else, the disk, the session file and the extensions included, is the world. A hook is one step: the
  source awaits inside it, but the fields it reads before an await and changes after one are the
  confirmations and the checkpoints only. The ladder of models and the history store are parameters.
\<close>

section \<open>State\<close>

record applied_edit =
  ae_path :: string
  ae_oldText :: string
  ae_newText :: string

record tool_gate =
  tg_fileMutationOwner :: "string \<rightharpoonup> string"
  tg_idempotency :: "string \<rightharpoonup> string \<times> bool"
  tg_idempotencyInFlight :: "string set"
  tg_appliedEdits :: "applied_edit list"
  tg_lastCommandErrors :: "string option"
  tg_readFiles :: "string set"
  tg_halted :: bool
  tg_allowDestructiveOps :: bool
  tg_dryRunEnabled :: bool
  tg_diagnosticEnabled :: bool
  tg_operatorMode :: "operator_mode option"
  tg_operatorGrant :: "string set"
  tg_confirmOnce :: "string set"
  tg_currentPromptNumber :: int
  tg_currentPromptId :: string
  tg_editCheckpoints :: "edit_batch list"
  tg_pendingInverses :: "(string \<times> ustring option) list"
  tg_cycleToolNames :: "string list"
  tg_toolSignatures :: "(string \<times> string) list"
  tg_antiPatterns :: "anti_pattern list"
  tg_cyclePostFlight :: "safety_verdict option"
  tg_toolErrorStreak :: nat
  tg_toolsSincePlan :: nat
  tg_effort :: effort
  tg_effortLimits :: "effort_limits option"
  tg_lastEffortError :: "string option"
  tg_lastBashFailure :: "(string \<times> string) option"
  tg_bashFailCounts :: "string \<rightharpoonup> nat"
  tg_noChangeCount :: nat
  tg_sameErrorStreak :: nat
  tg_processBatches :: "scheduled_call list list"
  tg_processTree :: "process_node option"
  tg_processDurations :: "(string \<times> nat) list"
  tg_toolStartedAt :: "string \<rightharpoonup> int"

text \<open>What an extension is told of a call and of its result.\<close>

record tool_call_event =
  te_toolName :: string
  te_toolCallId :: string
  te_input :: json

record tool_result_event =
  re_toolName :: string
  re_toolCallId :: string
  re_input :: json
  re_content :: "part list"
  re_details :: json
  re_isError :: bool

record tool_result_override =
  to_content :: "part list option"
  to_details :: json
  to_isError :: "bool option"

text \<open>
  The surroundings: \<open>ge_confirm\<close> is the confirm handler if one is set, \<open>ge_onToolCall\<close> and
  \<open>ge_onToolResult\<close> are the extensions if one listens, \<open>ge_readBytes\<close> is \<open>readFileSync\<close> on an
  existing file, and \<open>ge_persist\<close> appends the checkpoints to the session file.
\<close>

record 'w gate_env =
  ge_sessionId :: string
  ge_cpaSeed :: int
  ge_sha256 :: "string \<Rightarrow> string"
  ge_resolveToCwd :: "string \<Rightarrow> string + string"
  ge_toRelPath :: "string \<Rightarrow> string option"
  ge_exists :: "string \<Rightarrow> 'w \<Rightarrow> bool"
  ge_readText :: "string \<Rightarrow> 'w \<Rightarrow> string + ustring"
  ge_readBytes :: "string \<Rightarrow> 'w \<Rightarrow> string + ustring"
  ge_nfkc :: "ustring \<Rightarrow> ustring"
  ge_tierOf :: "string \<Rightarrow> reversibility_tier option"
  ge_role :: "'w \<Rightarrow> string option"
  ge_confirm :: "(string \<Rightarrow> ustring \<Rightarrow> ('w, bool) hook) option"
  ge_onToolCall :: "(tool_call_event \<Rightarrow> ('w, before_tool_call_result option) hook) option"
  ge_onToolResult :: "(tool_result_event \<Rightarrow> ('w, tool_result_override option) hook) option"
  ge_checkpointOps :: "'w checkpoint_operations"
  ge_persist :: "edit_batch list \<Rightarrow> ('w, unit) hook"
  ge_recordTrekVersion :: "int \<Rightarrow> string \<Rightarrow> edit_batch list \<Rightarrow> string \<Rightarrow> json \<Rightarrow> 'w \<Rightarrow> 'w"
  ge_pendingElevate :: "'w \<Rightarrow> bool"
  ge_climbLadder :: "string \<Rightarrow> 'w \<Rightarrow> 'w"
  ge_replanAfterTool :: "nat \<Rightarrow> string \<Rightarrow> agent_tool_result \<Rightarrow> bool \<Rightarrow> 'w \<Rightarrow> bool \<times> 'w"

text \<open>The world of the agent loop when the session runs it.\<close>

type_synonym 'w gated = "'w \<times> tool_gate"

definition CRYSTALLIZE_TOOL_NAME :: string where
  "CRYSTALLIZE_TOOL_NAME = ''crystallize''"

text \<open>\<open>args ?? {}\<close>.\<close>

definition or_empty :: "json \<Rightarrow> json" where
  "or_empty args = (if args = JUndefined \<or> args = JNull then JObj [] else args)"

text \<open>The properties of a value, none when it is not an object.\<close>

definition arg_fields :: "json \<Rightarrow> (string \<times> json) list" where
  "arg_fields args = (case object_fields args of None \<Rightarrow> [] | Some fs \<Rightarrow> fs)"

definition canonicalJson :: "json \<Rightarrow> string" where
  "canonicalJson = canonical"

definition stableArgs :: "json \<Rightarrow> string" where
  "stableArgs args = json_stringify (or_empty args)"

definition text_parts :: "part list \<Rightarrow> string" where
  "text_parts content = js_join newline (List.map_filter (\<lambda>p. case p of TextPart t _ \<Rightarrow> Some t | _ \<Rightarrow> None) content)"

section \<open>One mutation of a file at a time\<close>

definition mutationPath :: "'w gate_env \<Rightarrow> string \<Rightarrow> json \<Rightarrow> string + string option" where
  "mutationPath env toolName args =
     (if toolName \<noteq> ''edit'' \<and> toolName \<noteq> ''write'' then Inr None
      else case object_fields args of
             None \<Rightarrow> Inr None
           | Some fs \<Rightarrow>
               (let raw = (if is_string (js_prop fs ''path'') then js_prop fs ''path'' else js_prop fs ''file_path'')
                in case raw of
                     JStr p \<Rightarrow> (if p = '''' then Inr None else map_sum id Some (ge_resolveToCwd env p))
                   | _ \<Rightarrow> Inr None))"

definition fileMutationBusy ::
  "'w gate_env \<Rightarrow> string \<Rightarrow> string \<Rightarrow> json \<Rightarrow> tool_gate \<Rightarrow> (string + bool) \<times> tool_gate" where
  "fileMutationBusy env toolCallId toolName args g =
     (case mutationPath env toolName args of
        Inl e \<Rightarrow> (Inl e, g)
      | Inr None \<Rightarrow> (Inr False, g)
      | Inr (Some path) \<Rightarrow>
          if path = '''' then (Inr False, g)
          else case tg_fileMutationOwner g path of
                 Some owner \<Rightarrow>
                   if owner \<noteq> toolCallId then (Inr True, g)
                   else (Inr False, g\<lparr>tg_fileMutationOwner := (tg_fileMutationOwner g)(path \<mapsto> toolCallId)\<rparr>)
               | None \<Rightarrow> (Inr False, g\<lparr>tg_fileMutationOwner := (tg_fileMutationOwner g)(path \<mapsto> toolCallId)\<rparr>))"

definition releaseFileMutation :: "string \<Rightarrow> tool_gate \<Rightarrow> tool_gate" where
  "releaseFileMutation toolCallId g =
     g\<lparr>tg_fileMutationOwner := (\<lambda>path. if tg_fileMutationOwner g path = Some toolCallId then None else tg_fileMutationOwner g path)\<rparr>"

definition sameFileMutationReason :: "string \<Rightarrow> json \<Rightarrow> string" where
  "sameFileMutationReason toolName args =
     (let fs = arg_fields args;
          raw = (case js_prop fs ''path'' of
                   JStr p \<Rightarrow> p
                 | _ \<Rightarrow> (case js_prop fs ''file_path'' of JStr p \<Rightarrow> p | _ \<Rightarrow> ''that file''))
      in if toolName = ''edit'' then
           ''Another edit of '' @ raw @ '' is already running in this turn. Parallel edits apply only to different files. Put every change to this file in one edit call, in edits[]. Re-read the file after that call finishes. Do not rewrite the file.''
         else
           ''Another write of '' @ raw @ '' is already running in this turn. Parallel writes apply only to different files. Wait for this write to finish. Do not rewrite the file.'')"

section \<open>A mutation that already ran\<close>

definition idempotencyKey :: "'w gate_env \<Rightarrow> string \<Rightarrow> json \<Rightarrow> tool_gate \<Rightarrow> string" where
  "idempotencyKey env toolName args g =
     ge_sha256 env
       (ge_sessionId env @ '':'' @ show_int (tg_currentPromptNumber g) @ '':'' @ toolName @ '':'' @
        canonicalJson (or_empty args))"

datatype idempotent = CachedResult string bool | RunningCall

definition lookupIdempotent :: "'w gate_env \<Rightarrow> string \<Rightarrow> json \<Rightarrow> tool_gate \<Rightarrow> idempotent option \<times> tool_gate" where
  "lookupIdempotent env toolName args g =
     (if toolName \<noteq> ''write'' \<and> toolName \<noteq> ''edit'' then (None, g)
      else
        let key = idempotencyKey env toolName args g
        in case tg_idempotency g key of
             Some (t, isError) \<Rightarrow> (Some (CachedResult t isError), g)
           | None \<Rightarrow>
               if key \<in> tg_idempotencyInFlight g then (Some RunningCall, g)
               else (None, g\<lparr>tg_idempotencyInFlight := insert key (tg_idempotencyInFlight g)\<rparr>))"

definition forgetIdempotent :: "'w gate_env \<Rightarrow> string \<Rightarrow> json \<Rightarrow> tool_gate \<Rightarrow> tool_gate" where
  "forgetIdempotent env toolName args g =
     (let key = idempotencyKey env toolName args g
      in g\<lparr>tg_idempotency := (tg_idempotency g)(key := None), tg_idempotencyInFlight := tg_idempotencyInFlight g - {key}\<rparr>)"

definition rememberIdempotent ::
  "'w gate_env \<Rightarrow> string \<Rightarrow> json \<Rightarrow> agent_tool_result \<Rightarrow> bool \<Rightarrow> tool_gate \<Rightarrow> tool_gate" where
  "rememberIdempotent env toolName args result isError g =
     (if toolName \<noteq> ''write'' \<and> toolName \<noteq> ''edit'' then g
      else
        let key = idempotencyKey env toolName args g;
            g = g\<lparr>tg_idempotencyInFlight := tg_idempotencyInFlight g - {key}\<rparr>
        in if isError then g
           else g\<lparr>tg_idempotency := (tg_idempotency g)(key \<mapsto> (text_parts (atr_content result), False))\<rparr>)"

definition mutationNoun :: "string \<Rightarrow> string" where
  "mutationNoun toolName = (if toolName = ''edit'' then ''edit'' else ''write'')"

definition inFlightIdempotentReason :: "string \<Rightarrow> string" where
  "inFlightIdempotentReason toolName =
     ''This exact '' @ mutationNoun toolName @ '' is already running in this prompt. Use that result. If it failed, re-read the file and retry with the current text. Do not rewrite the file.''"

definition refuse :: "string \<Rightarrow> bool option \<Rightarrow> bool option \<Rightarrow> before_tool_call_result" where
  "refuse reason isError terminate =
     \<lparr>bt_block = True, bt_reason = Some reason, bt_isError = isError, bt_terminate = terminate\<rparr>"

definition blockedIdempotentResult :: "string \<Rightarrow> string \<Rightarrow> bool \<Rightarrow> before_tool_call_result" where
  "blockedIdempotentResult toolName cachedText cachedError =
     (let t = js_trim (stripIdempotentPrefix cachedText); noun = mutationNoun toolName
      in if noun = ''edit'' \<and> contains_text t ''No change needed'' then
           refuse ''No change needed. That edit was already reported. Continue with a different change.'' (Some False) (Some True)
         else
           let head = (if noun = ''edit''
                 then ''This exact edit already applied in this prompt. The file already has this change. Continue with the next step. Do not rewrite the file.''
                 else ''This exact write already completed in this prompt. The file already has this content. Continue with the next step. Do not rewrite the file.'');
               reason = (if length t > 0 then head @ newline @ ''Previous result:'' @ newline @ t else head)
           in refuse reason (Some cachedError) None)"

text \<open>An edit of the arguments as the edit tool takes it; anything else makes the check throw.\<close>

definition json_edit :: "json \<Rightarrow> edit option" where
  "json_edit v =
     (case object_fields v of
        None \<Rightarrow> None
      | Some fs \<Rightarrow>
          (case (js_prop fs ''oldText'', js_prop fs ''newText'') of
             (JStr old, JStr new') \<Rightarrow>
               Some \<lparr>ed_oldText = ucs old, ed_newText = ucs new', ed_replaceAll = (js_prop fs ''replaceAll'' = JBool True)\<rparr>
           | _ \<Rightarrow> None))"

definition cachedEditStillNeeded :: "'w gate_env \<Rightarrow> json \<Rightarrow> 'w \<Rightarrow> bool" where
  "cachedEditStillNeeded env args w =
     (case object_fields args of
        None \<Rightarrow> True
      | Some fs \<Rightarrow>
          (case (js_prop fs ''path'', js_prop fs ''edits'') of
             (JStr path, JArr edits) \<Rightarrow>
               (case ge_resolveToCwd env path of
                  Inl _ \<Rightarrow> True
                | Inr absolutePath \<Rightarrow>
                    (case ge_readText env absolutePath w of
                       Inl _ \<Rightarrow> True
                     | Inr raw \<Rightarrow>
                         if list_ex (\<lambda>e. json_edit e = None) edits then True
                         else editStillNeeded (ge_nfkc env) raw (List.map_filter json_edit edits)))
           | _ \<Rightarrow> True))"

section \<open>Edits that take back an earlier one\<close>

fun collapse_spaces :: "string \<Rightarrow> string" where
  "collapse_spaces [] = []"
| "collapse_spaces (c # cs) =
     (if is_js_space c then
        (case cs of
           d # _ \<Rightarrow> if is_js_space d then collapse_spaces cs else CHR '' '' # collapse_spaces cs
         | [] \<Rightarrow> [CHR '' ''])
      else c # collapse_spaces cs)"

definition compactEditText :: "string \<Rightarrow> string" where
  "compactEditText t = js_trim (collapse_spaces t)"

text \<open>The texts of an edit if both are strings; reading a property of null throws.\<close>

definition edit_texts :: "json \<Rightarrow> string + (string \<times> string) option" where
  "edit_texts e =
     (if e = JUndefined \<or> e = JNull then Inl ''Cannot read properties of an empty edit''
      else case (js_prop (arg_fields e) ''oldText'', js_prop (arg_fields e) ''newText'') of
             (JStr old, JStr new') \<Rightarrow> Inr (Some (old, new'))
           | _ \<Rightarrow> Inr None)"

definition takes_back :: "string \<Rightarrow> string \<Rightarrow> string \<Rightarrow> applied_edit \<Rightarrow> bool" where
  "takes_back path prev following item =
     (ae_path item = path \<and>
      (let removed = compactEditText (ae_oldText item); written = compactEditText (ae_newText item)
       in (removed = following \<and> written = prev) \<or>
          (length removed \<ge> 24 \<and> length written \<ge> 24 \<and> contains_text prev written \<and> contains_text following removed)))"

fun restores_text :: "string \<Rightarrow> json list \<Rightarrow> applied_edit list \<Rightarrow> string + bool" where
  "restores_text path [] applied = Inr False"
| "restores_text path (e # es) applied =
     (case edit_texts e of
        Inl err \<Rightarrow> Inl err
      | Inr None \<Rightarrow> restores_text path es applied
      | Inr (Some (old, new')) \<Rightarrow>
          if list_ex (takes_back path (compactEditText old) (compactEditText new')) applied then Inr True
          else restores_text path es applied)"

definition reverted_text :: string where
  "reverted_text = ''This edit puts back text already replaced in this prompt. Leave the current text. The failure is on other lines. Edit those. Do not restore the removed text.''"

definition revertedEditReason :: "'w gate_env \<Rightarrow> json \<Rightarrow> tool_gate \<Rightarrow> string + string option" where
  "revertedEditReason env args g =
     (case mutationPath env ''edit'' args of
        Inl e \<Rightarrow> Inl e
      | Inr None \<Rightarrow> Inr None
      | Inr (Some path) \<Rightarrow>
          (case js_prop (arg_fields args) ''edits'' of
             JArr edits \<Rightarrow>
               if path = '''' then Inr None
               else (case restores_text path edits (tg_appliedEdits g) of
                       Inl e \<Rightarrow> Inl e
                     | Inr False \<Rightarrow> Inr None
                     | Inr True \<Rightarrow>
                         Inr (Some (reverted_text @
                           (case tg_lastCommandErrors g of
                              Some errs \<Rightarrow> if errs \<noteq> '''' then newline @ ''Latest errors:'' @ newline @ errs else ''''
                            | None \<Rightarrow> ''''))))
           | _ \<Rightarrow> Inr None))"

fun applied_edits_of :: "string \<Rightarrow> json list \<Rightarrow> applied_edit list \<Rightarrow> string option \<times> applied_edit list" where
  "applied_edits_of path [] applied = (None, applied)"
| "applied_edits_of path (e # es) applied =
     (case edit_texts e of
        Inl err \<Rightarrow> (Some err, applied)
      | Inr None \<Rightarrow> applied_edits_of path es applied
      | Inr (Some (old, new')) \<Rightarrow>
          applied_edits_of path es (applied @ [\<lparr>ae_path = path, ae_oldText = old, ae_newText = new'\<rparr>]))"

definition recordAppliedEdit :: "'w gate_env \<Rightarrow> string \<Rightarrow> json \<Rightarrow> tool_gate \<Rightarrow> (string + unit) \<times> tool_gate" where
  "recordAppliedEdit env toolName args g =
     (if toolName \<noteq> ''edit'' then (Inr (), g)
      else case mutationPath env toolName args of
             Inl e \<Rightarrow> (Inl e, g)
           | Inr None \<Rightarrow> (Inr (), g)
           | Inr (Some path) \<Rightarrow>
               (case js_prop (arg_fields args) ''edits'' of
                  JArr edits \<Rightarrow>
                    if path = '''' then (Inr (), g)
                    else (case applied_edits_of path edits (tg_appliedEdits g) of
                            (Some err, applied) \<Rightarrow> (Inl err, g\<lparr>tg_appliedEdits := applied\<rparr>)
                          | (None, applied) \<Rightarrow>
                              (Inr (), g\<lparr>tg_appliedEdits :=
                                 (if length applied > 40 then drop (length applied - 40) applied else applied)\<rparr>))
                | _ \<Rightarrow> (Inr (), g)))"

definition rememberCommandErrors :: "string \<Rightarrow> agent_tool_result \<Rightarrow> tool_gate \<Rightarrow> tool_gate" where
  "rememberCommandErrors toolName result g =
     (if toolName \<noteq> ''bash'' then g
      else
        let errors = take 8 (filter (\<lambda>line. take 6 line = ''error:'')
              (map js_trim (split_on (CHR 10) (text_parts (atr_content result)))))
        in if length errors > 0 then g\<lparr>tg_lastCommandErrors := Some (js_join newline errors)\<rparr> else g)"

section \<open>What an undo needs\<close>

definition toolFilePath :: "json \<Rightarrow> string option" where
  "toolFilePath args =
     (case js_prop (arg_fields args) ''path'' of
        JStr p \<Rightarrow> Some p
      | _ \<Rightarrow> (case js_prop (arg_fields args) ''file_path'' of JStr p \<Rightarrow> Some p | _ \<Rightarrow> None))"

definition pathsToCapture :: "string \<Rightarrow> json \<Rightarrow> string list" where
  "pathsToCapture toolName args =
     (if toolName = ''write'' \<or> toolName = ''edit'' then
        (case toolFilePath args of None \<Rightarrow> [] | Some p \<Rightarrow> if p = '''' then [] else [p])
      else if toolName = ''bash'' then
        (case js_prop (arg_fields args) ''command'' of
           JStr command \<Rightarrow>
             (case parseBashPathOps command of
                None \<Rightarrow> []
              | Some ops \<Rightarrow>
                  concat (map (\<lambda>op. case op of PathDelete p \<Rightarrow> [p] | PathRename from to \<Rightarrow> [from, to]) ops))
         | _ \<Rightarrow> [])
      else [])"

definition registerInverse :: "'w gate_env \<Rightarrow> string \<Rightarrow> 'w \<Rightarrow> tool_gate \<Rightarrow> (string + unit) \<times> tool_gate" where
  "registerInverse env absolutePath w g =
     (if ge_exists env absolutePath w then
        (case ge_readBytes env absolutePath w of
           Inl e \<Rightarrow> (Inl e, g)
         | Inr prior \<Rightarrow> (Inr (), g\<lparr>tg_pendingInverses := tg_pendingInverses g @ [(absolutePath, Some prior)]\<rparr>))
      else (Inr (), g\<lparr>tg_pendingInverses := tg_pendingInverses g @ [(absolutePath, None)]\<rparr>))"

text \<open>One path; what is thrown is logged and the path is skipped.\<close>

definition capture_path :: "'w gate_env \<Rightarrow> string \<Rightarrow> 'w gated \<Rightarrow> bool \<times> 'w gated" where
  "capture_path env filePath s =
     (case ge_resolveToCwd env filePath of
        Inl _ \<Rightarrow> (False, s)
      | Inr absolutePath \<Rightarrow>
          (case registerInverse env absolutePath (fst s) (snd s) of
             (Inl _, g) \<Rightarrow> (False, (fst s, g))
           | (Inr _, g) \<Rightarrow>
               (case ge_toRelPath env absolutePath of
                  None \<Rightarrow> (False, (fst s, g))
                | Some rel \<Rightarrow>
                    if rel = '''' then (False, (fst s, g))
                    else
                      (case capture (ge_checkpointOps env) (tg_currentPromptNumber g) (ucs (tg_currentPromptId g))
                              (ucs absolutePath) (tg_editCheckpoints g) (fst s) of
                         (Inl _, batches, w) \<Rightarrow> (False, (w, g\<lparr>tg_editCheckpoints := batches\<rparr>))
                       | (Inr done', batches, w) \<Rightarrow> (done', (w, g\<lparr>tg_editCheckpoints := batches\<rparr>))))))"

fun capture_paths :: "'w gate_env \<Rightarrow> string list \<Rightarrow> bool \<Rightarrow> 'w gated \<Rightarrow> bool \<times> 'w gated" where
  "capture_paths env [] changed s = (changed, s)"
| "capture_paths env (p # ps) changed s =
     (case capture_path env p s of (done', s) \<Rightarrow> capture_paths env ps (changed \<or> done') s)"

definition persistCheckpoints :: "'w gate_env \<Rightarrow> ('w gated, unit) hook" where
  "persistCheckpoints env s =
     (case ge_persist env (serialize (tg_editCheckpoints (snd s))) (fst s) of (r, w) \<Rightarrow> (r, (w, snd s)))"

definition captureEditCheckpoint :: "'w gate_env \<Rightarrow> string \<Rightarrow> json \<Rightarrow> ('w gated, unit) hook" where
  "captureEditCheckpoint env toolName args s =
     (if tg_dryRunEnabled (snd s) then (Inr (), s)
      else case capture_paths env (pathsToCapture toolName args) False s of
             (changed, s) \<Rightarrow>
               if changed then persistCheckpoints env s else (Inr (), s))"

text \<open>Undoing: the checkpoints are stored again when the undo has not thrown.\<close>

definition persist_undone ::
  "'w gate_env \<Rightarrow> (ustring + undo_result) \<times> edit_batch list \<times> 'w \<Rightarrow> tool_gate \<Rightarrow> (ustring + undo_result) \<times> 'w gated" where
  "persist_undone env undone g =
     (case undone of
        (Inl e, batches, w) \<Rightarrow> (Inl e, (w, g\<lparr>tg_editCheckpoints := batches\<rparr>))
      | (Inr result, batches, w) \<Rightarrow>
          (case persistCheckpoints env (w, g\<lparr>tg_editCheckpoints := batches\<rparr>) of
             (Inl e, s) \<Rightarrow> (Inl (ucs e), s)
           | (Inr _, s) \<Rightarrow> (Inr result, s)))"

definition undoLastEditBatches :: "'w gate_env \<Rightarrow> int \<Rightarrow> 'w gated \<Rightarrow> (ustring + undo_result) \<times> 'w gated" where
  "undoLastEditBatches env n s =
     persist_undone env (undoLastBatches (ge_checkpointOps env) n (tg_editCheckpoints (snd s)) (fst s)) (snd s)"

definition session_undoToPrompt :: "'w gate_env \<Rightarrow> int \<Rightarrow> 'w gated \<Rightarrow> (ustring + undo_result) \<times> 'w gated" where
  "session_undoToPrompt env m s =
     persist_undone env (undoToPrompt (ge_checkpointOps env) m (tg_editCheckpoints (snd s)) (fst s)) (snd s)"

definition keepAllEdits :: "'w gate_env \<Rightarrow> ('w gated, unit) hook" where
  "keepAllEdits env s = persistCheckpoints env (fst s, (snd s)\<lparr>tg_editCheckpoints := keepAll (tg_editCheckpoints (snd s))\<rparr>)"

section \<open>Safety\<close>

definition confirm_detail :: "json \<Rightarrow> ustring" where
  "confirm_detail args =
     (let detail = (case js_prop (arg_fields args) ''command'' of JStr c \<Rightarrow> c | _ \<Rightarrow> json_stringify (or_empty args))
      in if length detail > 180 then ucs (take 180 detail) @ [8230] else ucs detail)"

definition askToolConfirm :: "'w gate_env \<Rightarrow> string \<Rightarrow> json \<Rightarrow> 'w gated \<Rightarrow> bool \<times> 'w gated" where
  "askToolConfirm env toolName args s =
     (case ge_confirm env of
        None \<Rightarrow> (False, s)
      | Some confirm \<Rightarrow>
          if tg_halted (snd s) then (False, s)
          else case confirm toolName (confirm_detail args) (fst s) of
                 (r, w) \<Rightarrow> (r = Inr True, (w, snd s)))"

definition gate_safety_env :: "'w gate_env \<Rightarrow> 'w gated \<Rightarrow> safety_env" where
  "gate_safety_env env s =
     \<lparr>se_halted = tg_halted (snd s),
      se_requireDestructiveConfirm = tg_allowDestructiveOps (snd s),
      se_enforceReadBeforeWrite =
        Some (ge_role env (fst s) \<noteq> Some ''decision'' \<and> ge_role env (fst s) \<noteq> Some ''tooling''),
      se_hasReadFile = (\<lambda>absPath. absPath \<in> tg_readFiles (snd s)),
      se_fileExists = (\<lambda>absPath. ge_exists env absPath (fst s)),
      se_resolvePath = ge_resolveToCwd env\<rparr>"

definition refuse_verdict :: "string \<Rightarrow> safety_verdict" where
  "refuse_verdict reason = \<lparr>sv_allowed = False, sv_law = None, sv_reason = Some reason\<rparr>"

text \<open>What the operator says, before the laws: \<open>None\<close> lets the call go on.\<close>

definition operator_gate :: "'w gate_env \<Rightarrow> string \<Rightarrow> json \<Rightarrow> 'w gated \<Rightarrow> safety_verdict option \<times> 'w gated" where
  "operator_gate env toolName args s =
     (let tier = resolveReversibilityTier (ge_tierOf env toolName) in
      if toolName \<noteq> CRYSTALLIZE_TOOL_NAME \<and> tg_operatorMode (snd s) \<noteq> None then
        (let mode = the (tg_operatorMode (snd s));
             decision = decideTool mode tier toolName (tg_operatorGrant (snd s));
             preconfirmed = (decision = Confirm \<and> toolName \<in> tg_confirmOnce (snd s));
             s = (if decision = Confirm then (fst s, (snd s)\<lparr>tg_confirmOnce := tg_confirmOnce (snd s) - {toolName}\<rparr>) else s);
             (asked, s) =
               (if decision = Confirm \<and> \<not> preconfirmed \<and> (mode = Supervised \<or> mode = Checkpoint)
                then askToolConfirm env toolName args s else (False, s))
         in if decision \<noteq> Run \<and> \<not> preconfirmed \<and> \<not> asked then
              (Some (refuse_verdict (case operatorBlockReason mode toolName tier decision of Some r \<Rightarrow> r | None \<Rightarrow> ''blocked'')), s)
            else (None, s))
      else if tg_diagnosticEnabled (snd s) \<and> tier \<noteq> Free then
        (Some (refuse_verdict (''Diagnostic mode: '' @ toolName @ '' is blocked (mutating tools are not allowed).'')), s)
      else (None, s))"

definition call_descriptor :: "'w gate_env \<Rightarrow> string \<Rightarrow> json \<Rightarrow> tool_call_descriptor" where
  "call_descriptor env toolName args =
     \<lparr>td_toolName = toolName, td_args = arg_fields args, td_tier = resolveReversibilityTier (ge_tierOf env toolName)\<rparr>"

definition checkToolSafety :: "'w gate_env \<Rightarrow> string \<Rightarrow> json \<Rightarrow> ('w gated, safety_verdict) hook" where
  "checkToolSafety env toolName args s =
     (case operator_gate env toolName args s of
        (Some verdict, s) \<Rightarrow> (Inr verdict, s)
      | (None, s) \<Rightarrow> (checkToolCall (call_descriptor env toolName args) (gate_safety_env env s), s))"

section \<open>Before a call\<close>

definition release_gate :: "string \<Rightarrow> 'w gated \<Rightarrow> 'w gated" where
  "release_gate toolCallId s = (fst s, releaseFileMutation toolCallId (snd s))"

definition blocked_by :: "before_tool_call_result option \<Rightarrow> bool" where
  "blocked_by r = (case r of None \<Rightarrow> False | Some b \<Rightarrow> bt_block b)"

definition ask_extensions ::
  "'w gate_env \<Rightarrow> tool_call \<Rightarrow> json \<Rightarrow> ('w gated, before_tool_call_result option) hook" where
  "ask_extensions env toolCall args s =
     (case ge_onToolCall env of
        None \<Rightarrow> (Inr None, s)
      | Some emitToolCall \<Rightarrow>
          (case emitToolCall \<lparr>te_toolName = tc_name toolCall, te_toolCallId = tc_id toolCall, te_input = args\<rparr> (fst s) of
             (Inl e, w) \<Rightarrow> (Inl e, release_gate (tc_id toolCall) (w, snd s))
           | (Inr r, w) \<Rightarrow>
               (Inr r, if blocked_by r then release_gate (tc_id toolCall) (w, snd s) else (w, snd s))))"

text \<open>From the check for an edit that takes back an earlier one to the extensions.\<close>

definition capture_and_ask ::
  "'w gate_env \<Rightarrow> tool_call \<Rightarrow> json \<Rightarrow> ('w gated, before_tool_call_result option) hook" where
  "capture_and_ask env toolCall args s =
     (case revertedEditReason env args (snd s) of
        Inl e \<Rightarrow> (Inl e, s)
      | Inr r \<Rightarrow>
          if tc_name toolCall = ''edit'' \<and> r \<noteq> None then
            (Inr (Some (refuse (the r) (Some False) None)), release_gate (tc_id toolCall) s)
          else (case captureEditCheckpoint env (tc_name toolCall) args s of
                  (Inl e, s) \<Rightarrow> (Inl e, s)
                | (Inr _, s) \<Rightarrow> ask_extensions env toolCall args s))"

definition beforeToolCall ::
  "'w gate_env \<Rightarrow> tool_call \<Rightarrow> json \<Rightarrow> ('w gated, before_tool_call_result option) hook" where
  "beforeToolCall env toolCall args s =
     (case fileMutationBusy env (tc_id toolCall) (tc_name toolCall) args (snd s) of
        (Inl e, g) \<Rightarrow> (Inl e, (fst s, g))
      | (Inr True, g) \<Rightarrow>
          (Inr (Some (refuse (sameFileMutationReason (tc_name toolCall) args) (Some False) None)), (fst s, g))
      | (Inr False, g) \<Rightarrow>
          (case checkToolSafety env (tc_name toolCall) args (fst s, g) of
             (Inl e, s) \<Rightarrow> (Inl e, s)
           | (Inr verdict, s) \<Rightarrow>
               if \<not> sv_allowed verdict then
                 (Inr (Some \<lparr>bt_block = True, bt_reason = sv_reason verdict, bt_isError = None, bt_terminate = None\<rparr>),
                  release_gate (tc_id toolCall) s)
               else
                 (case lookupIdempotent env (tc_name toolCall) args (snd s) of
                    (Some RunningCall, g) \<Rightarrow>
                      (Inr (Some (refuse (inFlightIdempotentReason (tc_name toolCall)) (Some False) None)),
                       release_gate (tc_id toolCall) (fst s, g))
                  | (Some (CachedResult t isError), g) \<Rightarrow>
                      if tc_name toolCall = ''edit'' \<and> cachedEditStillNeeded env args (fst s) then
                        capture_and_ask env toolCall args (fst s, forgetIdempotent env (tc_name toolCall) args g)
                      else (Inr (Some (blockedIdempotentResult (tc_name toolCall) t isError)),
                            release_gate (tc_id toolCall) (fst s, g))
                  | (None, g) \<Rightarrow> capture_and_ask env toolCall args (fst s, g))))"

section \<open>After a call\<close>

definition recordFileAccessForSafety :: "'w gate_env \<Rightarrow> string \<Rightarrow> json \<Rightarrow> bool \<Rightarrow> tool_gate \<Rightarrow> tool_gate" where
  "recordFileAccessForSafety env toolName args isError g =
     (if isError \<or> (toolName \<noteq> ''read'' \<and> toolName \<noteq> ''write'' \<and> toolName \<noteq> ''edit'') then g
      else case toolFilePath args of
             None \<Rightarrow> g
           | Some filePath \<Rightarrow>
               if filePath = '''' then g
               else (case ge_resolveToCwd env filePath of
                       Inl _ \<Rightarrow> g
                     | Inr p \<Rightarrow> g\<lparr>tg_readFiles := insert p (tg_readFiles g)\<rparr>))"

definition ERROR_LINE :: regex where
  "ERROR_LINE = seqs
     [Bol, Many is_js_space, lit ''error:'', spaces1, Chr (\<lambda>c. \<not> is_js_space c), nonspaces, lit '':'',
      one_of ''0123456789'', Many (\<lambda>c. c \<in> set ''0123456789''), lit '':'',
      one_of ''0123456789'', Many (\<lambda>c. c \<in> set ''0123456789''), lit '':'']"

text \<open>\<open>new Set\<close> keeps the first of equal lines.\<close>

definition bashErrorSignature :: "string \<Rightarrow> string" where
  "bashErrorSignature t =
     js_join newline (rev (remdups (rev (filter (regex_test ERROR_LINE) (map js_trim (split_on (CHR 10) t))))))"

definition note_bash_failure :: "string \<Rightarrow> json \<Rightarrow> string \<Rightarrow> nat \<Rightarrow> bool \<Rightarrow> tool_gate \<Rightarrow> bool \<times> bool \<times> tool_gate" where
  "note_bash_failure name args t repeatLimit learned g =
     (let errors = bashErrorSignature t;
          key = effortActionKey name args;
          count = (case tg_bashFailCounts g key of None \<Rightarrow> 0 | Some n \<Rightarrow> n) + 1;
          g = g\<lparr>tg_bashFailCounts := (tg_bashFailCounts g)(key \<mapsto> count)\<rparr>;
          repeated = (count \<ge> repeatLimit)
      in if length errors > 0 \<and> tg_lastBashFailure g = Some (key, errors) then
           (False, repeated, g\<lparr>tg_sameErrorStreak := tg_sameErrorStreak g + 1\<rparr>)
         else if length errors > 0 then
           (learned, repeated, g\<lparr>tg_lastBashFailure := Some (key, errors), tg_sameErrorStreak := 1\<rparr>)
         else (learned, repeated, g))"

definition noteLiveEffort :: "string \<Rightarrow> json \<Rightarrow> agent_tool_result \<Rightarrow> bool \<Rightarrow> tool_gate \<Rightarrow> string option \<times> tool_gate" where
  "noteLiveEffort name args result isError g =
     (case tg_effortLimits g of
        None \<Rightarrow> (None, g)
      | Some limits \<Rightarrow>
          (let g = g\<lparr>tg_effort := recordCost 1 (tg_effort g)\<rparr>;
               t = js_trim (text_parts (atr_content result));
               noChange = (name = ''edit'' \<and> contains_text t ''No change needed'');
               g = (if noChange then g\<lparr>tg_noChangeCount := tg_noChangeCount g + 1\<rparr> else g);
               learned = (isError \<and> length t > 0 \<and> tg_lastEffortError g \<noteq> Some t);
               (learned, repeatedCommand, g) =
                 (if name = ''bash'' \<and> isError then note_bash_failure name args t (el_repeatLimit limits) learned g
                  else (learned, False, g));
               g = g\<lparr>tg_lastEffortError := (if isError then Some t else None)\<rparr>;
               g = g\<lparr>tg_effort := updateProgress (effortActionKey name args) ((\<not> isError \<or> learned) \<and> \<not> noChange) (tg_effort g)\<rparr>
           in (if noChange \<and> tg_noChangeCount g \<ge> el_noChangeLimit limits then Some ''EffortRegulator stopped: no change.''
               else if tg_sameErrorStreak g \<ge> el_sameErrorLimit limits then Some ''EffortRegulator stopped: same errors.''
               else if repeatedCommand then Some ''EffortRegulator stopped: same command failed.''
               else stopReason (tg_effort g), g)))"

definition recordPostFlightVerdict :: "safety_verdict \<Rightarrow> tool_gate \<Rightarrow> tool_gate" where
  "recordPostFlightVerdict verdict g =
     (if \<not> sv_allowed verdict then g\<lparr>tg_cyclePostFlight := Some verdict\<rparr>
      else case tg_cyclePostFlight g of
             None \<Rightarrow> g\<lparr>tg_cyclePostFlight := Some allow_call\<rparr>
           | Some v \<Rightarrow> if sv_allowed v then g\<lparr>tg_cyclePostFlight := Some allow_call\<rparr> else g)"

definition collectPostFlightNotes ::
  "'w gate_env \<Rightarrow> string \<Rightarrow> json \<Rightarrow> agent_tool_result \<Rightarrow> bool \<Rightarrow> tool_gate \<Rightarrow> string list \<times> tool_gate" where
  "collectPostFlightNotes env toolName args result isError g =
     (let shapeIssues = validateToolResultShape (result_json result);
          notes = (if length shapeIssues > 0 then [formatSchemaMismatchNote toolName shapeIssues] else [])
      in if \<not> isError \<and> length shapeIssues = 0 then
           let verdict = checkToolResult (call_descriptor env toolName (or_empty args)) (text_parts (atr_content result));
               g = recordPostFlightVerdict verdict g
           in (if sv_allowed verdict then notes else notes @ (case sv_reason verdict of Some r \<Rightarrow> [r] | None \<Rightarrow> []), g)
         else (notes, g))"

definition isToolArgumentValidationError :: "string \<Rightarrow> bool" where
  "isToolArgumentValidationError s =
     (let t = js_trim s in
      if t = '''' then False
      else if test_lower (seqs [lit ''validation failed for tool'', spaces1, lit [CHR 34]]) t then True
      else if test_lower (lit ''must have required propert'') t \<and>
              test_lower (seqs [Boundary, alts (map lit [''path'', ''command'', ''content'', ''edits'', ''oldtext'', ''newtext'']), Boundary]) t
           then True
      else test_lower (seqs [Boundary, lit ''received arguments:'', Many is_js_space, lit ''{'']) t \<and>
           test_lower (seqs [Boundary, lit ''must have required propert'']) t)"

definition toolResultSnippet :: "agent_tool_result \<Rightarrow> string" where
  "toolResultSnippet result = js_trim (text_parts (atr_content result))"

definition note_outcome :: "'w gate_env \<Rightarrow> string \<Rightarrow> agent_tool_result \<Rightarrow> bool \<Rightarrow> 'w gated \<Rightarrow> 'w gated" where
  "note_outcome env name result isError s =
     (if isError then
        let g = (snd s)\<lparr>tg_toolErrorStreak := tg_toolErrorStreak (snd s) + 1\<rparr>;
            w = (if ge_pendingElevate env (fst s) then fst s
                 else if isToolArgumentValidationError (toolResultSnippet result)
                   then ge_climbLadder env (''malformed '' @ name @ '' args'') (fst s)
                 else if tg_toolErrorStreak g \<ge> 2 then ge_climbLadder env (''tool '' @ name @ '' failed twice'') (fst s)
                 else fst s)
        in (w, g)
      else (fst s, (snd s)\<lparr>tg_toolErrorStreak := 0\<rparr>))"

definition replan :: "'w gate_env \<Rightarrow> string \<Rightarrow> agent_tool_result \<Rightarrow> bool \<Rightarrow> 'w gated \<Rightarrow> 'w gated" where
  "replan env name result isError s =
     (let g = (snd s)\<lparr>tg_toolsSincePlan := tg_toolsSincePlan (snd s) + 1\<rparr> in
      case ge_replanAfterTool env (tg_toolsSincePlan g) name result isError (fst s) of
        (planned, w) \<Rightarrow> (w, if planned then g\<lparr>tg_toolsSincePlan := 0\<rparr> else g))"

text \<open>The first part: releasing the file and keeping the books of the call.\<close>

definition settle_books ::
  "'w gate_env \<Rightarrow> tool_call \<Rightarrow> json \<Rightarrow> agent_tool_result \<Rightarrow> bool \<Rightarrow> tool_gate \<Rightarrow> (string + unit) \<times> tool_gate" where
  "settle_books env toolCall args result isError g =
     (let name = tc_name toolCall;
          g = releaseFileMutation (tc_id toolCall) g;
          g = g\<lparr>tg_cycleToolNames := tg_cycleToolNames g @ [name]\<rparr>;
          g = g\<lparr>tg_toolSignatures := tg_toolSignatures g @ [(name, stableArgs args)]\<rparr>;
          g = g\<lparr>tg_antiPatterns := detectAntiPatterns \<lparr>ap_toolCalls = tg_toolSignatures g, ap_assistantTexts = [],
                 ap_toolOutputs = [], ap_toolResults = [], ap_jailbreakFromToolOutput = None\<rparr>\<rparr>;
          g = recordFileAccessForSafety env name args isError g;
          g = rememberIdempotent env name args result isError g
      in if \<not> isError then recordAppliedEdit env name args g else (Inr (), rememberCommandErrors name result g))"

definition after_result ::
  "part list \<Rightarrow> json \<Rightarrow> bool \<Rightarrow> string option \<Rightarrow> string list \<Rightarrow> after_tool_call_result option" where
  "after_result content details isError effortStop safetyNotes =
     (if safetyNotes = [] \<and> effortStop = None then None
      else Some \<lparr>at_content = Some content, at_details = details, at_isError = Some isError,
             at_terminate = (if effortStop \<noteq> None then Some True else None)\<rparr>)"

definition publish_after ::
  "'w gate_env \<Rightarrow> tool_call \<Rightarrow> json \<Rightarrow> agent_tool_result \<Rightarrow> bool \<Rightarrow> part list \<Rightarrow> string option \<Rightarrow> string list \<Rightarrow>
   ('w gated, after_tool_call_result option) hook" where
  "publish_after env toolCall args result isError content effortStop safetyNotes s =
     (case ge_onToolResult env of
        None \<Rightarrow> (Inr (after_result content (atr_details result) isError effortStop safetyNotes), s)
      | Some emitToolResult \<Rightarrow>
          (case emitToolResult \<lparr>re_toolName = tc_name toolCall, re_toolCallId = tc_id toolCall, re_input = args,
                  re_content = content, re_details = atr_details result, re_isError = isError\<rparr> (fst s) of
             (Inl e, w) \<Rightarrow> (Inl e, (w, snd s))
           | (Inr None, w) \<Rightarrow> (Inr (after_result content (atr_details result) isError effortStop safetyNotes), (w, snd s))
           | (Inr (Some h), w) \<Rightarrow>
               (let hooked = (case to_content h of None \<Rightarrow> content | Some c \<Rightarrow> c)
                in (Inr (Some \<lparr>at_content =
                       Some (case effortStop of None \<Rightarrow> hooked | Some r \<Rightarrow> appendEffortReason hooked r),
                     at_details = to_details h,
                     at_isError = Some (case to_isError h of None \<Rightarrow> isError | Some b \<Rightarrow> b),
                     at_terminate = (if effortStop \<noteq> None then Some True else None)\<rparr>), (w, snd s)))))"

definition afterToolCall ::
  "'w gate_env \<Rightarrow> tool_call \<Rightarrow> json \<Rightarrow> agent_tool_result \<Rightarrow> bool \<Rightarrow> ('w gated, after_tool_call_result option) hook" where
  "afterToolCall env toolCall args result isError s =
     (case settle_books env toolCall args result isError (snd s) of
        (Inl e, g) \<Rightarrow> (Inl e, (fst s, g))
      | (Inr _, g) \<Rightarrow>
          (let name = tc_name toolCall;
               w = (if \<not> isError \<and> \<not> tg_dryRunEnabled g
                    then ge_recordTrekVersion env (tg_currentPromptNumber g) (tg_currentPromptId g) (tg_editCheckpoints g)
                           name args (fst s)
                    else fst s);
               s = note_outcome env name result isError (w, g);
               s = replan env name result isError s;
               (safetyNotes, g) = collectPostFlightNotes env name args result isError (snd s);
               content = atr_content result @ map (\<lambda>t. TextPart t None) safetyNotes;
               (effortStop, g) = noteLiveEffort name args result isError g;
               content = (case effortStop of None \<Rightarrow> content | Some r \<Rightarrow> appendEffortReason content r)
           in publish_after env toolCall args result isError content effortStop safetyNotes (fst s, g)))"

section \<open>The process tree of the prompt\<close>

definition rebuildProcessTree :: "'w gate_env \<Rightarrow> tool_gate \<Rightarrow> tool_gate" where
  "rebuildProcessTree env g =
     (let tree = composePromptTree (tg_processBatches g) (ge_cpaSeed env) in
      g\<lparr>tg_processTree :=
          map_option (\<lambda>t. fold (\<lambda>(toolCallId, durationMs). noteToolDuration toolCallId durationMs) (tg_processDurations g) t) tree\<rparr>)"

definition record_hook :: "'w gate_env \<Rightarrow> tool_call list \<Rightarrow> ('w gated, unit) hook" where
  "record_hook env toolCalls s =
     (Inr (), (fst s, rebuildProcessTree env
        ((snd s)\<lparr>tg_processBatches := tg_processBatches (snd s) @ [map to_scheduled toolCalls]\<rparr>)))"

text \<open>The clock of the source is in milliseconds with a fraction; here it counts whole ones.\<close>

definition tool_started :: "string \<Rightarrow> int \<Rightarrow> tool_gate \<Rightarrow> tool_gate" where
  "tool_started toolCallId now g = g\<lparr>tg_toolStartedAt := (tg_toolStartedAt g)(toolCallId \<mapsto> now)\<rparr>"

definition tool_ended :: "string \<Rightarrow> int \<Rightarrow> tool_gate \<Rightarrow> tool_gate" where
  "tool_ended toolCallId now g =
     (case (tg_toolStartedAt g toolCallId, tg_processTree g) of
        (Some started, Some tree) \<Rightarrow>
          (let durationMs = nat (max 0 (now - started))
           in g\<lparr>tg_processTree := Some (noteToolDuration toolCallId durationMs tree),
                tg_processDurations := AList.update toolCallId durationMs (tg_processDurations g)\<rparr>)
      | _ \<Rightarrow> g)"

section \<open>The hooks of the loop\<close>

text \<open>What \<open>_installAgentToolHooks\<close> sets on the agent.\<close>

definition before_hook ::
  "'w gate_env \<Rightarrow> 'w gated before_tool_call_context \<Rightarrow> ('w gated, before_tool_call_result option) hook" where
  "before_hook env c = beforeToolCall env (bc_toolCall c) (bc_args c)"

definition after_hook ::
  "'w gate_env \<Rightarrow> 'w gated after_tool_call_context \<Rightarrow> ('w gated, after_tool_call_result option) hook" where
  "after_hook env c = afterToolCall env (af_toolCall c) (af_args c) (af_result c) (af_isError c)"

definition stop_hook :: "'w gated turn_context \<Rightarrow> ('w gated, bool) hook" where
  "stop_hook c s = (Inr (tg_effortLimits (snd s) \<noteq> None \<and> stopReason (tg_effort (snd s)) \<noteq> None), s)"

definition installAgentToolHooks :: "'w gate_env \<Rightarrow> 'w gated agent_loop_config \<Rightarrow> 'w gated agent_loop_config" where
  "installAgentToolHooks env cfg =
     cfg\<lparr>cfg_shouldStopAfterTurn := Some stop_hook,
         cfg_partitionToolCalls := Some (\<lambda>toolCalls s. (Inr (partitionToolCalls toolCalls), s)),
         cfg_recordToolCalls := Some (record_hook env),
         cfg_beforeToolCall := Some (before_hook env),
         cfg_afterToolCall := Some (after_hook env)\<rparr>"

section \<open>The operator\<close>

text \<open>The child agents a halt aborts are not part of the gate.\<close>

definition requestHalt :: "tool_gate \<Rightarrow> tool_gate" where "requestHalt g = g\<lparr>tg_halted := True\<rparr>"
definition clearHalt :: "tool_gate \<Rightarrow> tool_gate" where "clearHalt g = g\<lparr>tg_halted := False\<rparr>"

definition setAllowDestructiveOps :: "bool \<Rightarrow> tool_gate \<Rightarrow> tool_gate" where
  "setAllowDestructiveOps allow g = g\<lparr>tg_allowDestructiveOps := allow\<rparr>"

definition setDryRun :: "bool \<Rightarrow> tool_gate \<Rightarrow> tool_gate" where
  "setDryRun enabled g = g\<lparr>tg_dryRunEnabled := enabled\<rparr>"

definition setDiagnostic :: "bool \<Rightarrow> tool_gate \<Rightarrow> tool_gate" where
  "setDiagnostic enabled g =
     (let g = g\<lparr>tg_diagnosticEnabled := enabled\<rparr> in
      if enabled then g\<lparr>tg_operatorMode := Some Diagnostic\<rparr>
      else if tg_operatorMode g = Some Diagnostic then g\<lparr>tg_operatorMode := None\<rparr> else g)"

definition setOperatorMode :: "operator_mode option \<Rightarrow> tool_gate \<Rightarrow> tool_gate" where
  "setOperatorMode mode g = g\<lparr>tg_diagnosticEnabled := (mode = Some Diagnostic), tg_operatorMode := mode\<rparr>"

definition grantTool :: "string \<Rightarrow> tool_gate \<Rightarrow> tool_gate" where
  "grantTool toolName g = g\<lparr>tg_operatorGrant := insert toolName (tg_operatorGrant g)\<rparr>"

definition confirmTool :: "string \<Rightarrow> tool_gate \<Rightarrow> tool_gate" where
  "confirmTool toolName g = g\<lparr>tg_confirmOnce := insert toolName (tg_confirmOnce g)\<rparr>"

definition setEffort :: "effort_mode \<Rightarrow> tool_gate \<Rightarrow> tool_gate" where
  "setEffort mode g =
     (let g = g\<lparr>tg_effortLimits := effortLimitsFor mode\<rparr> in
      case tg_effortLimits g of
        Some l \<Rightarrow> g\<lparr>tg_effort := applyLimits l (tg_effort g)\<rparr>
      | None \<Rightarrow> g\<lparr>tg_effort := setEnabled False (tg_effort g)\<rparr>)"

text \<open>A new prompt gets its number, and \<open>_runAgentPrompt\<close> clears what counts within a prompt.\<close>

definition assignPromptNumber :: "int \<Rightarrow> tool_gate \<Rightarrow> tool_gate" where
  "assignPromptNumber promptNumber g =
     clearHalt (g\<lparr>tg_currentPromptNumber := promptNumber, tg_currentPromptId := ''#'' @ show_int promptNumber\<rparr>)"

definition begin_prompt :: "tool_gate \<Rightarrow> tool_gate" where
  "begin_prompt g =
     (let g = g\<lparr>tg_appliedEdits := [], tg_lastCommandErrors := None, tg_lastEffortError := None, tg_lastBashFailure := None,
            tg_bashFailCounts := Map.empty, tg_noChangeCount := 0, tg_sameErrorStreak := 0, tg_processBatches := [],
            tg_processTree := None, tg_processDurations := [], tg_toolStartedAt := Map.empty\<rparr>
      in case tg_effortLimits g of
           Some l \<Rightarrow> g\<lparr>tg_effort := beginPrompt (el_costBudget l) (applyLimits l (tg_effort g))\<rparr>
         | None \<Rightarrow> g\<lparr>tg_effort := beginPrompt EFFORT_COST_BUDGET (setEnabled False (tg_effort g))\<rparr>)"

text \<open>The fields of a new session.\<close>

definition new_gate :: "edit_batch list \<Rightarrow> bool \<Rightarrow> tool_gate" where
  "new_gate checkpoints diagnostic =
     \<lparr>tg_fileMutationOwner = Map.empty, tg_idempotency = Map.empty, tg_idempotencyInFlight = {}, tg_appliedEdits = [],
      tg_lastCommandErrors = None, tg_readFiles = {}, tg_halted = False, tg_allowDestructiveOps = False,
      tg_dryRunEnabled = False, tg_diagnosticEnabled = diagnostic, tg_operatorMode = None, tg_operatorGrant = {},
      tg_confirmOnce = {}, tg_currentPromptNumber = 0, tg_currentPromptId = ''#0'', tg_editCheckpoints = checkpoints,
      tg_pendingInverses = [], tg_cycleToolNames = [], tg_toolSignatures = [], tg_antiPatterns = [],
      tg_cyclePostFlight = None, tg_toolErrorStreak = 0, tg_toolsSincePlan = 0, tg_effort = new_effort,
      tg_effortLimits = effortLimitsFor EffortNormal, tg_lastEffortError = None, tg_lastBashFailure = None,
      tg_bashFailCounts = Map.empty, tg_noChangeCount = 0, tg_sameErrorStreak = 0, tg_processBatches = [],
      tg_processTree = None, tg_processDurations = [], tg_toolStartedAt = Map.empty\<rparr>"

end
