(* ===== verification/ToolGateProps.thy ===== *)
theory ToolGateProps
  imports ToolGate AgentLoopProps
begin

text \<open>
  What the gate around tool calls guarantees: a call it admits has passed every safety rule; of the
  calls running at one moment no two mutate the same file, in every interleaving of the hooks; and a
  gated call spends a confirmation. An admitted call the loop then abandons keeps its file reserved
  for ever, which is exhibited.
\<close>

section \<open>Which part of the gate changes the reservations\<close>

abbreviation owner :: "'w gated \<Rightarrow> string \<rightharpoonup> string" where
  "owner s \<equiv> tg_fileMutationOwner (snd s)"

lemma askToolConfirm_gate: "askToolConfirm env name args s = (b, s') \<Longrightarrow> snd s' = snd s"
  by (auto simp: askToolConfirm_def split: option.splits if_splits prod.splits)

text \<open>The operator's answer changes the confirmations and the world, nothing else.\<close>

lemma operator_gate_keeps:
  assumes "operator_gate env name args s = (v, s')"
  shows "tg_fileMutationOwner (snd s') = tg_fileMutationOwner (snd s)" "tg_halted (snd s') = tg_halted (snd s)"
    "tg_allowDestructiveOps (snd s') = tg_allowDestructiveOps (snd s)" "tg_readFiles (snd s') = tg_readFiles (snd s)"
    "tg_idempotency (snd s') = tg_idempotency (snd s)"
  using assms by (auto simp: operator_gate_def Let_def split: if_splits prod.splits dest!: askToolConfirm_gate)

lemma checkToolSafety_keeps:
  "checkToolSafety env name args s = (v, s') \<Longrightarrow> owner s' = owner s"
  by (auto simp: checkToolSafety_def split: prod.splits option.splits dest: operator_gate_keeps)

text \<open>Capturing touches the checkpoints and the inverses only.\<close>

definition same_books :: "'w gated \<Rightarrow> 'w gated \<Rightarrow> bool" where
  "same_books s s' =
     (owner s' = owner s \<and> tg_idempotency (snd s') = tg_idempotency (snd s) \<and> tg_confirmOnce (snd s') = tg_confirmOnce (snd s))"

lemma same_books_trans: "same_books s s' \<Longrightarrow> same_books s' s'' \<Longrightarrow> same_books s s''"
  by (simp add: same_books_def)

lemma same_books_refl [simp]: "same_books s s" "same_books s (w, snd s)"
  by (simp_all add: same_books_def)

lemma capture_path_keeps: "same_books s (snd (capture_path env p s))"
  by (simp add: capture_path_def registerInverse_def same_books_def split: sum.split prod.split option.split)

lemma capture_paths_keeps: "same_books s (snd (capture_paths env ps b s))"
proof (induction env ps b s rule: capture_paths.induct)
  case (2 env p ps changed s)
  obtain d s1 where d: "capture_path env p s = (d, s1)" by (metis surj_pair)
  then have "same_books s s1" using capture_path_keeps [of s env p] by simp
  moreover have "same_books s1 (snd (capture_paths env ps (changed \<or> d) s1))" using 2 d by simp
  ultimately show ?case using d same_books_trans by simp
qed simp

lemma captureEditCheckpoint_keeps: "captureEditCheckpoint env name args s = (r, s') \<Longrightarrow> same_books s s'"
proof -
  assume run: "captureEditCheckpoint env name args s = (r, s')"
  obtain c s1 where c: "capture_paths env (pathsToCapture name args) False s = (c, s1)" by (metis surj_pair)
  then have "same_books s s1" using capture_paths_keeps [of s env "pathsToCapture name args" False] by simp
  moreover obtain q w where q: "ge_persist env (serialize (tg_editCheckpoints (snd s1))) (fst s1) = (q, w)" by (metis surj_pair)
  have "captureEditCheckpoint env name args s =
      (if tg_dryRunEnabled (snd s) then (Inr (), s) else if c then (q, (w, snd s1)) else (Inr (), s1))"
    by (simp add: captureEditCheckpoint_def persistCheckpoints_def c q)
  then have "s' = s \<or> s' = (w, snd s1) \<or> s' = s1" using run by (metis prod.inject)
  with calculation show ?thesis using same_books_refl(1) same_books_refl(2) [of s1 w] same_books_trans by metis
qed

lemma lookupIdempotent_keeps: "lookupIdempotent env name args g = (r, g') \<Longrightarrow> tg_fileMutationOwner g' = tg_fileMutationOwner g"
  by (auto simp: lookupIdempotent_def Let_def split: if_splits option.splits prod.splits)

lemma lookupIdempotent_confirm: "lookupIdempotent env name args g = (r, g') \<Longrightarrow> tg_confirmOnce g' = tg_confirmOnce g"
  by (auto simp: lookupIdempotent_def Let_def split: if_splits option.splits prod.splits)

lemma forgetIdempotent_keeps [simp]:
  "tg_fileMutationOwner (forgetIdempotent env name args g) = tg_fileMutationOwner g"
  "tg_confirmOnce (forgetIdempotent env name args g) = tg_confirmOnce g"
  by (simp_all add: forgetIdempotent_def Let_def)

lemma releaseFileMutation_owner:
  "tg_fileMutationOwner (releaseFileMutation i g) p =
     (if tg_fileMutationOwner g p = Some i then None else tg_fileMutationOwner g p)"
  by (simp add: releaseFileMutation_def)

text \<open>Reservations of other calls.\<close>

definition keeps_others :: "string \<Rightarrow> 'w gated \<Rightarrow> 'w gated \<Rightarrow> bool" where
  "keeps_others i s s' = (\<forall>p j. j \<noteq> i \<longrightarrow> owner s p = Some j \<longrightarrow> owner s' p = Some j)"

lemma keeps_others_refl [simp]: "keeps_others i s s"
  by (simp add: keeps_others_def)

lemma keeps_others_trans: "keeps_others i s s' \<Longrightarrow> keeps_others i s' s'' \<Longrightarrow> keeps_others i s s''"
  by (simp add: keeps_others_def)

lemma keeps_others_eq: "owner s' = owner s \<Longrightarrow> keeps_others i s s'"
  by (simp add: keeps_others_def)

lemma keeps_others_release [simp]: "keeps_others i s (release_gate i s)"
  by (simp add: keeps_others_def release_gate_def releaseFileMutation_owner)

lemma fileMutationBusy_others:
  "fileMutationBusy env i name args (snd s) = (r, g) \<Longrightarrow> keeps_others i s (fst s, g)"
  by (auto simp: fileMutationBusy_def keeps_others_def split: sum.splits option.splits if_splits)

lemma fileMutationBusy_free:
  assumes "fileMutationBusy env i name args g = (Inr False, g')" and "mutationPath env name args = Inr (Some p)" and "p \<noteq> ''''"
  shows "tg_fileMutationOwner g' p = Some i"
  using assms by (auto simp: fileMutationBusy_def split: option.splits if_splits)

lemma fileMutationBusy_frame:
  assumes "fileMutationBusy env i name args g = (r, g')"
  shows "tg_halted g' = tg_halted g" "tg_allowDestructiveOps g' = tg_allowDestructiveOps g" "tg_readFiles g' = tg_readFiles g"
    "tg_operatorMode g' = tg_operatorMode g" "tg_operatorGrant g' = tg_operatorGrant g" "tg_confirmOnce g' = tg_confirmOnce g"
    "tg_diagnosticEnabled g' = tg_diagnosticEnabled g" "tg_idempotency g' = tg_idempotency g"
  using assms by (auto simp: fileMutationBusy_def split: sum.splits option.splits if_splits)

lemma ask_extensions_others:
  "ask_extensions env call args s = (r, s') \<Longrightarrow> keeps_others (tc_id call) s s'"
  by (auto simp: ask_extensions_def keeps_others_def release_gate_def releaseFileMutation_owner
      split: option.splits prod.splits sum.splits if_splits)

lemma ask_extensions_admits:
  "ask_extensions env call args s = (Inr r, s') \<Longrightarrow> \<not> blocked_by r \<Longrightarrow> snd s' = snd s"
  by (auto simp: ask_extensions_def split: option.splits prod.splits sum.splits if_splits)

lemma capture_and_ask_others:
  assumes "capture_and_ask env call args s = (r, s')"
  shows "keeps_others (tc_id call) s s'"
proof (cases "revertedEditReason env args (snd s)")
  case (Inr v)
  show ?thesis
  proof (cases "tc_name call = ''edit'' \<and> v \<noteq> None")
    case False
    obtain c s1 where c: "captureEditCheckpoint env (tc_name call) args s = (c, s1)" by (metis surj_pair)
    then have "owner s1 = owner s" using captureEditCheckpoint_keeps same_books_def by blast
    then have "keeps_others (tc_id call) s s1" by (rule keeps_others_eq)
    then show ?thesis using assms Inr False c ask_extensions_others [of env call args s1 r s']
      by (auto simp: capture_and_ask_def split: sum.splits intro: keeps_others_trans)
  qed (use assms Inr in \<open>auto simp: capture_and_ask_def\<close>)
qed (use assms in \<open>auto simp: capture_and_ask_def\<close>)

lemma capture_and_ask_admits:
  assumes "capture_and_ask env call args s = (Inr r, s')" and "\<not> blocked_by r"
  shows "same_books s s'"
proof -
  obtain c s1 where c: "captureEditCheckpoint env (tc_name call) args s = (c, s1)" by (metis surj_pair)
  have "ask_extensions env call args s1 = (Inr r, s')"
    using assms c by (auto simp: capture_and_ask_def blocked_by_def refuse_def split: sum.splits if_splits)
  then have "snd s' = snd s1" using ask_extensions_admits assms(2) by blast
  then show ?thesis using captureEditCheckpoint_keeps [OF c] by (simp add: same_books_def)
qed

text \<open>A call the hook lets through has passed these stages.\<close>

lemma admittedE:
  assumes "beforeToolCall env call args s = (Inr r, s')" and "\<not> blocked_by r"
  obtains g v s1 i g1 g2 where
    "fileMutationBusy env (tc_id call) (tc_name call) args (snd s) = (Inr False, g)"
    "checkToolSafety env (tc_name call) args (fst s, g) = (Inr v, s1)" "sv_allowed v"
    "lookupIdempotent env (tc_name call) args (snd s1) = (i, g1)"
    "i = None \<and> g2 = g1 \<or>
       (\<exists>t e. i = Some (CachedResult t e)) \<and> tc_name call = ''edit'' \<and> g2 = forgetIdempotent env (tc_name call) args g1"
    "capture_and_ask env call args (fst s1, g2) = (Inr r, s')"
  using assms
  by (auto simp: beforeToolCall_def blocked_by_def refuse_def blockedIdempotentResult_def Let_def
      split: prod.splits sum.splits bool.splits if_splits option.splits idempotent.splits)

lemma release_trans: "keeps_others i s s1 \<Longrightarrow> keeps_others i s (release_gate i s1)"
  using keeps_others_trans keeps_others_release by blast

lemma capture_trans:
  "capture_and_ask env call args s1 = (r, s') \<Longrightarrow> keeps_others (tc_id call) s s1 \<Longrightarrow> keeps_others (tc_id call) s s'"
  using keeps_others_trans capture_and_ask_others by blast

lemma before_others:
  assumes "beforeToolCall env call args s = (r, s')"
  shows "keeps_others (tc_id call) s s'"
proof -
  obtain b g where busy: "fileMutationBusy env (tc_id call) (tc_name call) args (snd s) = (b, g)" by fastforce
  note k0 = fileMutationBusy_others [OF busy]
  obtain v s1 where v: "checkToolSafety env (tc_name call) args (fst s, g) = (v, s1)" by (metis surj_pair)
  then have k1: "keeps_others (tc_id call) s s1" using k0 checkToolSafety_keeps [OF v] by (simp add: keeps_others_def)
  obtain i g1 where i: "lookupIdempotent env (tc_name call) args (snd s1) = (i, g1)" by (metis surj_pair)
  then have k2: "keeps_others (tc_id call) s (fst s1, g1)" using k1 lookupIdempotent_keeps [OF i] by (simp add: keeps_others_def)
  then have k3: "keeps_others (tc_id call) s (fst s1, forgetIdempotent env (tc_name call) args g1)" by (simp add: keeps_others_def)
  show ?thesis
    using assms busy v i k0 k1 k2 k3
    by (auto simp: beforeToolCall_def intro: release_trans elim: capture_trans
        split: sum.splits bool.splits if_splits option.splits idempotent.splits)
qed

lemma before_reserves:
  assumes "beforeToolCall env call args s = (Inr r, s')" and "\<not> blocked_by r"
    and "mutationPath env (tc_name call) args = Inr (Some p)" and "p \<noteq> ''''"
  shows "owner s' p = Some (tc_id call)"
proof -
  obtain g v s1 i g1 g2 where st: "fileMutationBusy env (tc_id call) (tc_name call) args (snd s) = (Inr False, g)"
      "checkToolSafety env (tc_name call) args (fst s, g) = (Inr v, s1)"
      "lookupIdempotent env (tc_name call) args (snd s1) = (i, g1)"
      "g2 = g1 \<or> g2 = forgetIdempotent env (tc_name call) args g1"
      "capture_and_ask env call args (fst s1, g2) = (Inr r, s')"
    using assms(1,2) by (rule admittedE) blast
  have "tg_fileMutationOwner g p = Some (tc_id call)" using fileMutationBusy_free [OF st(1) assms(3,4)] .
  then show ?thesis
    using checkToolSafety_keeps [OF st(2)] lookupIdempotent_keeps [OF st(3)] st(4) capture_and_ask_admits [OF st(5) assms(2)]
    by (auto simp: same_books_def)
qed

lemma before_busy:
  assumes "mutationPath env (tc_name call) args = Inr (Some p)" and "p \<noteq> ''''"
    and "owner s p = Some j" and "j \<noteq> tc_id call"
  shows "beforeToolCall env call args s =
    (Inr (Some (refuse (sameFileMutationReason (tc_name call) args) (Some False) None)), s)"
  using assms by (simp add: beforeToolCall_def fileMutationBusy_def)

section \<open>Runs of the gate\<close>

text \<open>
  A run: the calls the gate has admitted and whose \<open>afterToolCall\<close> is still to come, and the
  admitted calls the loop has abandoned because the run was aborted between the hook and the tool.
\<close>

record 'w gate_run =
  gr_state :: "'w gated"
  gr_running :: "(tool_call \<times> json) list"
  gr_abandoned :: "(tool_call \<times> json) list"

datatype operator_action =
    DoHalt | DoClearHalt | DoAllowDestructive bool | DoDryRun bool | DoDiagnostic bool
  | DoMode "operator_mode option" | DoGrant string | DoConfirm string | DoEffort effort_mode

fun operate :: "operator_action \<Rightarrow> tool_gate \<Rightarrow> tool_gate" where
  "operate DoHalt g = requestHalt g"
| "operate DoClearHalt g = clearHalt g"
| "operate (DoAllowDestructive b) g = setAllowDestructiveOps b g"
| "operate (DoDryRun b) g = setDryRun b g"
| "operate (DoDiagnostic b) g = setDiagnostic b g"
| "operate (DoMode m) g = setOperatorMode m g"
| "operate (DoGrant t) g = grantTool t g"
| "operate (DoConfirm t) g = confirmTool t g"
| "operate (DoEffort m) g = setEffort m g"

definition ids_of :: "(tool_call \<times> json) list \<Rightarrow> string list" where
  "ids_of calls = map (\<lambda>c. tc_id (fst c)) calls"

text \<open>
  A new call has an id that no running or abandoned call has. Tools and everything else outside the
  gate act in \<open>worked\<close>; a prompt begins when no call is running.
\<close>

inductive gate_step :: "'w gate_env \<Rightarrow> 'w gate_run \<Rightarrow> 'w gate_run \<Rightarrow> bool" for env where
  admitted: "gate_step env r (r\<lparr>gr_state := s', gr_running := gr_running r @ [(call, args)]\<rparr>)"
  if "tc_id call \<notin> set (ids_of (gr_running r @ gr_abandoned r))"
    and "beforeToolCall env call args (gr_state r) = (Inr b, s')" and "\<not> blocked_by b"
| refused: "gate_step env r (r\<lparr>gr_state := s'\<rparr>)"
  if "tc_id call \<notin> set (ids_of (gr_running r @ gr_abandoned r))"
    and "beforeToolCall env call args (gr_state r) = (v, s')" and "\<And>b. v = Inr b \<Longrightarrow> blocked_by b"
| finished: "gate_step env r (r\<lparr>gr_state := s', gr_running := before @ later\<rparr>)"
  if "gr_running r = before @ (call, args) # later" and "afterToolCall env call args result isError (gr_state r) = (v, s')"
| abandoned: "gate_step env r (r\<lparr>gr_running := before @ later, gr_abandoned := gr_abandoned r @ [(call, args)]\<rparr>)"
  if "gr_running r = before @ (call, args) # later"
| worked: "gate_step env r (r\<lparr>gr_state := (w, snd (gr_state r))\<rparr>)"
| operated: "gate_step env r (r\<lparr>gr_state := (fst (gr_state r), operate a (snd (gr_state r)))\<rparr>)"
| prompted: "gate_step env r (r\<lparr>gr_state := (w, begin_prompt (assignPromptNumber n (snd (gr_state r))))\<rparr>)"
  if "gr_running r = []"

inductive gate_reach :: "'w gate_env \<Rightarrow> 'w gate_run \<Rightarrow> 'w gate_run \<Rightarrow> bool" for env where
  same_run: "gate_reach env r r"
| next_run: "gate_reach env r r''" if "gate_reach env r r'" and "gate_step env r' r''"

definition new_run :: "'w \<Rightarrow> edit_batch list \<Rightarrow> bool \<Rightarrow> 'w gate_run" where
  "new_run w checkpoints diagnostic = \<lparr>gr_state = (w, new_gate checkpoints diagnostic), gr_running = [], gr_abandoned = []\<rparr>"

definition holds_file :: "'w gate_env \<Rightarrow> 'w gated \<Rightarrow> tool_call \<times> json \<Rightarrow> bool" where
  "holds_file env s c =
     (\<forall>p. mutationPath env (tc_name (fst c)) (snd c) = Inr (Some p) \<and> p \<noteq> '''' \<longrightarrow> owner s p = Some (tc_id (fst c)))"

definition reserved :: "'w gate_env \<Rightarrow> 'w gate_run \<Rightarrow> bool" where
  "reserved env r =
     (distinct (ids_of (gr_running r @ gr_abandoned r)) \<and>
      (\<forall>c\<in>set (gr_running r @ gr_abandoned r). holds_file env (gr_state r) c))"

lemma holds_file_others:
  "holds_file env s c \<Longrightarrow> keeps_others i s s' \<Longrightarrow> tc_id (fst c) \<noteq> i \<Longrightarrow> holds_file env s' c"
  by (auto simp: holds_file_def keeps_others_def)

lemma holds_file_eq: "holds_file env s c \<Longrightarrow> owner s' = owner s \<Longrightarrow> holds_file env s' c"
  by (simp add: holds_file_def)

lemma recordAppliedEdit_owner:
  "recordAppliedEdit env name args g = (v, g') \<Longrightarrow> tg_fileMutationOwner g' = tg_fileMutationOwner g"
  by (auto simp: recordAppliedEdit_def split: sum.splits option.splits json.splits prod.splits if_splits)

lemma settle_books_others:
  "settle_books env call args result isError (snd s) = (v, g) \<Longrightarrow> keeps_others (tc_id call) s (w, g)"
  by (auto simp: settle_books_def Let_def keeps_others_def rememberCommandErrors_def rememberIdempotent_def
      recordFileAccessForSafety_def releaseFileMutation_owner dest!: recordAppliedEdit_owner
      split: if_splits option.splits sum.splits)

lemma noteLiveEffort_owner: "noteLiveEffort name args result isError g = (x, g') \<Longrightarrow> tg_fileMutationOwner g' = tg_fileMutationOwner g"
  by (auto simp: noteLiveEffort_def note_bash_failure_def Let_def split: option.splits if_splits)

lemma collectPostFlightNotes_owner:
  "collectPostFlightNotes env name args result isError g = (x, g') \<Longrightarrow> tg_fileMutationOwner g' = tg_fileMutationOwner g"
  by (auto simp: collectPostFlightNotes_def recordPostFlightVerdict_def Let_def split: option.splits if_splits)

lemma publish_after_gate: "publish_after env call args result isError content stop notes s = (v, s') \<Longrightarrow> snd s' = snd s"
  by (auto simp: publish_after_def Let_def split: option.splits sum.splits prod.splits)

lemma note_outcome_owner [simp]: "owner (note_outcome env name result isError s) = owner s"
  by (simp add: note_outcome_def Let_def)

lemma replan_owner [simp]: "owner (replan env name result isError s) = owner s"
  by (auto simp: replan_def Let_def split: prod.splits)

lemma after_others:
  assumes "afterToolCall env call args result isError s = (v, s')"
  shows "keeps_others (tc_id call) s s'"
proof -
  obtain b g where books: "settle_books env call args result isError (snd s) = (b, g)" by (metis surj_pair)
  then have k: "keeps_others (tc_id call) s (w, g)" for w by (rule settle_books_others)
  show ?thesis
  proof (cases b)
    case (Inl e)
    then show ?thesis using assms books k by (auto simp: afterToolCall_def)
  next
    case (Inr u)
    have same: "owner s' = tg_fileMutationOwner g"
      using assms books Inr
      by (auto simp: afterToolCall_def Let_def split: prod.splits
          dest!: publish_after_gate noteLiveEffort_owner collectPostFlightNotes_owner)
    show ?thesis using k [of "fst s"] same by (simp add: keeps_others_def)
  qed
qed

lemma operate_owner [simp]: "tg_fileMutationOwner (operate a g) = tg_fileMutationOwner g"
  by (cases a) (simp_all add: requestHalt_def clearHalt_def setAllowDestructiveOps_def setDryRun_def setDiagnostic_def
      setOperatorMode_def grantTool_def confirmTool_def setEffort_def Let_def split: option.splits)

lemma begin_prompt_owner [simp]: "tg_fileMutationOwner (begin_prompt (assignPromptNumber n g)) = tg_fileMutationOwner g"
  by (simp add: begin_prompt_def assignPromptNumber_def clearHalt_def Let_def split: option.splits)

lemma ids_of_simps [simp]:
  "ids_of [] = []" "ids_of (c # cs) = tc_id (fst c) # ids_of cs" "ids_of (cs @ ds) = ids_of cs @ ids_of ds"
  by (simp_all add: ids_of_def)

lemma in_ids_of: "c \<in> set cs \<Longrightarrow> tc_id (fst c) \<in> set (ids_of cs)"
  by (auto simp: ids_of_def)

lemma step_reserved:
  assumes "reserved env r" and "gate_step env r r'"
  shows "reserved env r'"
  using assms(2)
proof cases
  case (admitted call args b s')
  have "holds_file env s' c" if c: "c \<in> set (gr_running r @ gr_abandoned r)" for c
  proof (rule holds_file_others)
    show "holds_file env (gr_state r) c" using assms(1) c by (simp add: reserved_def)
    show "keeps_others (tc_id call) (gr_state r) s'" using before_others [OF admitted(3)] .
    show "tc_id (fst c) \<noteq> tc_id call" using in_ids_of [OF c] admitted(2) by metis
  qed
  moreover have "holds_file env s' (call, args)"
    using before_reserves [OF admitted(3,4)] by (simp add: holds_file_def)
  ultimately show ?thesis using assms(1) admitted(1,2) by (auto simp: reserved_def)
next
  case (refused call args v s')
  have "holds_file env s' c" if c: "c \<in> set (gr_running r @ gr_abandoned r)" for c
  proof (rule holds_file_others)
    show "holds_file env (gr_state r) c" using assms(1) c by (simp add: reserved_def)
    show "keeps_others (tc_id call) (gr_state r) s'" using before_others [OF refused(3)] .
    show "tc_id (fst c) \<noteq> tc_id call" using in_ids_of [OF c] refused(2) by metis
  qed
  then show ?thesis using assms(1) refused(1) by (auto simp: reserved_def)
next
  case (finished before call args later result isError v s')
  have "holds_file env s' c" if c: "c \<in> set (before @ later @ gr_abandoned r)" for c
  proof (rule holds_file_others)
    show "holds_file env (gr_state r) c" using assms(1) c finished(2) by (auto simp: reserved_def)
    show "keeps_others (tc_id call) (gr_state r) s'" using after_others [OF finished(3)] .
    show "tc_id (fst c) \<noteq> tc_id call" using in_ids_of [OF c] assms(1) finished(2) by (auto simp: reserved_def)
  qed
  then show ?thesis using assms(1) finished(1,2) by (auto simp: reserved_def)
next
  case (abandoned before call args later)
  then show ?thesis using assms(1) by (auto simp: reserved_def)
qed (use assms(1) in \<open>auto simp: reserved_def intro: holds_file_eq\<close>)

lemma reach_reserved: "gate_reach env r r' \<Longrightarrow> reserved env r \<Longrightarrow> reserved env r'"
  by (induction rule: gate_reach.induct) (auto intro: step_reserved)

lemma new_run_reserved [simp]: "reserved env (new_run w cs d)"
  by (simp add: reserved_def new_run_def)

text \<open>
  C13: In every interleaving of admitted, refused, failing, finishing and abandoned calls, of work
  outside and of operator actions, two running calls never mutate the same resolved path, and the path
  of a running call is reserved for it, so any other edit or write of it is refused.
\<close>

theorem one_mutation_per_file:
  assumes "gate_reach env (new_run w cs d) r"
    and "(call, args) \<in> set (gr_running r)" and "(call', args') \<in> set (gr_running r)"
    and "mutationPath env (tc_name call) args = Inr (Some p)" and "mutationPath env (tc_name call') args' = Inr (Some p)"
    and "p \<noteq> ''''"
  shows "(call, args) = (call', args') \<and> tg_fileMutationOwner (snd (gr_state r)) p = Some (tc_id call)"
proof -
  have inv: "reserved env r" using reach_reserved [OF assms(1)] by simp
  then have "holds_file env (gr_state r) (call, args)" "holds_file env (gr_state r) (call', args')"
    using assms(2,3) by (simp_all add: reserved_def)
  then have own: "owner (gr_state r) p = Some (tc_id call)" "owner (gr_state r) p = Some (tc_id call')"
    using assms(4-6) by (simp_all add: holds_file_def)
  have "distinct (map (\<lambda>c. tc_id (fst c)) (gr_running r))" using inv by (simp add: reserved_def ids_of_def)
  then have "(call, args) = (call', args')"
    using assms(2,3) own by (auto simp: distinct_map dest!: inj_onD [where x = "(call, args)" and y = "(call', args')"])
  then show ?thesis using own by simp
qed

text \<open>An abandoned call stays abandoned.\<close>

lemma step_abandoned: "gate_step env r r' \<Longrightarrow> c \<in> set (gr_abandoned r) \<Longrightarrow> c \<in> set (gr_abandoned r')"
  by (induction rule: gate_step.induct) auto

lemma reach_abandoned: "gate_reach env r r' \<Longrightarrow> c \<in> set (gr_abandoned r) \<Longrightarrow> c \<in> set (gr_abandoned r')"
  by (induction rule: gate_reach.induct) (auto intro: step_abandoned)

lemma reach_trans: "gate_reach env r' r'' \<Longrightarrow> gate_reach env r r' \<Longrightarrow> gate_reach env r r''"
  by (induction rule: gate_reach.induct) (auto intro: gate_reach.intros)

text \<open>
  C37: Once an admitted edit or write has been abandoned, because the run was aborted before its tool
  ran, its file is closed: in every later state, also after any number of new prompts, every other
  edit or write of the same path is refused as if the abandoned call were still running.
\<close>

theorem abandoned_call_locks_file:
  assumes "gate_reach env (new_run w cs d) r" and "(call, args) \<in> set (gr_abandoned r)" and "gate_reach env r r'"
    and "mutationPath env (tc_name call) args = Inr (Some p)" and "p \<noteq> ''''"
    and "mutationPath env (tc_name call') args' = Inr (Some p)" and "tc_id call' \<noteq> tc_id call"
  shows "beforeToolCall env call' args' (gr_state r') =
    (Inr (Some (refuse (sameFileMutationReason (tc_name call') args') (Some False) None)), gr_state r')"
proof (rule before_busy [OF assms(6,5)])
  have "reserved env r'" using reach_reserved [OF reach_trans [OF assms(3,1)]] by simp
  then have "holds_file env (gr_state r') (call, args)"
    using reach_abandoned [OF assms(3,2)] by (auto simp: reserved_def)
  then show "owner (gr_state r') p = Some (tc_id call)" using assms(4,5) by (auto simp: holds_file_def)
  show "tc_id call \<noteq> tc_id call'" using assms(7) by simp
qed

section \<open>What an admitted call has passed\<close>

definition operator_says_yes :: "'w gate_env \<Rightarrow> string \<Rightarrow> json \<Rightarrow> 'w gated \<Rightarrow> bool" where
  "operator_says_yes env name args s =
     (case ge_confirm env of None \<Rightarrow> False | Some confirm \<Rightarrow> fst (confirm name (confirm_detail args) (fst s)) = Inr True)"

text \<open>The rule of the modes, by tier: who may let a call of this tool go on.\<close>

definition mode_permits :: "'w gate_env \<Rightarrow> string \<Rightarrow> json \<Rightarrow> 'w gated \<Rightarrow> operator_mode \<Rightarrow> bool" where
  "mode_permits env name args s mode =
     (case resolveReversibilityTier (ge_tierOf env name) of
        Free \<Rightarrow> True
      | Forbidden \<Rightarrow> False
      | Cheap \<Rightarrow> mode \<in> {Supervised, Delegated, Checkpoint} \<or> mode = Ask \<and> name \<in> set ASK_READ_TOOLS
      | Gated \<Rightarrow>
          (case mode of
             Diagnostic \<Rightarrow> False
           | Ask \<Rightarrow> name \<in> set ASK_READ_TOOLS
           | Delegated \<Rightarrow> name \<in> tg_operatorGrant (snd s) \<or> name \<in> tg_confirmOnce (snd s)
           | _ \<Rightarrow> name \<in> tg_confirmOnce (snd s) \<or> operator_says_yes env name args s))"

definition operator_agrees :: "'w gate_env \<Rightarrow> string \<Rightarrow> json \<Rightarrow> 'w gated \<Rightarrow> bool" where
  "operator_agrees env name args s =
     (case tg_operatorMode (snd s) of
        Some mode \<Rightarrow>
          if name = CRYSTALLIZE_TOOL_NAME
          then tg_diagnosticEnabled (snd s) \<longrightarrow> resolveReversibilityTier (ge_tierOf env name) = Free
          else mode_permits env name args s mode
      | None \<Rightarrow> tg_diagnosticEnabled (snd s) \<longrightarrow> resolveReversibilityTier (ge_tierOf env name) = Free)"

lemma askToolConfirm_True: "askToolConfirm env name args s = (True, s') \<Longrightarrow> operator_says_yes env name args s"
  by (auto simp: askToolConfirm_def operator_says_yes_def split: option.splits if_splits prod.splits)


lemma operator_gate_agrees:
  assumes "operator_gate env name args s = (None, s')"
  shows "operator_agrees env name args s"
proof (cases "tg_operatorMode (snd s)")
  case None
  then show ?thesis using assms by (auto simp: operator_gate_def operator_agrees_def split: if_splits)
next
  case (Some mode)
  show ?thesis
  proof (cases "name = CRYSTALLIZE_TOOL_NAME")
    case True
    then show ?thesis using assms Some by (auto simp: operator_gate_def operator_agrees_def split: if_splits)
  next
    case False
    let ?d = "decideTool mode (resolveReversibilityTier (ge_tierOf env name)) name (tg_operatorGrant (snd s))"
    have "?d = Run \<or> ?d = Confirm \<and> (name \<in> tg_confirmOnce (snd s) \<or>
        (mode = Supervised \<or> mode = Checkpoint) \<and> operator_says_yes env name args s)"
      using assms Some False
      by (auto simp: operator_gate_def Let_def operator_says_yes_def split: if_splits prod.splits dest!: askToolConfirm_True)
    then show ?thesis using Some False
      by (cases "resolveReversibilityTier (ge_tierOf env name)"; cases mode)
        (auto simp: operator_agrees_def mode_permits_def decideTool_def split: if_splits)
  qed
qed

lemma operator_agrees_frame:
  assumes "fileMutationBusy env i name' args' (snd s) = (b, g)"
  shows "operator_agrees env name args (fst s, g) = operator_agrees env name args s"
  using fileMutationBusy_frame [OF assms]
  by (simp add: operator_agrees_def mode_permits_def operator_says_yes_def split: option.split reversibility_tier.split operator_mode.split)

lemma law0_none:
  "checkLaw0 d = None \<longleftrightarrow>
   (\<forall>t. getCommand d = Some t \<or> getString (td_args d) ''content'' = Some t \<longrightarrow> \<not> test_lower HARMFUL_PATTERN t)"
  by (auto simp: checkLaw0_def map_filter_def Let_def split: option.splits)

lemma laws_allow:
  assumes "checkToolCall d env = Inr v" and "sv_allowed v"
  shows "\<not> se_halted env" "checkLaw0 d = None" "checkLaw1 d env = Inr None"
  using assms
  by (auto simp: checkToolCall_def evaluateLaws_def block_call_def allow_call_def split: if_splits option.splits sum.splits)

lemma law1_none:
  assumes "checkLaw1 d env = Inr None"
  shows "td_tier d \<noteq> Forbidden"
    and "getCommand d = Some c \<Longrightarrow> test_lower DESTRUCTIVE_BASH c \<Longrightarrow> c \<noteq> '''' \<Longrightarrow> se_requireDestructiveConfirm env"
    and "getFilePath d = Some p \<Longrightarrow> p \<noteq> '''' \<Longrightarrow> se_enforceReadBeforeWrite env \<noteq> Some False \<Longrightarrow>
      \<exists>a. se_resolvePath env p = Inr a \<and> (se_fileExists env a \<longrightarrow> se_hasReadFile env a)"
  using assms by (auto simp: checkLaw1_def split: if_splits option.splits sum.splits)

text \<open>The world when the operator has answered.\<close>

definition answered_world :: "'w gate_env \<Rightarrow> string \<Rightarrow> json \<Rightarrow> 'w gated \<Rightarrow> 'w" where
  "answered_world env name args s = fst (snd (operator_gate env name args s))"

lemma operator_gate_world:
  assumes "fileMutationBusy env i name' args' (snd s) = (b, g)"
  shows "fst (snd (operator_gate env name args (fst s, g))) = answered_world env name args s"
  using fileMutationBusy_frame [OF assms]
  by (auto simp: answered_world_def operator_gate_def askToolConfirm_def Let_def split: option.splits prod.splits)

text \<open>What the rules of \<open>core/safety\<close> and the operator promise of a call that runs.\<close>

definition safe_call :: "'w gate_env \<Rightarrow> tool_call \<Rightarrow> json \<Rightarrow> 'w gated \<Rightarrow> bool" where
  "safe_call env call args s =
     (let d = call_descriptor env (tc_name call) args; w = answered_world env (tc_name call) args s in
      \<not> tg_halted (snd s) \<and> td_tier d \<noteq> Forbidden \<and> operator_agrees env (tc_name call) args s \<and>
      (\<forall>t. getCommand d = Some t \<or> getString (td_args d) ''content'' = Some t \<longrightarrow> \<not> test_lower HARMFUL_PATTERN t) \<and>
      (\<forall>c. getCommand d = Some c \<and> c \<noteq> '''' \<and> test_lower DESTRUCTIVE_BASH c \<longrightarrow> tg_allowDestructiveOps (snd s)) \<and>
      (ge_role env w \<noteq> Some ''decision'' \<and> ge_role env w \<noteq> Some ''tooling'' \<longrightarrow>
       (\<forall>p. getFilePath d = Some p \<and> p \<noteq> '''' \<longrightarrow>
          (\<exists>a. ge_resolveToCwd env p = Inr a \<and> (ge_exists env a w \<longrightarrow> a \<in> tg_readFiles (snd s))))))"

lemma admitted_call_is_safe:
  assumes "beforeToolCall env call args s = (Inr r, s')" and "\<not> blocked_by r"
  shows "safe_call env call args s"
proof -
  obtain g v s1 where st: "fileMutationBusy env (tc_id call) (tc_name call) args (snd s) = (Inr False, g)"
      "checkToolSafety env (tc_name call) args (fst s, g) = (Inr v, s1)" "sv_allowed v"
    using assms(1,2) by (rule admittedE)
  obtain o1 s2 where o1: "operator_gate env (tc_name call) args (fst s, g) = (o1, s2)" by (metis surj_pair)
  have "o1 = None"
  proof (rule ccontr)
    assume "o1 \<noteq> None"
    then have "o1 = Some v" using st(2) o1 by (auto simp: checkToolSafety_def)
    then have "\<not> sv_allowed v" using o1 by (auto simp: operator_gate_def refuse_verdict_def Let_def split: if_splits prod.splits)
    then show False using st(3) by simp
  qed
  then have law: "checkToolCall (call_descriptor env (tc_name call) args) (gate_safety_env env s1) = Inr v" and o2: "operator_gate env (tc_name call) args (fst s, g) = (None, s1)"
    using st(2) o1 by (auto simp: checkToolSafety_def)
  note frame = operator_gate_keeps [OF o2] fileMutationBusy_frame [OF st(1)]
  note passed = laws_allow [OF law st(3)]
  have "operator_agrees env (tc_name call) args s"
    using operator_gate_agrees [OF o2] operator_agrees_frame [OF st(1)] by simp
  moreover have "fst s1 = answered_world env (tc_name call) args s" using operator_gate_world [OF st(1), of "tc_name call" args] o2 by simp
  moreover have "\<not> tg_halted (snd s)" using passed(1) frame by (simp add: gate_safety_env_def)
  ultimately show ?thesis
    using passed(2) law1_none [OF passed(3)] frame by (auto simp: safe_call_def law0_none gate_safety_env_def Let_def)
qed

section \<open>The gate in the agent loop\<close>

text \<open>The loop runs a tool only for a call it has prepared, and prepares only what the gate admits.\<close>

lemma prepared_was_admitted:
  assumes "prepareToolCall env ctx am call (installAgentToolHooks ge cfg) (s, t) = Some (Inr (Prepared p), (s', t'))"
  shows "\<exists>r. beforeToolCall ge call (pr_args p) s = (Inr r, s') \<and> \<not> blocked_by r"
  using assms
  by (auto simp: prepareToolCall_def installAgentToolHooks_def catchE_def bindE_def liftE_def callE_def check_abort_def
      askE_def returnE_def operation_aborted_def blocked_outcome_def before_hook_def blocked_by_def Let_def
      split: option.splits sum.splits prod.splits if_splits)


text \<open>A run aborted while the hook was busy ends the call without its \<open>afterToolCall\<close>: it is abandoned.\<close>

lemma aborted_call_is_abandoned:
  assumes "find_tool ctx (tc_name call) = Some tool" and "prepareToolCallArguments tool call = Inr prepared"
    and "env_validate env tool prepared = Inr args" and "beforeToolCall ge call args s = (Inr r, s')" and "\<not> blocked_by r"
    and "env_aborted env s'"
  shows "prepareToolCall env ctx am call (installAgentToolHooks ge cfg) (s, t) = Some (Inr operation_aborted, (s', t))"
  using assms
  by (auto simp: prepareToolCall_def installAgentToolHooks_def catchE_def bindE_def liftE_def callE_def check_abort_def
      askE_def returnE_def before_hook_def blocked_by_def Let_def split: option.splits)

text \<open>Without a handler to ask, a gated call that needs the operator spends the confirmation given for its tool.\<close>

lemma gated_call_spends_confirmation:
  assumes "beforeToolCall env call args s = (Inr r, s')" and "\<not> blocked_by r" and "ge_confirm env = None"
    and "tg_operatorMode (snd s) = Some mode" and "tc_name call \<noteq> CRYSTALLIZE_TOOL_NAME"
    and "decideTool mode (resolveReversibilityTier (ge_tierOf env (tc_name call))) (tc_name call) (tg_operatorGrant (snd s)) = Confirm"
  shows "tc_name call \<in> tg_confirmOnce (snd s)" and "tc_name call \<notin> tg_confirmOnce (snd s')"
proof -
  obtain g v s1 i g1 g2 where st: "fileMutationBusy env (tc_id call) (tc_name call) args (snd s) = (Inr False, g)"
      "checkToolSafety env (tc_name call) args (fst s, g) = (Inr v, s1)" "sv_allowed v"
      "lookupIdempotent env (tc_name call) args (snd s1) = (i, g1)"
      "g2 = g1 \<or> g2 = forgetIdempotent env (tc_name call) args g1"
      "capture_and_ask env call args (fst s1, g2) = (Inr r, s')"
    using assms(1,2) by (rule admittedE) blast
  note frame = fileMutationBusy_frame [OF st(1)]
  have ask: "askToolConfirm env name x y = (False, y)" for name x y using assms(3) by (simp add: askToolConfirm_def)
  have mode: "tg_operatorMode g = Some mode" "tg_operatorGrant g = tg_operatorGrant (snd s)" "tg_confirmOnce g = tg_confirmOnce (snd s)"
    using assms(4) frame by simp_all
  have gate: "operator_gate env (tc_name call) args (fst s, g) =
      (if tc_name call \<in> tg_confirmOnce (snd s) then None
       else Some (refuse_verdict (case operatorBlockReason mode (tc_name call)
          (resolveReversibilityTier (ge_tierOf env (tc_name call))) Confirm of Some r \<Rightarrow> r | None \<Rightarrow> ''blocked'')),
       (fst s, g\<lparr>tg_confirmOnce := tg_confirmOnce (snd s) - {tc_name call}\<rparr>))"
    unfolding operator_gate_def using assms(5,6) mode by (simp add: ask Let_def)
  have once: "tc_name call \<in> tg_confirmOnce (snd s) \<and> tg_confirmOnce (snd s1) = tg_confirmOnce g - {tc_name call}"
  proof (cases "tc_name call \<in> tg_confirmOnce (snd s)")
    case True
    then have "s1 = (fst s, g\<lparr>tg_confirmOnce := tg_confirmOnce (snd s) - {tc_name call}\<rparr>)"
      using st(2) unfolding checkToolSafety_def gate by simp
    then show ?thesis using True mode(3) by simp
  next
    case False
    then have "v = refuse_verdict (case operatorBlockReason mode (tc_name call)
          (resolveReversibilityTier (ge_tierOf env (tc_name call))) Confirm of Some r \<Rightarrow> r | None \<Rightarrow> ''blocked'')"
      using st(2) unfolding checkToolSafety_def gate by simp
    then show ?thesis using st(3) by (simp add: refuse_verdict_def)
  qed
  have g1: "tg_confirmOnce g1 = tg_confirmOnce (snd s1)" using lookupIdempotent_confirm [OF st(4)] .
  have g2: "tg_confirmOnce g2 = tg_confirmOnce g1" using st(5) forgetIdempotent_keeps(2) by blast
  have "tg_confirmOnce (snd s') = tg_confirmOnce g2" using capture_and_ask_admits [OF st(6) assms(2)] by (simp add: same_books_def)
  then have "tg_confirmOnce (snd s') = tg_confirmOnce g - {tc_name call}" using once g1 g2 by (simp only:)
  then show "tc_name call \<notin> tg_confirmOnce (snd s')" by simp
  show "tc_name call \<in> tg_confirmOnce (snd s)" using once by (rule conjunct1)
qed

section \<open>Witnesses\<close>

definition demo_gate_env :: "disk gate_env" where
  "demo_gate_env =
     \<lparr>ge_sessionId = ''s'', ge_cpaSeed = 0, ge_sha256 = id, ge_resolveToCwd = (\<lambda>p. Inr (''/w/'' @ p)), ge_toRelPath = Some,
      ge_exists = (\<lambda>p d. dk_files d (ucs p) \<noteq> None),
      ge_readText = (\<lambda>p d. case dk_files d (ucs p) of None \<Rightarrow> Inl ''ENOENT'' | Some t \<Rightarrow> Inr t),
      ge_readBytes = (\<lambda>p d. case dk_files d (ucs p) of None \<Rightarrow> Inl ''ENOENT'' | Some t \<Rightarrow> Inr t),
      ge_nfkc = id, ge_tierOf = (\<lambda>n. if n = ''read'' then Some Free else None), ge_role = (\<lambda>w. None), ge_confirm = None,
      ge_onToolCall = None, ge_onToolResult = None, ge_checkpointOps = nodeCheckpointFsOps, ge_persist = (\<lambda>_ w. (Inr (), w)),
      ge_recordTrekVersion = (\<lambda>_ _ _ _ _ w. w), ge_pendingElevate = (\<lambda>w. False), ge_climbLadder = (\<lambda>_ w. w),
      ge_replanAfterTool = (\<lambda>_ _ _ _ w. (False, w))\<rparr>"

definition demo_write :: "string \<Rightarrow> string \<Rightarrow> tool_call \<times> json" where
  "demo_write i p =
     (\<lparr>tc_id = i, tc_name = ''write'', tc_arguments = [], tc_thoughtSignature = None\<rparr>,
      JObj [(''path'', JStr p), (''content'', JStr ''text'')])"

definition demo_gate :: "disk gated" where
  "demo_gate = (\<lparr>dk_files = Map.empty, dk_readonly = [], dk_time = 0\<rparr>, new_gate [] False)"


definition admit :: "tool_call \<times> json \<Rightarrow> disk gated \<Rightarrow> disk gated" where
  "admit c s = snd (beforeToolCall demo_gate_env (fst c) (snd c) s)"

lemma demo_admits:
  "fst (beforeToolCall demo_gate_env (fst (demo_write ''1'' ''a'')) (snd (demo_write ''1'' ''a'')) demo_gate) = Inr None"
  "fst (beforeToolCall demo_gate_env (fst (demo_write ''2'' ''b'')) (snd (demo_write ''2'' ''b''))
     (admit (demo_write ''1'' ''a'') demo_gate)) = Inr None"
  by code_simp+

definition one_write :: "disk gate_run" where
  "one_write = \<lparr>gr_state = admit (demo_write ''1'' ''a'') demo_gate, gr_running = [demo_write ''1'' ''a''], gr_abandoned = []\<rparr>"

definition two_writes :: "disk gate_run" where
  "two_writes =
     \<lparr>gr_state = admit (demo_write ''2'' ''b'') (admit (demo_write ''1'' ''a'') demo_gate),
      gr_running = [demo_write ''1'' ''a'', demo_write ''2'' ''b''], gr_abandoned = []\<rparr>"

abbreviation fresh_run :: "disk gate_run" where
  "fresh_run \<equiv> new_run (fst demo_gate) [] False"

lemma admit_step:
  assumes "fst (beforeToolCall demo_gate_env (fst c) (snd c) (gr_state r)) = Inr None"
    and "tc_id (fst c) \<notin> set (ids_of (gr_running r @ gr_abandoned r))"
  shows "gate_step demo_gate_env r (r\<lparr>gr_state := admit c (gr_state r), gr_running := gr_running r @ [c]\<rparr>)"
proof -
  have "beforeToolCall demo_gate_env (fst c) (snd c) (gr_state r) = (Inr None, admit c (gr_state r))"
    using assms(1) by (simp add: admit_def prod_eq_iff)
  from gate_step.admitted [OF assms(2) this] show ?thesis by (simp add: blocked_by_def)
qed

lemma one_write_reached: "gate_reach demo_gate_env fresh_run one_write"
proof -
  have "gate_step demo_gate_env fresh_run one_write"
    using admit_step [of "demo_write ''1'' ''a''" fresh_run] demo_admits(1)
    by (simp add: new_run_def demo_gate_def one_write_def)
  then show ?thesis by (rule gate_reach.next_run [OF gate_reach.same_run])
qed

lemma two_writes_reached: "gate_reach demo_gate_env fresh_run two_writes"
proof (rule gate_reach.next_run [OF one_write_reached])
  show "gate_step demo_gate_env one_write two_writes"
    using admit_step [of "demo_write ''2'' ''b''" one_write] demo_admits(2)
    by (simp add: one_write_def two_writes_def demo_write_def)
qed

lemma demo_write_path: "mutationPath demo_gate_env (tc_name (fst (demo_write i p))) (snd (demo_write i p)) =
    (if p = '''' then Inr None else Inr (Some (''/w/'' @ p)))"
  by (simp add: mutationPath_def demo_write_def object_fields_def js_prop_def is_string_def demo_gate_env_def)

theorem one_mutation_per_file_witness:
  "gate_reach demo_gate_env fresh_run two_writes \<and> length (gr_running two_writes) = 2 \<and>
   tg_fileMutationOwner (snd (gr_state two_writes)) ''/w/b'' = Some ''2''"
proof -
  let ?c = "fst (demo_write ''2'' ''b'')" and ?a = "snd (demo_write ''2'' ''b'')"
  have "(?c, ?a) \<in> set (gr_running two_writes)" by (simp add: two_writes_def)
  from one_mutation_per_file [OF two_writes_reached this this, of "''/w/b''"] demo_write_path [of "''2''" "''b''"]
  have "tg_fileMutationOwner (snd (gr_state two_writes)) ''/w/b'' = Some (tc_id ?c)" by simp
  then show ?thesis using two_writes_reached by (simp add: two_writes_def demo_write_def)
qed

text \<open>After an abort and a new prompt, a write of the same file is refused.\<close>

definition stuck_run :: "disk gate_run" where
  "stuck_run =
     \<lparr>gr_state = (fst (admit (demo_write ''1'' ''a'') demo_gate),
        begin_prompt (assignPromptNumber 2 (snd (admit (demo_write ''1'' ''a'') demo_gate)))),
      gr_running = [], gr_abandoned = [demo_write ''1'' ''a'']\<rparr>"

theorem abandoned_call_locks_file_witness:
  "beforeToolCall demo_gate_env (fst (demo_write ''2'' ''a'')) (snd (demo_write ''2'' ''a'')) (gr_state stuck_run) =
     (Inr (Some (refuse (sameFileMutationReason ''write'' (snd (demo_write ''2'' ''a''))) (Some False) None)), gr_state stuck_run)"
proof -
  let ?r2 = "one_write\<lparr>gr_running := [] @ [], gr_abandoned := gr_abandoned one_write @ [demo_write ''1'' ''a'']\<rparr>"
  have "gr_running one_write = [] @ (fst (demo_write ''1'' ''a''), snd (demo_write ''1'' ''a'')) # []" by (simp add: one_write_def)
  from gate_step.abandoned [OF this, of demo_gate_env] have "gate_step demo_gate_env one_write ?r2" by (simp only: prod.collapse)
  then have reach: "gate_reach demo_gate_env fresh_run ?r2" by (rule gate_reach.next_run [OF one_write_reached])
  have "gr_running ?r2 = []" by simp
  from gate_step.prompted [OF this, of demo_gate_env "fst (gr_state ?r2)" 2]
  have "gate_step demo_gate_env ?r2 stuck_run" by (simp add: stuck_run_def one_write_def)
  then have later: "gate_reach demo_gate_env ?r2 stuck_run" by (rule gate_reach.next_run [OF gate_reach.same_run])
  have "(fst (demo_write ''1'' ''a''), snd (demo_write ''1'' ''a'')) \<in> set (gr_abandoned ?r2)" by simp
  from abandoned_call_locks_file [OF reach this later, of "''/w/a''" "fst (demo_write ''2'' ''a'')" "snd (demo_write ''2'' ''a'')"]
  have "mutationPath demo_gate_env (tc_name (fst (demo_write ''1'' ''a''))) (snd (demo_write ''1'' ''a'')) = Inr (Some ''/w/a'') \<Longrightarrow>
      mutationPath demo_gate_env (tc_name (fst (demo_write ''2'' ''a''))) (snd (demo_write ''2'' ''a'')) = Inr (Some ''/w/a'') \<Longrightarrow>
      tc_id (fst (demo_write ''2'' ''a'')) \<noteq> tc_id (fst (demo_write ''1'' ''a'')) \<Longrightarrow> tc_name (fst (demo_write ''2'' ''a'')) = ''write'' \<Longrightarrow>
      ?thesis" by (metis list.distinct(1))
  then show ?thesis unfolding demo_write_path by (simp add: demo_write_def)
qed

definition gated_tool :: "disk gated agent_tool" where
  "gated_tool = \<lparr>tool_name = ''write'', tool_label = ''write'', tool_description = '''', tool_parameters = JObj [],
     tool_executionMode = None, tool_prepareArguments = None,
     tool_execute = (\<lambda>i args. TDone (Inr \<lparr>atr_content = [], atr_details = JNull, atr_terminate = None\<rparr>))\<rparr>"

definition gated_loop_env :: "disk gated loop_env" where
  "gated_loop_env = \<lparr>env_emit = (\<lambda>ev w. (Inr (), w)), env_aborted = (\<lambda>w. False), env_now = (\<lambda>w. 0),
     env_streamFn = (\<lambda>m c cfg w. (Inl ''offline'', w)),
     env_validate = (\<lambda>tool tc. Inr (JObj (tc_arguments tc))), env_pick = (\<lambda>n w. 0)\<rparr>"

definition gated_config :: "disk gated agent_loop_config" where
  "gated_config = \<lparr>cfg_model = demo_model, cfg_reasoning = None, cfg_apiKey = None, cfg_options = JNull,
     cfg_convertToLlm = (\<lambda>ms w. (Inr (convertToLlm ms), w)), cfg_transformContext = None, cfg_getApiKey = None,
     cfg_shouldStopAfterTurn = None, cfg_prepareNextTurn = None, cfg_getSteeringMessages = None,
     cfg_getFollowUpMessages = None, cfg_toolExecution = None, cfg_partitionToolCalls = None,
     cfg_recordToolCalls = None, cfg_beforeToolCall = None, cfg_afterToolCall = None\<rparr>"

definition gated_call :: tool_call where
  "gated_call = \<lparr>tc_id = ''1'', tc_name = ''write'',
     tc_arguments = [(''path'', JStr ''a''), (''content'', JStr ''text'')], tc_thoughtSignature = None\<rparr>"

definition gated_preparation :: "((string + disk gated preparation) \<times> disk gated st) option" where
  "gated_preparation =
     prepareToolCall gated_loop_env \<lparr>ac_systemPrompt = '''', ac_messages = [], ac_tools = Some [gated_tool]\<rparr>
       (demo_assistant [] StopToolUse) gated_call (installAgentToolHooks demo_gate_env gated_config) (demo_gate, [])"

lemma gated_preparation_ok:
  "case gated_preparation of Some (Inr (Prepared p), _) \<Rightarrow> pr_args p = JObj (tc_arguments gated_call) | _ \<Rightarrow> False"
  by code_simp


text \<open>A write of an existing file that was not read is refused, and so is everything while the session is halted.\<close>

lemma demo_refuses:
  "fst (beforeToolCall demo_gate_env (fst (demo_write ''1'' ''a'')) (snd (demo_write ''1'' ''a''))
     ((fst demo_gate)\<lparr>dk_files := [ucs ''/w/a'' \<mapsto> []]\<rparr>, snd demo_gate)) =
   Inr (Some \<lparr>bt_block = True, bt_reason = Some (unread_reason ''a''), bt_isError = None, bt_terminate = None\<rparr>)"
  "fst (beforeToolCall demo_gate_env (fst (demo_write ''1'' ''a'')) (snd (demo_write ''1'' ''a''))
     (fst demo_gate, requestHalt (snd demo_gate))) =
   Inr (Some \<lparr>bt_block = True, bt_reason = Some halted_reason, bt_isError = None, bt_terminate = None\<rparr>)"
  by code_simp+

text \<open>
  An edit refused because it takes back an earlier one is never taken off the running mutations: made
  again, it is refused as already running, although nothing runs.
\<close>

definition demo_back :: "string \<Rightarrow> tool_call \<times> json" where
  "demo_back i =
     (\<lparr>tc_id = i, tc_name = ''edit'', tc_arguments = [], tc_thoughtSignature = None\<rparr>,
      JObj [(''path'', JStr ''a''), (''edits'', JArr [JObj [(''oldText'', JStr ''new''), (''newText'', JStr ''old'')]])])"

definition demo_applied :: "disk gated" where
  "demo_applied = (fst demo_gate, (snd demo_gate)\<lparr>tg_appliedEdits := [\<lparr>ae_path = ''/w/a'', ae_oldText = ''old'', ae_newText = ''new''\<rparr>]\<rparr>)"

lemma refused_edit_said_to_run:
  "fst (beforeToolCall demo_gate_env (fst (demo_back ''1'')) (snd (demo_back ''1'')) demo_applied) =
     Inr (Some (refuse reverted_text (Some False) None))"
  "fst (beforeToolCall demo_gate_env (fst (demo_back ''2'')) (snd (demo_back ''2'')) (admit (demo_back ''1'') demo_applied)) =
     Inr (Some (refuse (inFlightIdempotentReason ''edit'') (Some False) None))"
  by code_simp+

end
