(* ===== verification/Spec2Isabelle.thy ===== *)
theory Spec2Isabelle
  imports SessionMigration BranchSummary AgentProps EditTool FileQueue Checkpoints StdinBuffer EventStream ToolGateProps
begin

text \<open>
  Trek is a coding agent: a loop asks a language model for a reply, runs the tools the reply calls and
  goes on; a session store keeps the conversation as a tree of entries in a file; compaction replaces
  old parts of the conversation by summaries; file tools read, edit and shorten text. This
  development models that core and proves what makes it correct. Paths are relative to \<open>src/\<close>;
  \<open>core/\<close> is \<open>packages/coding-agent/src/core/\<close>.

  \<^bold>\<open>Parts, sources and theories.\<close>

  \<^item> Messages (\<open>packages/ai/src/types.ts\<close>, \<open>core/messages.ts\<close>, \<open>packages/agent/src/types.ts\<close>):
    \<open>Messages\<close>, over the JSON values, arrays and strings of \<open>Prelude\<close>.
  \<^item> The session store (\<open>core/session-manager.ts\<close>): \<open>Session\<close> has the entries, the
    migrations, parsing and the context of a leaf; \<open>SessionManager\<close> the class with its index,
    labels, leaf and file, one definition per method that changes state; \<open>SessionSteps\<close> its step
    relation; \<open>SessionProps\<close> and \<open>SessionMigration\<close> the properties. The record \<open>sm_state\<close>
    has the fields of the class, and the disk as a map from paths to lines.
  \<^item> Compaction (\<open>core/compaction/\<close>): \<open>Prompts\<close>, \<open>Compaction\<close>, \<open>CompactionProps\<close> and
    \<open>BranchSummary\<close>. It reads the entries of a branch and appends an entry to the store.
  \<^item> The tool schedule (\<open>core/algebra/process-schedule.ts\<close>, \<open>core/trek-store/path-ops.ts\<close>):
    \<open>Regex\<close> (the patterns of shell commands) and \<open>ProcessSchedule\<close>. The loop calls it through
    its hook \<open>partitionToolCalls\<close>.
  \<^item> The agent loop (\<open>packages/agent/src/agent-loop.ts\<close>): \<open>Effects\<close> (the effect monad with
    weakest preconditions), \<open>AgentLoop\<close> (the definitions), \<open>AgentEvents\<close> (the protocol of the
    events), \<open>AgentLoopProps\<close>, and \<open>LoopInvariant\<close> for the clients of the loop.
  \<^item> The class \<open>Agent\<close> (\<open>packages/agent/src/agent.ts\<close>): \<open>Agent\<close> and \<open>AgentProps\<close>.
    Its queues feed the loop, and the events of the loop update its state.
  \<^item> The file tools (\<open>core/tools/\<close>): \<open>UStrings\<close>, \<open>EditMatch\<close>, \<open>EditDiff\<close>,
    \<open>EditProps\<close> (\<open>edit-diff.ts\<close>), \<open>EditTool\<close> (\<open>edit.ts\<close>), \<open>FileQueue\<close>
    (\<open>file-mutation-queue.ts\<close>), \<open>Truncate\<close> (\<open>truncate.ts\<close>) and \<open>OutputBuffer\<close>
    (\<open>output-accumulator.ts\<close>), which shows the end of an output as \<open>truncateTail\<close> would.
  \<^item> Edit checkpoints (\<open>core/edit-checkpoints/\<close>): \<open>Checkpoints\<close>. Before a tool changes files
    their old texts are captured in the batch of the prompt; undoing restores them.
  \<^item> The safety rules (\<open>core/safety/\<close>): \<open>Safety\<close>, the laws, the operator modes and the check of
    results; the effort regulator (\<open>core/reflective-loop/effort-regulator.ts\<close>): \<open>Effort\<close>.
  \<^item> The tool gate (\<open>core/agent-session.ts\<close>): \<open>ToolGate\<close> has the hooks the session installs in
    the agent loop, on a record \<open>tool_gate\<close> of the fields of \<open>AgentSession\<close> they use, over the safety
    rules, the regulator, the checkpoints and the process tree; \<open>ToolGateProps\<close> its step relation and
    properties.
  \<^item> The event stream (\<open>packages/ai/src/utils/event-stream.ts\<close>): \<open>EventStream\<close>, between the
    agent loop and whoever iterates over its events.
  \<^item> Terminal input (\<open>packages/tui/src/stdin-buffer.ts\<close>): \<open>StdinBuffer\<close> cuts what the terminal
    sends into key sequences and pastes.

  \<^bold>\<open>What is shown.\<close>

  \<^item> Session store: in every reachable state the tree, the index, the labels and the file agree;
    what an assistant has said is on disk; appending a message extends the context by that message;
    no edit changes an existing branch; a file opened again gives the same session; branches,
    compactions and migrations have the context they should. Two theorems exhibit defects: a
    collision of drawn ids makes the context of a migrated file diverge, and extracting a branch
    with a label loses what precedes the label.
  \<^item> Compaction: the summarised and the kept messages are the old context, in order; a kept tool
    result keeps the message it answers; the cut respects the budget; the model sees the summary and
    the kept messages afterwards.
  \<^item> Schedule: the groups are a partition of the calls in order, and free of conflicts.
  \<^item> Agent loop: the events of every run, returned or thrown, follow the protocol; the results
    answer the calls in order; a turn ends under every interleaving of concurrent calls; sequential
    and parallel execution agree on one call; the context is the transcript.
  \<^item> Agent: the state gains exactly the messages of the run; one run at a time; failures are
    reported; queues deliver all and in order.
  \<^item> File tools: applying edits is the replacement of disjoint matched spans and nothing else; one
    bad edit refuses all; the tool writes only the edited text and keeps the format of the file;
    mutations of one key are serialised in every interleaving; truncation returns whole lines, or an
    end of the last one, within both limits; the rolling buffer shows what truncating the whole
    output would show, with bounded memory, and loses no byte of the stored output.
  \<^item> Edit checkpoints: undoing back to a prompt restores every file to its text at that prompt.
  \<^item> Safety: a result passes the check exactly when it has its type; forced pushes and removals are
    found in any command. Effort: the regulator stops as a function of the calls of the prompt.
  \<^item> Tool gate: the loop executes only calls that passed every rule; no two running calls mutate one
    file; a confirmation is spent by the call it lets through. A call aborted behind the gate locks its
    file for the rest of the session, and a refused edit counts as running; both are exhibited.
  \<^item> Event stream: under every interleaving the consumer gets the events in order, all of them, and
    then the end; when the run throws, the stream is never ended.
  \<^item> Terminal input: the sequences do not depend on how the input is cut into pieces.

  \<^bold>\<open>Interfaces.\<close> The locales and their instances on the model: \<open>call_partition\<close> (what the loop
  needs of the hook that groups calls; \<open>session_partition\<close>), \<open>loop_client\<close> (an invariant kept by
  callbacks holds across a run; \<open>agent_client\<close>), \<open>message_queue\<close> (a queue drained bit by bit;
  \<open>pending\<close>), \<open>file_store\<close> (what the edit tool needs of file operations; \<open>disk_store\<close>),
  \<open>checkpoint_files\<close> (what undoing needs of them; \<open>node_files\<close>).

  \<^bold>\<open>Conventions.\<close>

  \<^item> A thrown error is \<open>Inl\<close> of its message. An operation that may not return is an option,
    \<open>None\<close> being that it does not; the loops concerned are \<open>walk\<close> and \<open>collect_loop\<close> of the
    session tree and \<open>run_entries\<close> and \<open>loop_turns\<close> of the agent loop. Nothing runs on fuel.
  \<^item> Strings of the session and agent parts are lists of 8-bit characters, so lengths agree with
    the source on Latin-1 text only; the file tools work on UTF-16 units (\<open>ustring\<close>).
  \<^item> Numbers of the source that count are \<open>nat\<close> or \<open>int\<close>; the generator of \<open>guardedChoice\<close>
    is over 32-bit words. Token budgets multiply in the integers where the source uses \<open>0.9\<close>.
  \<^item> Providers, tools, hooks, listeners, the validator, random ids, the clock, NFKC normalisation and
    the package \<open>diff\<close> are arguments. A provider stream and a running tool are well-founded
    trees of steps; a concurrent batch is interleaved by an arbitrary scheduler \<open>env_pick\<close>.
  \<^item> A run carries a trace of the events handed to the sink; no function of the source reads it.
  \<^item> When a concurrent batch fails, the calls still running are abandoned by the model; in the
    source they may go on and emit events after the rejection.
  \<^item> A hook of the gate is one step of the loop, and an extension does not change the arguments of a
    call in place; the source allows it to, after the safety rules have seen them.
  \<^item> Callbacks act on an agent only through the interface \<open>agent_api\<close>.

  \<^bold>\<open>Hypotheses.\<close> \<open>sound_stream\<close>: a provider stream has at most one start event.
  \<open>never_aborted\<close>: the run is not aborted. \<open>sm_fresh\<close>, \<open>draws_fresh\<close>: the random source gives
  an unused id within the attempts of \<open>generateId\<close>. \<open>nfkc_stable\<close>: normalising normalised text
  changes nothing. \<open>code_units\<close>: units are 16-bit numbers. Each property with a hypothesis is
  applied to a concrete case by its witness.

  \<^bold>\<open>Not modelled.\<close> The listing of sessions and the tree view of the session manager (they only
  read); \<open>runToolSchedule\<close> (it drives the package \<open>cpa-agents\<close>); the repair of stringified arguments
  of the edit tool and its rendering; of the session, what lies outside the tool gate: the ladder of
  models, the history store of \<open>core/trek-store\<close>, branches and prompts; the sandbox; the controller of
  the reflective loop, routing (\<open>core/runtime\<close>) and memory, which choose models and texts; the other
  tools; the model providers, extensions, package manager, settings, Telegram, the terminal and HTML
  interfaces, which are input and output or configuration; the harness in
  \<open>packages/agent/src/harness\<close>, a second copy of the session and loop infrastructure.

  \<^bold>\<open>Plan.\<close> What would add most next is the history store and the controller of the reflective loop,
  which writes one trace for each prompt, and then the pure structures of the terminal interface (kill
  ring, undo stack, fuzzy matching).
\<close>

end
